(* ===== verification/Prelude.thy ===== *)
theory Prelude
  imports Main "HOL-Library.Word"
begin

text \<open>
  Shared vocabulary of the development: Go error values, the state-and-error monad in which the
  stateful code is written, loops over slices, and the frame locale from which every
  ``this operation only does so much to the connection'' fact is derived.

  A Go function \<^verbatim>\<open>func f(...) (T, error)\<close> that works on shared mutable state is a term of
  type \<open>('s, 'a) em\<close>: it takes the state and returns the error or the value, together with the
  state it leaves behind.  The state survives an error, as it does in Go.
\<close>

named_theorems frame_intros \<open>closure rules of the frame locale\<close>

section \<open>Errors\<close>

text \<open>
  Error values.  \<open>ErrNotExist\<close> and \<open>ErrExist\<close> are the sentinels \<^verbatim>\<open>os.ErrNotExist\<close> and
  \<^verbatim>\<open>os.ErrExist\<close>; \<open>ErrText m\<close> is \<^verbatim>\<open>fmt.Errorf\<close> without a wrapped error; \<open>ErrWrap m e\<close> is
  \<^verbatim>\<open>fmt.Errorf("m: %w", e)\<close>; \<open>ErrJoin es\<close> is \<^verbatim>\<open>errors.Join(es...)\<close>.  Messages keep the
  constant text of the format string and leave the interpolated arguments out.  \<open>ErrPanic\<close> is a run
  time panic: no caller of the program recovers from one, so it passes through every handler.
\<close>

datatype go_error =
    ErrNotExist
  | ErrExist
  | ErrText string
  | ErrWrap string go_error
  | ErrJoin "go_error list"
  | ErrPanic string

fun isPanic :: "go_error \<Rightarrow> bool" where
  "isPanic (ErrPanic m) = True"
| "isPanic (ErrWrap m e) = isPanic e"
| "isPanic e = False"

text \<open>\<^verbatim>\<open>errors.Is\<close>: the error itself or anything it wraps or joins.\<close>

fun errorsIs :: "go_error \<Rightarrow> go_error \<Rightarrow> bool" where
  "errorsIs (ErrWrap m e) t = (ErrWrap m e = t \<or> errorsIs e t)"
| "errorsIs (ErrJoin es) t = (ErrJoin es = t \<or> (\<exists>e \<in> set es. errorsIs e t))"
| "errorsIs e t = (e = t)"

type_synonym 'a res = "go_error + 'a"

definition is_err :: "'a res \<Rightarrow> bool" where
  "is_err r = (case r of Inl _ \<Rightarrow> True | Inr _ \<Rightarrow> False)"

lemma is_err_simps [simp]:
  "is_err (Inl e) = True"
  "is_err (Inr x) = False"
  by (simp_all add: is_err_def)

definition bindR :: "'a res \<Rightarrow> ('a \<Rightarrow> 'b res) \<Rightarrow> 'b res" where
  "bindR r f = (case r of Inl e \<Rightarrow> Inl e | Inr x \<Rightarrow> f x)"

definition wrapR :: "string \<Rightarrow> 'a res \<Rightarrow> 'a res" where
  "wrapR m r = (case r of Inl e \<Rightarrow> Inl (ErrWrap m e) | Inr x \<Rightarrow> Inr x)"

lemma bindR_simps [simp]:
  "bindR (Inl e) f = Inl e"
  "bindR (Inr x) f = f x"
  by (simp_all add: bindR_def)

lemma wrapR_simps [simp]:
  "wrapR m (Inl e) = Inl (ErrWrap m e)"
  "wrapR m (Inr x) = Inr x"
  by (simp_all add: wrapR_def)

lemma bindR_Inr_iff: "bindR r f = Inr y \<longleftrightarrow> (\<exists>x. r = Inr x \<and> f x = Inr y)"
  by (cases r) auto

lemma wrapR_Inr_iff [simp]: "wrapR m r = Inr y \<longleftrightarrow> r = Inr y"
  by (cases r) auto

section \<open>The state-and-error monad\<close>

type_synonym ('s, 'a) em = "'s \<Rightarrow> 'a res \<times> 's"

definition retM :: "'a \<Rightarrow> ('s, 'a) em" where
  "retM x = (\<lambda>s. (Inr x, s))"

definition throwM :: "go_error \<Rightarrow> ('s, 'a) em" where
  "throwM e = (\<lambda>s. (Inl e, s))"

definition bindM :: "('s, 'a) em \<Rightarrow> ('a \<Rightarrow> ('s, 'b) em) \<Rightarrow> ('s, 'b) em" where
  "bindM m f = (\<lambda>s. case m s of (Inl e, s') \<Rightarrow> (Inl e, s') | (Inr x, s') \<Rightarrow> f x s')"

definition thenM :: "('s, 'a) em \<Rightarrow> ('s, 'b) em \<Rightarrow> ('s, 'b) em" where
  "thenM m n = bindM m (\<lambda>_. n)"

definition getM :: "('s, 's) em" where
  "getM = (\<lambda>s. (Inr s, s))"

definition modifyM :: "('s \<Rightarrow> 's) \<Rightarrow> ('s, unit) em" where
  "modifyM f = (\<lambda>s. (Inr (), f s))"

definition liftR :: "'a res \<Rightarrow> ('s, 'a) em" where
  "liftR r = (\<lambda>s. (r, s))"

text \<open>\<^verbatim>\<open>if err != nil { return fmt.Errorf("m: %w", err) }\<close>\<close>

definition wrapM :: "string \<Rightarrow> ('s, 'a) em \<Rightarrow> ('s, 'a) em" where
  "wrapM msg m = (\<lambda>s. case m s of (r, s') \<Rightarrow> (wrapR msg r, s'))"

text \<open>\<open>tryM m\<close> hands the error to the caller instead of returning it.\<close>

definition tryM :: "('s, 'a) em \<Rightarrow> ('s, 'a res) em" where
  "tryM m = (\<lambda>s. case m s of (r, s') \<Rightarrow> (Inr r, s'))"

text \<open>The same for operations that can panic: an error is handed over, a panic is not.\<close>

definition recoverR :: "'a res \<Rightarrow> 'a res res" where
  "recoverR r = (case r of Inl e \<Rightarrow> if isPanic e then Inl e else Inr (Inl e) | Inr x \<Rightarrow> Inr (Inr x))"

definition catchM :: "('s, 'a) em \<Rightarrow> ('s, 'a res) em" where
  "catchM m = (\<lambda>s. case m s of (r, s') \<Rightarrow> (recoverR r, s'))"

text \<open>\<^verbatim>\<open>errors.Join\<close> of the collected errors: nil when there is none.\<close>

definition joinErrs :: "go_error list \<Rightarrow> unit res" where
  "joinErrs es = (if es = [] then Inr () else Inl (ErrJoin es))"

text \<open>\<^verbatim>\<open>for _, x := range xs { ... }\<close> with an early return on error.\<close>

fun forM :: "'x list \<Rightarrow> ('x \<Rightarrow> ('s, unit) em) \<Rightarrow> ('s, unit) em" where
  "forM [] f = retM ()"
| "forM (x # xs) f = thenM (f x) (forM xs f)"

text \<open>A loop that carries a local variable of the function.\<close>

fun foldM :: "('a \<Rightarrow> 'x \<Rightarrow> ('s, 'a) em) \<Rightarrow> 'a \<Rightarrow> 'x list \<Rightarrow> ('s, 'a) em" where
  "foldM f a [] = retM a"
| "foldM f a (x # xs) = bindM (f a x) (\<lambda>a'. foldM f a' xs)"

definition whenM :: "bool \<Rightarrow> ('s, unit) em \<Rightarrow> ('s, unit) em" where
  "whenM b m = (if b then m else retM ())"

lemma em_proj [simp]:
  "fst (retM x s) = Inr x" "snd (retM x s) = s"
  "fst (throwM e s) = Inl e" "snd (throwM e s) = s"
  "fst (liftR r s) = r" "snd (liftR r s) = s"
  "fst (getM s) = Inr s" "snd (getM s) = s"
  "fst (modifyM f s) = Inr ()" "snd (modifyM f s) = f s"
  by (simp_all add: retM_def throwM_def liftR_def getM_def modifyM_def)

text \<open>
  Application of the basic operations to a state.  Not simplification rules: the simplifier would
  contract \<open>retM x\<close> to a partial application of the pair constructor and hide it from the frame
  rules.
\<close>

lemma em_apply:
  "retM x s = (Inr x, s)" "throwM e s = (Inl e, s)" "liftR r s = (r, s)"
  "getM s = (Inr s, s)" "modifyM f s = (Inr (), f s)"
  by (simp_all add: retM_def throwM_def liftR_def getM_def modifyM_def)

lemma em_eq_iff [simp]:
  "retM x s = (r, s') \<longleftrightarrow> r = Inr x \<and> s' = s"
  "throwM e s = (r', s') \<longleftrightarrow> r' = Inl e \<and> s' = s"
  "liftR q s = (r, s') \<longleftrightarrow> r = q \<and> s' = s"
  "modifyM f s = (u, s') \<longleftrightarrow> u = Inr () \<and> s' = f s"
  by (auto simp: em_apply)

lemma bindM_Inr: "m s = (Inr x, s') \<Longrightarrow> bindM m f s = f x s'"
  by (simp add: bindM_def)

lemma bindM_Inl: "m s = (Inl e, s') \<Longrightarrow> bindM m f s = (Inl e, s')"
  by (simp add: bindM_def)

lemma bindM_simps [simp]:
  "bindM (retM x) f = f x"
  "bindM (throwM e) f = throwM e"
  "bindM getM g s = g s s"
  "bindM (modifyM h) k s = k () (h s)"
  by (auto simp: bindM_def em_apply retM_def throwM_def)

lemma bindM_liftR [simp]:
  "bindM (liftR (Inr x)) f = f x"
  "bindM (liftR (Inl e)) f = throwM e"
  by (auto simp: bindM_def em_apply throwM_def liftR_def)

lemma thenM_simps [simp]:
  "thenM (retM x) n = n"
  "thenM (throwM e) n = throwM e"
  "thenM (modifyM h) n s = n (h s)"
  by (auto simp: thenM_def)

lemma wrapM_apply: "wrapM msg m s = (wrapR msg (fst (m s)), snd (m s))"
  by (simp add: wrapM_def split: prod.splits)

lemma tryM_apply: "tryM m s = (Inr (fst (m s)), snd (m s))"
  by (simp add: tryM_def split: prod.splits)

lemma catchM_apply: "catchM m s = (recoverR (fst (m s)), snd (m s))"
  by (simp add: catchM_def split: prod.splits)

lemma recoverR_simps [simp]:
  "recoverR (Inr x) = Inr (Inr x)"
  "isPanic e \<Longrightarrow> recoverR (Inl e) = Inl e"
  "\<not> isPanic e \<Longrightarrow> recoverR (Inl e) = Inr (Inl e)"
  by (simp_all add: recoverR_def)

lemma joinErrs_simps [simp]:
  "joinErrs [] = Inr ()"
  "joinErrs (e # es) = Inl (ErrJoin (e # es))"
  by (simp_all add: joinErrs_def)

lemma bindM_apply:
  "bindM m f s = (case m s of (Inl e, s') \<Rightarrow> (Inl e, s') | (Inr x, s') \<Rightarrow> f x s')"
  by (simp add: bindM_def)

lemma thenM_apply:
  "thenM m n s = (case m s of (Inl e, s') \<Rightarrow> (Inl e, s') | (Inr x, s') \<Rightarrow> n s')"
  by (simp add: thenM_def bindM_apply)

text \<open>Symbolic execution of an operation applied to a state.\<close>

lemma whenM_apply: "whenM b m s = (if b then m s else (Inr (), s))"
  by (simp add: whenM_def em_apply)

lemmas run_simps = em_apply bindM_apply thenM_apply wrapM_apply tryM_apply catchM_apply whenM_apply

lemma whenM_simps [simp]:
  "whenM True m = m"
  "whenM False m = retM ()"
  by (simp_all add: whenM_def)

lemma bindM_InrE:
  assumes "bindM m f s = (Inr y, s'')"
  obtains x s' where "m s = (Inr x, s')" "f x s' = (Inr y, s'')"
  using assms by (cases "m s") (auto simp: bindM_def split: sum.splits)

lemma thenM_InrE:
  assumes "thenM m n s = (Inr y, s'')"
  obtains x s' where "m s = (Inr x, s')" "n s' = (Inr y, s'')"
  using assms unfolding thenM_def by (rule bindM_InrE)

lemma wrapM_InrE:
  assumes "wrapM msg m s = (Inr y, s')"
  obtains "m s = (Inr y, s')"
  using assms by (cases "m s") (auto simp: wrapM_def)

lemma wrapM_Inr: "m s = (Inr y, s') \<Longrightarrow> wrapM msg m s = (Inr y, s')"
  by (simp add: wrapM_def)

lemma bindM_assoc: "bindM (bindM m f) g = bindM m (\<lambda>x. bindM (f x) g)"
  by (rule ext) (simp add: bindM_def split: prod.splits sum.splits)

lemma forM_append: "forM (xs @ ys) f = thenM (forM xs f) (forM ys f)"
  by (induction xs) (simp_all add: thenM_def bindM_assoc)

section \<open>Frames\<close>

text \<open>
  A frame is a reflexive and transitive relation between the state before and after.  Every
  operation built from steps that respect the frame keeps it, whatever error paths it takes.
  \<open>keeps R m\<close> is the contract; the locale proves its closure rules once, and each frame of the
  development is an interpretation.
\<close>

definition keeps :: "('s \<Rightarrow> 's \<Rightarrow> bool) \<Rightarrow> ('s, 'a) em \<Rightarrow> bool" where
  "keeps R m \<longleftrightarrow> (\<forall>s. R s (snd (m s)))"

lemma keepsD: "keeps R m \<Longrightarrow> m s = (r, s') \<Longrightarrow> R s s'"
  unfolding keeps_def by (metis snd_conv)

locale frame =
  fixes R :: "'s \<Rightarrow> 's \<Rightarrow> bool"
  assumes frame_refl: "R s s"
    and frame_trans: "R s t \<Longrightarrow> R t u \<Longrightarrow> R s u"
begin

lemma keeps_ret [frame_intros]: "keeps R (retM x)"
  by (simp add: keeps_def frame_refl)

lemma keeps_throw [frame_intros]: "keeps R (throwM e)"
  by (simp add: keeps_def frame_refl)

lemma keeps_get [frame_intros]: "keeps R getM"
  by (simp add: keeps_def frame_refl)

lemma keeps_lift [frame_intros]: "keeps R (liftR r)"
  by (simp add: keeps_def frame_refl)

lemma keeps_modify: "(\<And>s. R s (f s)) \<Longrightarrow> keeps R (modifyM f)"
  by (simp add: keeps_def)

lemma keeps_bind [frame_intros]:
  assumes "keeps R m" and "\<And>x. keeps R (f x)"
  shows "keeps R (bindM m f)"
  unfolding keeps_def
proof
  fix s
  obtain r s' where m: "m s = (r, s')" by (cases "m s")
  then have "R s s'" using assms(1) by (blast dest: keepsD)
  then show "R s (snd (bindM m f s))"
    using m assms(2) by (cases r) (auto simp: bindM_def keeps_def intro: frame_trans)
qed

lemma keeps_then [frame_intros]:
  "keeps R m \<Longrightarrow> keeps R n \<Longrightarrow> keeps R (thenM m n)"
  unfolding thenM_def by (rule keeps_bind)

lemma keeps_wrap [frame_intros]: "keeps R m \<Longrightarrow> keeps R (wrapM msg m)"
  by (simp add: keeps_def wrapM_apply)

lemma keeps_try [frame_intros]: "keeps R m \<Longrightarrow> keeps R (tryM m)"
  by (simp add: keeps_def tryM_apply)

lemma keeps_catch [frame_intros]: "keeps R m \<Longrightarrow> keeps R (catchM m)"
  by (simp add: keeps_def catchM_apply)

lemma keeps_when [frame_intros]: "keeps R m \<Longrightarrow> keeps R (whenM b m)"
  by (cases b) (simp_all add: keeps_ret)

lemma keeps_for [frame_intros]:
  "(\<And>x. x \<in> set xs \<Longrightarrow> keeps R (f x)) \<Longrightarrow> keeps R (forM xs f)"
  by (induction xs) (auto intro: keeps_ret keeps_then)

lemma keeps_fold [frame_intros]:
  "(\<And>a x. x \<in> set xs \<Longrightarrow> keeps R (f a x)) \<Longrightarrow> keeps R (foldM f a xs)"
  by (induction xs arbitrary: a) (auto intro: keeps_ret keeps_bind)

end

section \<open>Triples\<close>

text \<open>
  \<open>triple I P m Q\<close>: started in a state with the invariant \<open>I\<close> and the precondition \<open>P\<close>, the
  operation keeps \<open>I\<close> whatever it returns, and a value it returns satisfies \<open>Q\<close> in the final state.
\<close>

definition triple ::
  "('s \<Rightarrow> bool) \<Rightarrow> ('s \<Rightarrow> bool) \<Rightarrow> ('s, 'a) em \<Rightarrow> ('a \<Rightarrow> 's \<Rightarrow> bool) \<Rightarrow> bool" where
  "triple I P m Q \<longleftrightarrow>
     (\<forall>s. I s \<and> P s \<longrightarrow> I (snd (m s)) \<and> (\<forall>x. fst (m s) = Inr x \<longrightarrow> Q x (snd (m s))))"

named_theorems triple_intros \<open>rules of the triple calculus\<close>

abbreviation anyS :: "'s \<Rightarrow> bool" where "anyS \<equiv> \<lambda>_. True"
abbreviation anyR :: "'a \<Rightarrow> 's \<Rightarrow> bool" where "anyR \<equiv> \<lambda>_ _. True"

lemma tripleD:
  assumes "triple I P m Q" "I s" "P s" "m s = (r, s')"
  shows "I s'" "r = Inr x \<Longrightarrow> Q x s'"
  using assms unfolding triple_def by fastforce+

lemma triple_ret: "(\<And>s. I s \<Longrightarrow> P s \<Longrightarrow> Q x s) \<Longrightarrow> triple I P (retM x) Q"
  by (simp add: triple_def)

lemma triple_throw [triple_intros]: "triple I P (throwM e) Q"
  by (simp add: triple_def)

lemma triple_lift: "(\<And>s x. I s \<Longrightarrow> P s \<Longrightarrow> r = Inr x \<Longrightarrow> Q x s) \<Longrightarrow> triple I P (liftR r) Q"
  by (simp add: triple_def)

lemma triple_bind:
  assumes "triple I P m Q" and "\<And>x. triple I (Q x) (f x) R"
  shows "triple I P (bindM m f) R"
  unfolding triple_def
proof (intro allI impI)
  fix s assume s: "I s \<and> P s"
  obtain r s' where m: "m s = (r, s')" by (cases "m s")
  show "I (snd (bindM m f s)) \<and> (\<forall>x. fst (bindM m f s) = Inr x \<longrightarrow> R x (snd (bindM m f s)))"
  proof (cases r)
    case (Inl e)
    then show ?thesis using tripleD(1) [OF assms(1) _ _ m] s m by (simp add: bindM_apply)
  next
    case (Inr x)
    then have "I s'" "Q x s'" using tripleD [OF assms(1) _ _ m] s by auto
    then show ?thesis using assms(2) [of x] m Inr by (simp add: bindM_apply triple_def)
  qed
qed

lemma triple_then:
  "triple I P m (\<lambda>_. Q) \<Longrightarrow> triple I Q n R \<Longrightarrow> triple I P (thenM m n) R"
  unfolding thenM_def by (rule triple_bind)

lemma triple_wrap: "triple I P m Q \<Longrightarrow> triple I P (wrapM msg m) Q"
  by (simp add: triple_def wrapM_apply)

lemma triple_try:
  "triple I P m Q \<Longrightarrow> (\<And>e s. R (Inl e) s) \<Longrightarrow> (\<And>x s. Q x s \<Longrightarrow> R (Inr x) s) \<Longrightarrow> triple I P (tryM m) R"
  unfolding triple_def tryM_apply by (metis fst_conv snd_conv sum.exhaust sum.inject(2))

lemma triple_conseq:
  "triple I P m Q \<Longrightarrow> (\<And>s. I s \<Longrightarrow> P' s \<Longrightarrow> P s) \<Longrightarrow> (\<And>x s. I s \<Longrightarrow> Q x s \<Longrightarrow> Q' x s) \<Longrightarrow> triple I P' m Q'"
  unfolding triple_def by blast

lemma triple_when:
  "(b \<Longrightarrow> triple I P m anyR) \<Longrightarrow> triple I P (whenM b m) anyR"
  by (cases b) (auto intro: triple_ret)

lemma triple_pure: "(b \<Longrightarrow> triple I P m Q) \<Longrightarrow> triple I (\<lambda>s. b \<and> P s) m Q"
  unfolding triple_def by blast

lemma triple_for:
  "(\<And>x. x \<in> set xs \<Longrightarrow> triple I P (f x) (\<lambda>_. P)) \<Longrightarrow> triple I P (forM xs f) (\<lambda>_. P)"
  by (induction xs) (auto intro: triple_ret triple_then)

lemma triple_fold:
  "(\<And>a x. x \<in> set xs \<Longrightarrow> triple I P (f a x) (\<lambda>_. P)) \<Longrightarrow> triple I P (foldM f a xs) (\<lambda>_. P)"
proof (induction xs arbitrary: a)
  case (Cons x xs)
  then show ?case by (auto intro!: triple_bind [of I P _ "\<lambda>_. P"])
qed (auto intro: triple_ret)

section \<open>Specifications of results\<close>

text \<open>
  A triple whose postcondition speaks about the returned value only: the operation keeps \<open>I\<close>, and what
  it returns satisfies \<open>Q\<close>.  The rules follow the structure of an operation.
\<close>

definition spec :: "('s \<Rightarrow> bool) \<Rightarrow> ('s, 'a) em \<Rightarrow> ('a \<Rightarrow> bool) \<Rightarrow> bool" where
  "spec I m Q \<longleftrightarrow> triple I anyS m (\<lambda>x _. Q x)"

abbreviation anyV :: "'a \<Rightarrow> bool" where "anyV \<equiv> \<lambda>_. True"

named_theorems spec_intros \<open>rules for specifications of results\<close>

lemma specI: "(\<And>s. I s \<Longrightarrow> I (snd (m s)) \<and> (\<forall>x. fst (m s) = Inr x \<longrightarrow> Q x)) \<Longrightarrow> spec I m Q"
  by (simp add: spec_def triple_def)

lemma specD: "spec I m Q \<Longrightarrow> I s \<Longrightarrow> m s = (r, s') \<Longrightarrow> I s' \<and> (\<forall>x. r = Inr x \<longrightarrow> Q x)"
  unfolding spec_def triple_def by (metis fst_conv snd_conv)

lemma spec_ret: "Q x \<Longrightarrow> spec I (retM x) Q"
  by (simp add: specI)

lemma spec_ret_any [spec_intros]: "spec I (retM x) anyV"
  by (simp add: specI)

lemma spec_throw [spec_intros]: "spec I (throwM e) Q"
  by (simp add: specI)

lemma spec_lift [spec_intros]: "spec I (liftR r) anyV"
  by (simp add: specI)

lemma spec_get [spec_intros]: "spec I getM I"
  by (simp add: specI)

lemma spec_modify: "(\<And>s. I s \<Longrightarrow> I (f s)) \<Longrightarrow> spec I (modifyM f) anyV"
  by (simp add: specI)

lemma spec_bind [spec_intros]: "spec I m Q \<Longrightarrow> (\<And>x. Q x \<Longrightarrow> spec I (f x) R) \<Longrightarrow> spec I (bindM m f) R"
  unfolding spec_def by (erule triple_bind) (unfold triple_def, blast)

lemma spec_then [spec_intros]: "spec I m anyV \<Longrightarrow> spec I n R \<Longrightarrow> spec I (thenM m n) R"
  unfolding thenM_def by (rule spec_bind)

lemma spec_wrap [spec_intros]: "spec I m Q \<Longrightarrow> spec I (wrapM msg m) Q"
  unfolding spec_def by (rule triple_wrap)

lemma spec_try [spec_intros]: "spec I m Q \<Longrightarrow> spec I (tryM m) (\<lambda>r. \<forall>x. r = Inr x \<longrightarrow> Q x)"
  unfolding spec_def by (erule triple_try) auto

lemma spec_when [spec_intros]: "(b \<Longrightarrow> spec I m anyV) \<Longrightarrow> spec I (whenM b m) anyV"
  by (cases b) (simp_all add: spec_ret_any)

lemma spec_for [spec_intros]: "(\<And>x. x \<in> set xs \<Longrightarrow> spec I (f x) anyV) \<Longrightarrow> spec I (forM xs f) anyV"
  unfolding spec_def by (rule triple_for)

lemma spec_fold [spec_intros]: "(\<And>a x. x \<in> set xs \<Longrightarrow> spec I (f a x) anyV) \<Longrightarrow> spec I (foldM f a xs) anyV"
  unfolding spec_def by (rule triple_fold)

lemma spec_any: "spec I m Q \<Longrightarrow> spec I m anyV"
  unfolding spec_def triple_def by blast

lemma spec_splits [spec_intros]:
  "(\<And>a b. p = (a, b) \<Longrightarrow> spec I (f a b) Q) \<Longrightarrow> spec I (case p of (a, b) \<Rightarrow> f a b) Q"
  "(c \<Longrightarrow> spec I m Q) \<Longrightarrow> (\<not> c \<Longrightarrow> spec I m' Q) \<Longrightarrow> spec I (if c then m else m') Q"
  "(\<And>x. z = Some x \<Longrightarrow> spec I (g x) Q) \<Longrightarrow> (z = None \<Longrightarrow> spec I h Q) \<Longrightarrow>
   spec I (case z of None \<Rightarrow> h | Some x \<Rightarrow> g x) Q"
  "(\<And>e. r = Inl e \<Longrightarrow> spec I (k e) Q) \<Longrightarrow> (\<And>x. r = Inr x \<Longrightarrow> spec I (l x) Q) \<Longrightarrow>
   spec I (case r of Inl e \<Rightarrow> k e | Inr x \<Rightarrow> l x) Q"
  "(ys = [] \<Longrightarrow> spec I m Q) \<Longrightarrow> (\<And>y ys'. ys = y # ys' \<Longrightarrow> spec I (n y ys') Q) \<Longrightarrow>
   spec I (case ys of [] \<Rightarrow> m | y # ys' \<Rightarrow> n y ys') Q"
  by (auto split: prod.splits option.splits sum.splits list.splits)

end
