(* ===== verification/Go_Strings.thy ===== *)
theory Go_Strings
  imports Prelude "HOL-Library.Char_ord" "HOL-Library.List_Lexorder"
begin

text \<open>
  The part of Go's string library the program uses.  A Go string is a sequence of bytes, so it is
  a HOL \<open>string\<close> (a list of 8-bit characters) and \<^verbatim>\<open>len\<close> is \<open>length\<close>; functions that range over
  runes decode UTF-8 first, with Go's rule that an invalid byte is the rune U+FFFD of width one.
  \<^verbatim>\<open>strings.Compare\<close> is the lexicographic order on bytes, which is the order of
  \<^verbatim>\<open>List_Lexorder\<close> over \<^verbatim>\<open>Char_ord\<close>.
\<close>

section \<open>Bytes and runes\<close>

abbreviation byteOf :: "char \<Rightarrow> nat" where
  "byteOf c \<equiv> of_char c"

definition inBytes :: "nat \<Rightarrow> nat \<Rightarrow> char \<Rightarrow> bool" where
  "inBytes lo hi c = (lo \<le> byteOf c \<and> byteOf c \<le> hi)"

definition runeError :: nat where
  "runeError = 65533"

text \<open>The second byte's range depends on the first, which rules out overlong forms and surrogates.\<close>

definition secondRange :: "nat \<Rightarrow> nat \<times> nat" where
  "secondRange b =
     (if b = 224 then (160, 191) else if b = 237 then (128, 159)
      else if b = 240 then (144, 191) else if b = 244 then (128, 143) else (128, 191))"

text \<open>\<^verbatim>\<open>utf8.DecodeRuneInString\<close>: the first rune and its width.\<close>

fun decodeRune :: "string \<Rightarrow> nat \<times> nat" where
  "decodeRune [] = (runeError, 0)"
| "decodeRune (c # cs) =
     (let b = byteOf c; (lo, hi) = secondRange b in
      if b < 128 then (b, 1)
      else if 194 \<le> b \<and> b \<le> 223 then
        (case cs of
           c1 # _ \<Rightarrow> (if inBytes 128 191 c1 then ((b - 192) * 64 + (byteOf c1 - 128), 2)
                      else (runeError, 1))
         | [] \<Rightarrow> (runeError, 1))
      else if 224 \<le> b \<and> b \<le> 239 then
        (case cs of
           c1 # c2 # _ \<Rightarrow>
             (if inBytes lo hi c1 \<and> inBytes 128 191 c2
              then ((b - 224) * 4096 + (byteOf c1 - 128) * 64 + (byteOf c2 - 128), 3)
              else (runeError, 1))
         | _ \<Rightarrow> (runeError, 1))
      else if 240 \<le> b \<and> b \<le> 244 then
        (case cs of
           c1 # c2 # c3 # _ \<Rightarrow>
             (if inBytes lo hi c1 \<and> inBytes 128 191 c2 \<and> inBytes 128 191 c3
              then ((b - 240) * 262144 + (byteOf c1 - 128) * 4096 + (byteOf c2 - 128) * 64
                    + (byteOf c3 - 128), 4)
              else (runeError, 1))
         | _ \<Rightarrow> (runeError, 1))
      else (runeError, 1))"

text \<open>\<^verbatim>\<open>for i, r := range s\<close>: every rune with the bytes it was decoded from.\<close>

function runes :: "string \<Rightarrow> (nat \<times> string) list" where
  "runes [] = []"
| "runes (c # cs) =
     (let (r, w) = decodeRune (c # cs) in (r, take w (c # cs)) # runes (drop (w - 1) cs))"
  by pat_completeness auto
termination by (relation "measure length") auto

text \<open>\<^verbatim>\<open>utf8.AppendRune\<close>: surrogates and values past U+10FFFF encode as U+FFFD.\<close>

definition encodeRune :: "nat \<Rightarrow> string" where
  "encodeRune r0 =
     (let r = (if 1114111 < r0 \<or> (55296 \<le> r0 \<and> r0 \<le> 57343) then runeError else r0) in
      if r < 128 then [char_of r]
      else if r < 2048 then [char_of (192 + r div 64), char_of (128 + r mod 64)]
      else if r < 65536 then
        [char_of (224 + r div 4096), char_of (128 + r div 64 mod 64), char_of (128 + r mod 64)]
      else
        [char_of (240 + r div 262144), char_of (128 + r div 4096 mod 64),
         char_of (128 + r div 64 mod 64), char_of (128 + r mod 64)])"

text \<open>\<^verbatim>\<open>strings.Map\<close> for a mapping that never drops a rune.\<close>

definition stringsMap :: "(nat \<Rightarrow> nat) \<Rightarrow> string \<Rightarrow> string" where
  "stringsMap f s = concat (map (\<lambda>(r, _). encodeRune (f r)) (runes s))"

section \<open>Searching, splitting and trimming\<close>

definition hasPrefix :: "string \<Rightarrow> string \<Rightarrow> bool" where
  "hasPrefix s p = (take (length p) s = p)"

fun containsStr :: "string \<Rightarrow> string \<Rightarrow> bool" where
  "containsStr [] p = (p = [])"
| "containsStr (c # cs) p = (hasPrefix (c # cs) p \<or> containsStr cs p)"

text \<open>\<^verbatim>\<open>strings.Cut\<close>: the text before and after the first occurrence, if there is one.\<close>

fun cutStr :: "string \<Rightarrow> string \<Rightarrow> (string \<times> string) option" where
  "cutStr [] p = (if p = [] then Some ([], []) else None)"
| "cutStr (c # cs) p =
     (if hasPrefix (c # cs) p then Some ([], drop (length p) (c # cs))
      else map_option (\<lambda>(b, a). (c # b, a)) (cutStr cs p))"

text \<open>\<^verbatim>\<open>strings.Split(s, sep)\<close> for a separator of one byte.\<close>

fun splitOn :: "char \<Rightarrow> string \<Rightarrow> string list" where
  "splitOn c [] = [[]]"
| "splitOn c (x # xs) =
     (if x = c then [] # splitOn c xs
      else (case splitOn c xs of [] \<Rightarrow> [[x]] | y # ys \<Rightarrow> (x # y) # ys))"

fun joinWith :: "string \<Rightarrow> string list \<Rightarrow> string" where
  "joinWith sep [] = []"
| "joinWith sep [x] = x"
| "joinWith sep (x # y # ys) = x @ sep @ joinWith sep (y # ys)"

text \<open>\<^verbatim>\<open>strings.ReplaceAll(s, old, new)\<close> for an \<open>old\<close> of one byte.\<close>

definition replaceByte :: "char \<Rightarrow> string \<Rightarrow> string \<Rightarrow> string" where
  "replaceByte old new s = concat (map (\<lambda>c. if c = old then new else [c]) s)"

text \<open>\<^verbatim>\<open>unicode.IsSpace\<close>\<close>

definition isSpaceRune :: "nat \<Rightarrow> bool" where
  "isSpaceRune r =
     (r \<in> {9, 10, 11, 12, 13, 32, 133, 160, 5760, 8232, 8233, 8239, 8287, 12288}
      \<or> (8192 \<le> r \<and> r \<le> 8202))"

definition trimSpace :: "string \<Rightarrow> string" where
  "trimSpace s =
     concat (map snd (rev (dropWhile (isSpaceRune \<circ> fst)
       (rev (dropWhile (isSpaceRune \<circ> fst) (runes s))))))"

section \<open>Case\<close>

definition lowerASCII :: "nat \<Rightarrow> nat" where
  "lowerASCII r = (if 65 \<le> r \<and> r \<le> 90 then r + 32 else r)"

text \<open>
  \<^verbatim>\<open>strings.EqualFold(s, t)\<close> for an ASCII string \<open>t\<close>.  The only runes outside ASCII that fold to
  an ASCII letter are U+017F (to \<open>s\<close>) and U+212A (to \<open>k\<close>).
\<close>

definition foldRune :: "nat \<Rightarrow> nat" where
  "foldRune r = (if r = 383 then 115 else if r = 8490 then 107 else lowerASCII r)"

definition equalFoldASCII :: "string \<Rightarrow> string \<Rightarrow> bool" where
  "equalFoldASCII s t = (map (foldRune \<circ> fst) (runes s) = map (foldRune \<circ> byteOf) t)"

text \<open>
  \<^verbatim>\<open>strings.ToLower\<close>, exact on the runes whose lower case is ASCII (U+0130 maps to \<open>i\<close> and U+212A
  to \<open>k\<close>); every other rune is left as it is, and stays outside ASCII in Go as well.
\<close>

definition lowerRune :: "nat \<Rightarrow> nat" where
  "lowerRune r = (if r = 304 then 105 else if r = 8490 then 107 else lowerASCII r)"

definition toLowerASCII :: "string \<Rightarrow> string" where
  "toLowerASCII s = stringsMap lowerRune s"

section \<open>Numbers\<close>

text \<open>\<^verbatim>\<open>%d\<close> of a non-negative number, \<^verbatim>\<open>%x\<close> and \<^verbatim>\<open>%08x\<close>.\<close>

fun itoa :: "nat \<Rightarrow> string" where
  "itoa n = (if n < 10 then [char_of (48 + n)] else itoa (n div 10) @ [char_of (48 + n mod 10)])"

declare itoa.simps [simp del]

definition hexDigit :: "nat \<Rightarrow> char" where
  "hexDigit d = char_of (if d < 10 then 48 + d else 87 + d)"

fun hexOf :: "nat \<Rightarrow> string" where
  "hexOf n = (if n < 16 then [hexDigit n] else hexOf (n div 16) @ [hexDigit (n mod 16)])"

declare hexOf.simps [simp del]

definition hex08 :: "nat \<Rightarrow> string" where
  "hex08 n = replicate (8 - length (hexOf n)) (CHR ''0'') @ hexOf n"

definition isDigit :: "char \<Rightarrow> bool" where
  "isDigit c = inBytes 48 57 c"

definition decVal :: "string \<Rightarrow> nat" where
  "decVal s = foldl (\<lambda>a c. 10 * a + (byteOf c - 48)) 0 s"

text \<open>\<^verbatim>\<open>strconv.Atoi\<close> on a 64-bit platform.\<close>

definition atoi :: "string \<Rightarrow> int option" where
  "atoi s =
     (let neg = hasPrefix s ''-''; ds = (if neg \<or> hasPrefix s ''+'' then drop 1 s else s);
          v = (if neg then - int (decVal ds) else int (decVal ds)) in
      if ds = [] \<or> \<not> list_all isDigit ds \<or> v < - (2 ^ 63) \<or> 2 ^ 63 \<le> v then None else Some v)"

section \<open>Facts about them\<close>

lemma decodeRune_ascii: "byteOf c < 128 \<Longrightarrow> decodeRune (c # cs) = (byteOf c, 1)"
  by (simp add: Let_def split: prod.splits)

declare decodeRune.simps [simp del]

lemma runes_ascii: "\<forall>c \<in> set s. byteOf c < 128 \<Longrightarrow> runes s = map (\<lambda>c. (byteOf c, [c])) s"
  by (induction s) (simp_all add: decodeRune_ascii)

lemma encodeRune_ascii: "r < 128 \<Longrightarrow> encodeRune r = [char_of r]"
  by (simp add: encodeRune_def Let_def)

lemma stringsMap_ascii:
  assumes "\<forall>c \<in> set s. byteOf c < 128" and "\<forall>c \<in> set s. f (byteOf c) = byteOf c"
  shows "stringsMap f s = s"
  using assms by (induction s) (simp_all add: stringsMap_def decodeRune_ascii encodeRune_ascii)

lemma stringsMap_total_ascii:
  assumes "\<And>r. f r < 128"
  shows "stringsMap f s = map (\<lambda>(r, _). char_of (f r)) (runes s)"
  unfolding stringsMap_def using assms
  by (induction "runes s") (auto simp: encodeRune_ascii concat_map_singleton case_prod_unfold)

lemma splitOn_nonempty [simp]: "splitOn c s \<noteq> []"
  by (induction s) (auto split: list.splits)

lemma splitOn_no_sep: "p \<in> set (splitOn c s) \<Longrightarrow> c \<notin> set p"
  by (induction s arbitrary: p) (auto split: list.splits if_splits)

lemma joinWith_splitOn: "joinWith [c] (splitOn c s) = s"
proof (induction s)
  case (Cons x xs)
  then show ?case
    by (cases "splitOn c xs"; cases "tl (splitOn c xs)") (auto split: list.splits)
qed simp

lemma splitOn_absent: "c \<notin> set s \<Longrightarrow> splitOn c s = [s]"
  by (induction s) auto

lemma length_runes: "length (runes s) \<le> length s"
proof (induction s rule: runes.induct)
  case (2 c cs)
  obtain r w where d: "decodeRune (c # cs) = (r, w)" by (cases "decodeRune (c # cs)")
  have "length (runes (drop (w - 1) cs)) \<le> length (drop (w - 1) cs)"
    using "2.IH" d by (metis prod.collapse fst_conv snd_conv)
  then show ?case by (simp add: d)
qed simp

lemma itoa_nonempty [simp]: "itoa n \<noteq> []"
  by (subst itoa.simps) simp

lemma hexOf_nonempty [simp]: "hexOf n \<noteq> []"
  by (subst hexOf.simps) simp

lemma length_hexOf_le: "n < 16 ^ k \<Longrightarrow> 0 < k \<Longrightarrow> length (hexOf n) \<le> k"
proof (induction n arbitrary: k rule: hexOf.induct)
  case (1 n)
  show ?case
  proof (cases "n < 16")
    case True
    with "1.prems" show ?thesis by (subst hexOf.simps) simp
  next
    case False
    then have k: "k \<noteq> 1" "k \<noteq> 0" using "1.prems" by (auto intro: ccontr)
    then obtain j where j: "k = Suc j" "0 < j" by (cases k) auto
    have "n div 16 < 16 ^ j" using "1.prems"(1) j by (simp add: less_mult_imp_div_less mult.commute)
    with "1.IH" [OF False] j have "length (hexOf (n div 16)) \<le> j" by blast
    with False j show ?thesis by (subst hexOf.simps) simp
  qed
qed

definition isHexChar :: "char \<Rightarrow> bool" where
  "isHexChar c = (inBytes 48 57 c \<or> inBytes 97 102 c)"

lemma isHexChar_hexDigit: "d < 16 \<Longrightarrow> isHexChar (hexDigit d)"
  by (simp add: isHexChar_def hexDigit_def inBytes_def)

lemma isHexChar_hexOf: "c \<in> set (hexOf n) \<Longrightarrow> isHexChar c"
proof (induction n rule: hexOf.induct)
  case (1 n)
  show ?case
  proof (cases "n < 16")
    case True
    with "1.prems" show ?thesis by (subst (asm) hexOf.simps) (simp add: isHexChar_hexDigit)
  next
    case False
    with "1.prems" have "c \<in> set (hexOf (n div 16)) \<or> c = hexDigit (n mod 16)"
      by (subst (asm) hexOf.simps) auto
    with "1.IH" [OF False] show ?thesis by (auto simp: isHexChar_hexDigit)
  qed
qed

lemma length_hex08: "n < 2 ^ 32 \<Longrightarrow> length (hex08 n) = 8"
  using length_hexOf_le [of n 8] by (simp add: hex08_def)

lemma isHexChar_hex08: "c \<in> set (hex08 n) \<Longrightarrow> isHexChar c"
  by (auto simp: hex08_def isHexChar_hexOf) (simp add: isHexChar_def inBytes_def)

end
