(* ===== verification/Hashing.thy ===== *)
theory Hashing
  imports Go_Strings
begin

text \<open>
  Byte-level encodings: strings as bytes, big-endian and native integers
  (\<^verbatim>\<open>binaryutil\<close>), the FNV-1a hash of \<^verbatim>\<open>hash/fnv\<close>, and the encoding \<^verbatim>\<open>encoding/gob\<close> gives a
  top-level string.
\<close>

unbundle bit_operations_syntax

type_synonym byte = "8 word"

definition bytesOf :: "string \<Rightarrow> byte list" where
  "bytesOf s = map of_char s"

definition stringOf :: "byte list \<Rightarrow> string" where
  "stringOf bs = map (\<lambda>b. char_of (unat b)) bs"

text \<open>The last \<open>n\<close> bytes of an unsigned number, most significant first.\<close>

fun beBytes :: "nat \<Rightarrow> nat \<Rightarrow> byte list" where
  "beBytes 0 v = []"
| "beBytes (Suc n) v = beBytes n (v div 256) @ [of_nat (v mod 256)]"

definition beVal :: "byte list \<Rightarrow> nat" where
  "beVal bs = foldl (\<lambda>a b. a * 256 + unat b) 0 bs"

definition bigEndianPutUint16 :: "16 word \<Rightarrow> byte list" where
  "bigEndianPutUint16 v = beBytes 2 (unat v)"

text \<open>\<^verbatim>\<open>binaryutil.NativeEndian\<close>: the flag says whether the machine is little-endian.\<close>

definition nativePutUint32 :: "bool \<Rightarrow> 32 word \<Rightarrow> byte list" where
  "nativePutUint32 little v = (if little then rev (beBytes 4 (unat v)) else beBytes 4 (unat v))"

definition fnvStep :: "32 word \<Rightarrow> byte \<Rightarrow> 32 word" where
  "fnvStep h b = (h XOR ucast b) * 16777619"

definition fnv32a :: "byte list \<Rightarrow> 32 word" where
  "fnv32a bs = foldl fnvStep 2166136261 bs"

text \<open>
  gob's unsigned integers: one byte below 128, otherwise the negated byte count and the minimal
  big-endian bytes.  A string sent at top level is the message length, the type id 6 (encoded
  as the signed integer 12), a zero byte, the string length and the bytes.
\<close>

fun minBytes :: "nat \<Rightarrow> byte list" where
  "minBytes v = (if v < 256 then [of_nat v] else minBytes (v div 256) @ [of_nat (v mod 256)])"

declare minBytes.simps [simp del]

definition gobUint :: "nat \<Rightarrow> byte list" where
  "gobUint v =
     (if v < 128 then [of_nat v]
      else let bs = minBytes v in of_nat (256 - length bs) # bs)"

definition gobString :: "string \<Rightarrow> byte list" where
  "gobString s =
     (let body = [12, 0] @ gobUint (length s) @ bytesOf s in gobUint (length body) @ body)"

section \<open>Facts about them\<close>

lemma length_beBytes [simp]: "length (beBytes n v) = n"
  by (induction n arbitrary: v) auto

lemma beVal_snoc: "beVal (bs @ [b]) = beVal bs * 256 + unat b"
  by (simp add: beVal_def)

lemma beVal_beBytes: "beVal (beBytes n v) = v mod 256 ^ n"
proof (induction n arbitrary: v)
  case 0
  then show ?case by (simp add: beVal_def)
next
  case (Suc n)
  have "unat (of_nat (v mod 256) :: byte) = v mod 256"
    by (simp add: unat_of_nat)
  moreover have "v div 256 mod 256 ^ n * 256 + v mod 256 = v mod 256 ^ Suc n"
    by (simp add: mod_mult2_eq [of v 256 "256 ^ n"])
  ultimately show ?case by (simp add: beVal_snoc Suc.IH)
qed

lemma beBytes_inj: "v < 256 ^ n \<Longrightarrow> w < 256 ^ n \<Longrightarrow> beBytes n v = beBytes n w \<Longrightarrow> v = w"
  by (metis beVal_beBytes mod_less)

lemma length_bytesOf [simp]: "length (bytesOf s) = length s"
  by (simp add: bytesOf_def)

lemma of_char_byte: "unat (of_char c :: byte) = of_char c"
proof -
  have "(of_char c :: byte) = of_nat (of_char c)"
    by (metis of_nat_of_char)
  moreover have "of_char c < (256 :: nat)" by simp
  ultimately show ?thesis by (simp add: unat_of_nat)
qed

lemma stringOf_bytesOf [simp]: "stringOf (bytesOf s) = s"
  by (simp add: stringOf_def bytesOf_def o_def of_char_byte map_idI)

lemma bytesOf_inj [simp]: "bytesOf s = bytesOf t \<longleftrightarrow> s = t"
  by (metis stringOf_bytesOf)

lemma bytesOf_append [simp]: "bytesOf (s @ t) = bytesOf s @ bytesOf t"
  by (simp add: bytesOf_def)

lemma bytesOf_take: "bytesOf (take n s) = take n (bytesOf s)"
  by (simp add: bytesOf_def take_map)

lemma length_bigEndianPutUint16 [simp]: "length (bigEndianPutUint16 v) = 2"
  by (simp add: bigEndianPutUint16_def)

lemma bigEndianPutUint16_inj [simp]: "bigEndianPutUint16 v = bigEndianPutUint16 w \<longleftrightarrow> v = w"
proof -
  have "unat x < 256 ^ 2" for x :: "16 word"
    using unsigned_less [of x, where 'a = nat] by simp
  then show ?thesis unfolding bigEndianPutUint16_def by (metis beBytes_inj word_unat_eq_iff)
qed

lemma length_nativePutUint32 [simp]: "length (nativePutUint32 le v) = 4"
  by (simp add: nativePutUint32_def)

end
