(* ===== verification/Netip.thy ===== *)
theory Netip
  imports Hashing
begin

text \<open>
  The address arithmetic the program uses: \<^verbatim>\<open>netip.ParseAddr\<close>, \<^verbatim>\<open>netip.ParsePrefix\<close>, \<^verbatim>\<open>Masked\<close>, \<^verbatim>\<open>Next\<close>,
  \<^verbatim>\<open>AsSlice\<close> of Go's standard library, \<^verbatim>\<open>net.ParseIP\<close> with \<^verbatim>\<open>To4\<close> and \<^verbatim>\<open>To16\<close>, and
  \<^verbatim>\<open>netipx.PrefixLastIP\<close>.
\<close>

unbundle bit_operations_syntax

section \<open>Addresses\<close>

text \<open>\<^verbatim>\<open>netip.Addr\<close>: the zero value, an IPv4 address, an IPv6 address with its zone.\<close>

datatype addr = AddrZero | Addr4 "32 word" | Addr6 "128 word" string

definition is4 :: "addr \<Rightarrow> bool" where
  "is4 a = (case a of Addr4 _ \<Rightarrow> True | _ \<Rightarrow> False)"

definition is6 :: "addr \<Rightarrow> bool" where
  "is6 a = (case a of Addr6 _ _ \<Rightarrow> True | _ \<Rightarrow> False)"

definition zoneOf :: "addr \<Rightarrow> string" where
  "zoneOf a = (case a of Addr6 _ z \<Rightarrow> z | _ \<Rightarrow> [])"

fun asSlice :: "addr \<Rightarrow> byte list" where
  "asSlice AddrZero = []"
| "asSlice (Addr4 w) = beBytes 4 (unat w)"
| "asSlice (Addr6 w z) = beBytes 16 (unat w)"

text \<open>The successor; the zero value after the last address of the family.\<close>

fun addrNext :: "addr \<Rightarrow> addr" where
  "addrNext AddrZero = AddrZero"
| "addrNext (Addr4 w) = (if w + 1 = 0 then AddrZero else Addr4 (w + 1))"
| "addrNext (Addr6 w z) = (if w + 1 = 0 then AddrZero else Addr6 (w + 1) z)"

section \<open>Parsing\<close>

definition errParseAddr :: go_error where
  "errParseAddr = ErrText ''ParseAddr''"

text \<open>A decimal octet without leading zero.\<close>

definition parseOctet :: "string \<Rightarrow> nat option" where
  "parseOctet s =
     (if s \<noteq> [] \<and> list_all isDigit s \<and> (length s = 1 \<or> hd s \<noteq> CHR ''0'') \<and> decVal s \<le> 255
      then Some (decVal s) else None)"

fun parseOctets :: "string list \<Rightarrow> byte list option" where
  "parseOctets [] = Some []"
| "parseOctets (s # ss) =
     (case parseOctet s of
        None \<Rightarrow> None
      | Some v \<Rightarrow> (case parseOctets ss of None \<Rightarrow> None | Some bs \<Rightarrow> Some (of_nat v # bs)))"

definition parseIPv4Fields :: "string \<Rightarrow> byte list option" where
  "parseIPv4Fields s =
     (let parts = splitOn (CHR ''.'') s in if length parts = 4 then parseOctets parts else None)"

definition isHexByte :: "char \<Rightarrow> bool" where
  "isHexByte c = (inBytes 48 57 c \<or> inBytes 97 102 c \<or> inBytes 65 70 c)"

definition hexByteVal :: "char \<Rightarrow> nat" where
  "hexByteVal c =
     (if inBytes 48 57 c then byteOf c - 48
      else if inBytes 97 102 c then byteOf c - 87 else byteOf c - 55)"

definition hexVal :: "string \<Rightarrow> nat" where
  "hexVal s = foldl (\<lambda>a c. 16 * a + hexByteVal c) 0 s"

text \<open>
  The group loop of \<^verbatim>\<open>parseIPv6\<close>: the bytes read so far, the position of the ellipsis if there was
  one, and the rest of the text.  The result is the bytes and the ellipsis, with the text used up.
\<close>

function parseGroups ::
  "byte list \<Rightarrow> nat option \<Rightarrow> string \<Rightarrow> (byte list \<times> nat option) option" where
  "parseGroups ip ell s =
     (if 16 \<le> length ip then (if s = [] then Some (ip, ell) else None)
      else
        let grp = takeWhile isHexByte s; rest = drop (length grp) s in
        if grp = [] \<or> 4 < length grp then None
        else if rest \<noteq> [] \<and> hd rest = CHR ''.'' then
          (if (ell = None \<and> length ip \<noteq> 12) \<or> 16 < length ip + 4 then None
           else (case parseIPv4Fields s of None \<Rightarrow> None | Some bs \<Rightarrow> Some (ip @ bs, ell)))
        else
          let ip' = ip @ beBytes 2 (hexVal grp) in
          (case rest of
             [] \<Rightarrow> Some (ip', ell)
           | c # rest' \<Rightarrow>
               if c \<noteq> CHR '':'' \<or> rest' = [] then None
               else if hd rest' = CHR '':'' then
                 (if ell \<noteq> None then None
                  else if tl rest' = [] then Some (ip', Some (length ip'))
                  else parseGroups ip' (Some (length ip')) (tl rest'))
               else parseGroups ip' ell rest'))"
  by pat_completeness auto

termination
  by (relation "measure (\<lambda>(ip, ell, s). 16 - length ip)") (auto simp: Let_def)

declare parseGroups.simps [simp del]

definition expandEllipsis :: "byte list \<Rightarrow> nat option \<Rightarrow> byte list option" where
  "expandEllipsis ip ell =
     (if length ip < 16 then
        (case ell of
           None \<Rightarrow> None
         | Some k \<Rightarrow> Some (take k ip @ replicate (16 - length ip) 0 @ drop k ip))
      else if ell \<noteq> None then None else Some ip)"

definition ipv6Bytes :: "string \<Rightarrow> byte list option" where
  "ipv6Bytes s =
     (if hasPrefix s ''::'' then
        (if drop 2 s = [] then Some (replicate 16 0)
         else Option.bind (parseGroups [] (Some 0) (drop 2 s)) (\<lambda>(ip, ell). expandEllipsis ip ell))
      else Option.bind (parseGroups [] None s) (\<lambda>(ip, ell). expandEllipsis ip ell))"

definition parseIPv6 :: "string \<Rightarrow> addr res" where
  "parseIPv6 s0 =
     (let (s, zone) = (case cutStr s0 ''%'' of None \<Rightarrow> (s0, None) | Some (a, b) \<Rightarrow> (a, Some b)) in
      if zone = Some [] then Inl errParseAddr
      else (case ipv6Bytes s of
              None \<Rightarrow> Inl errParseAddr
            | Some bs \<Rightarrow> Inr (Addr6 (of_nat (beVal bs)) (case zone of None \<Rightarrow> [] | Some z \<Rightarrow> z))))"

definition parseIPv4 :: "string \<Rightarrow> addr res" where
  "parseIPv4 s =
     (case parseIPv4Fields s of None \<Rightarrow> Inl errParseAddr | Some bs \<Rightarrow> Inr (Addr4 (of_nat (beVal bs))))"

text \<open>The first separator decides the family.\<close>

definition ParseAddr :: "string \<Rightarrow> addr res" where
  "ParseAddr s =
     (case dropWhile (\<lambda>c. c \<noteq> CHR ''.'' \<and> c \<noteq> CHR '':'' \<and> c \<noteq> CHR ''%'') s of
        [] \<Rightarrow> Inl errParseAddr
      | c # _ \<Rightarrow>
          if c = CHR ''.'' then parseIPv4 s
          else if c = CHR '':'' then parseIPv6 s
          else Inl errParseAddr)"

record prefix =
  pfAddr :: addr
  pfBits :: nat

definition addrBitLen :: "addr \<Rightarrow> nat" where
  "addrBitLen a = (case a of AddrZero \<Rightarrow> 0 | Addr4 _ \<Rightarrow> 32 | Addr6 _ _ \<Rightarrow> 128)"

definition errParsePrefix :: go_error where
  "errParsePrefix = ErrText ''netip.ParsePrefix''"

definition parseBits :: "string \<Rightarrow> nat option" where
  "parseBits b =
     (if b \<noteq> [] \<and> list_all isDigit b \<and> (length b = 1 \<or> hd b \<noteq> CHR ''0'') then Some (decVal b) else None)"

text \<open>The text after the last slash is the length; an address with a zone is refused.\<close>

definition ParsePrefix :: "string \<Rightarrow> prefix res" where
  "ParsePrefix s =
     (let parts = splitOn (CHR ''/'') s in
      if length parts < 2 then Inl errParsePrefix
      else
        (case ParseAddr (joinWith ''/'' (butlast parts)) of
           Inl _ \<Rightarrow> Inl errParsePrefix
         | Inr ip \<Rightarrow>
             (if is6 ip \<and> zoneOf ip \<noteq> [] then Inl errParsePrefix
              else (case parseBits (last parts) of
                      None \<Rightarrow> Inl errParsePrefix
                    | Some b \<Rightarrow>
                        if addrBitLen ip < b then Inl errParsePrefix
                        else Inr \<lparr>pfAddr = ip, pfBits = b\<rparr>))))"

section \<open>Prefixes\<close>

definition validPrefix :: "prefix \<Rightarrow> bool" where
  "validPrefix p \<longleftrightarrow> pfAddr p \<noteq> AddrZero \<and> zoneOf (pfAddr p) = [] \<and> pfBits p \<le> addrBitLen (pfAddr p)"

text \<open>\<^verbatim>\<open>prefix.Masked().Addr()\<close>\<close>

definition maskedAddr :: "prefix \<Rightarrow> addr" where
  "maskedAddr p =
     (case pfAddr p of
        AddrZero \<Rightarrow> AddrZero
      | Addr4 w \<Rightarrow> Addr4 (w AND NOT (mask (32 - pfBits p)))
      | Addr6 w z \<Rightarrow> Addr6 (w AND NOT (mask (128 - pfBits p))) [])"

text \<open>The loop of \<^verbatim>\<open>PrefixLastIP\<close> sets every bit after the prefix, counted from the most significant.\<close>

definition setBitsFrom :: "nat \<Rightarrow> nat \<Rightarrow> 'a::len word \<Rightarrow> 'a word" where
  "setBitsFrom bits w a = foldl (\<lambda>x b. set_bit (w - 1 - b) x) a [bits..<w]"

definition PrefixLastIP :: "prefix \<Rightarrow> addr" where
  "PrefixLastIP p =
     (if \<not> validPrefix p then AddrZero
      else case pfAddr p of
             AddrZero \<Rightarrow> AddrZero
           | Addr4 w \<Rightarrow> Addr4 (setBitsFrom (pfBits p) 32 w)
           | Addr6 w z \<Rightarrow> Addr6 (setBitsFrom (pfBits p) 128 w) [])"

section \<open>\<^verbatim>\<open>net.ParseIP\<close>\<close>

text \<open>A \<^verbatim>\<open>net.IP\<close> of 16 bytes, the value of a 128-bit word, or nil.\<close>

definition v4InV6Prefix :: "128 word" where
  "v4InV6Prefix = 0xFFFF00000000"

definition netParseIP :: "string \<Rightarrow> 128 word option" where
  "netParseIP s =
     (case ParseAddr s of
        Inr (Addr4 w) \<Rightarrow> Some (v4InV6Prefix OR ucast w)
      | Inr (Addr6 w z) \<Rightarrow> (if z = [] then Some w else None)
      | _ \<Rightarrow> None)"

definition to4 :: "128 word option \<Rightarrow> byte list option" where
  "to4 ip =
     (case ip of
        None \<Rightarrow> None
      | Some w \<Rightarrow> if drop_bit 32 w = drop_bit 32 v4InV6Prefix then Some (beBytes 4 (unat (ucast w :: 32 word)))
                  else None)"

definition to16 :: "128 word option \<Rightarrow> byte list option" where
  "to16 ip = map_option (\<lambda>w. beBytes 16 (unat w)) ip"

section \<open>Facts\<close>

lemma bit_setBitsFrom_aux:
  fixes a :: "'a::len word"
  assumes "w = LENGTH('a)"
  shows "bit (foldl (\<lambda>x b. set_bit (w - 1 - b) x) a bs) i \<longleftrightarrow> bit a i \<or> (i < w \<and> (\<exists>b \<in> set bs. i = w - 1 - b))"
  using assms
proof (induction bs arbitrary: a)
  case (Cons b bs)
  then show ?case by (auto simp: bit_set_bit_iff dest: bit_imp_le_length)
qed simp

lemma setBitsFrom_mask:
  fixes a :: "'a::len word"
  assumes "w = LENGTH('a)" "bits \<le> w"
  shows "setBitsFrom bits w a = a OR mask (w - bits)"
proof (rule bit_eqI)
  fix i
  have "i < w - bits \<longleftrightarrow> i < w \<and> (\<exists>b \<in> set [bits..<w]. i = w - 1 - b)"
  proof
    assume "i < w - bits"
    then have "w - 1 - i \<in> set [bits..<w]" "i = w - 1 - (w - 1 - i)" "i < w" by auto
    then show "i < w \<and> (\<exists>b \<in> set [bits..<w]. i = w - 1 - b)" by blast
  qed auto
  then show "bit (setBitsFrom bits w a) i = bit (a OR mask (w - bits)) i"
    using assms unfolding setBitsFrom_def bit_setBitsFrom_aux [OF assms(1)]
    by (auto simp: bit_simps dest: bit_imp_le_length)
qed

text \<open>Clearing and setting the host bits gives the first and the last address of a prefix.\<close>

lemma and_not_mask_unat:
  fixes w :: "'a::len word"
  shows "unat (w AND NOT (mask k)) = unat w div 2 ^ k * 2 ^ k"
proof -
  have "w AND NOT (mask k) = push_bit k (drop_bit k w)"
    by (rule bit_eqI) (auto simp: bit_simps)
  then have "unat (w AND NOT (mask k)) = take_bit LENGTH('a) (push_bit k (drop_bit k (unat w)))"
    by (simp add: unsigned_push_bit_eq unat_drop_bit_eq)
  then have "unat (w AND NOT (mask k)) = unat w div 2 ^ k * 2 ^ k mod 2 ^ LENGTH('a)"
    by (simp add: push_bit_eq_mult drop_bit_eq_div take_bit_eq_mod)
  moreover have "unat w div 2 ^ k * 2 ^ k < 2 ^ LENGTH('a)"
    using unsigned_less [of w, where 'a = nat] by (metis div_times_less_eq_dividend le_less_trans)
  ultimately show ?thesis by simp
qed

lemma or_mask_unat:
  fixes w :: "'a::len word"
  assumes "k \<le> LENGTH('a)"
  shows "unat (w OR mask k) = unat w div 2 ^ k * 2 ^ k + (2 ^ k - 1)"
proof -
  let ?u = "w AND NOT (mask k)"
  have "?u + mask k = ?u OR mask k"
    by (rule disjunctive_add) (auto simp: bit_simps)
  also have "\<dots> = w OR mask k"
    by (rule bit_eqI) (auto simp: bit_simps)
  finally have eq: "w OR mask k = ?u + mask k" by simp
  have "unat (mask k :: 'a word) = mask k"
    by (rule bit_eqI) (use assms in \<open>auto simp: bit_simps\<close>)
  then have m: "unat (mask k :: 'a word) = 2 ^ k - 1" by (simp add: mask_eq_exp_minus_1)
  have "unat w div 2 ^ k < 2 ^ (LENGTH('a) - k)"
    using unsigned_less [of w, where 'a = nat] assms
    by (simp add: less_mult_imp_div_less flip: power_add)
  then have "(unat w div 2 ^ k + 1) * 2 ^ k \<le> 2 ^ (LENGTH('a) - k) * 2 ^ k"
    by (intro mult_le_mono1) simp
  also have "(2::nat) ^ (LENGTH('a) - k) * 2 ^ k = 2 ^ LENGTH('a)" using assms by (simp flip: power_add)
  finally have "unat w div 2 ^ k * 2 ^ k + 2 ^ k \<le> 2 ^ LENGTH('a)" by (simp add: algebra_simps)
  moreover have "(1::nat) \<le> 2 ^ k" by simp
  ultimately have "unat ?u + unat (mask k :: 'a word) < 2 ^ LENGTH('a)"
    unfolding and_not_mask_unat m by linarith
  then show ?thesis
    unfolding eq by (simp add: unat_word_ariths and_not_mask_unat m)
qed

lemma div_interval: "W div m * m \<le> X \<and> X \<le> W div m * m + (m - 1) \<longleftrightarrow> X div m = W div (m::nat)" if "0 < m"
proof
  assume "W div m * m \<le> X \<and> X \<le> W div m * m + (m - 1)"
  then show "X div m = W div m" using that by (intro div_nat_eqI) (auto simp: mult.commute)
next
  assume e: "X div m = W div m"
  have "X = X div m * m + X mod m" by simp
  moreover have "X mod m \<le> m - 1" using that mod_less_divisor [of m X] by linarith
  ultimately have "X = W div m * m + X mod m" "X mod m \<le> m - 1" using e by simp_all
  then show "W div m * m \<le> X \<and> X \<le> W div m * m + (m - 1)" by (metis add_left_mono le_add1)
qed

lemma prefix_range:
  fixes w x :: "'a::len word"
  assumes "k \<le> LENGTH('a)"
  shows "w AND NOT (mask k) \<le> x \<and> x \<le> w OR mask k \<longleftrightarrow> drop_bit k x = drop_bit k w"
proof -
  have "drop_bit k x = drop_bit k w \<longleftrightarrow> unat x div 2 ^ k = unat w div 2 ^ k"
    by (simp add: word_unat_eq_iff unat_drop_bit_eq) (simp add: drop_bit_eq_div)
  then show ?thesis
    using div_interval [of "2 ^ k" "unat w" "unat x"]
    by (simp add: word_le_nat_alt and_not_mask_unat or_mask_unat [OF assms])
qed

lemma ParseAddr_nonzero: "ParseAddr s = Inr a \<Longrightarrow> a \<noteq> AddrZero"
  by (auto simp: ParseAddr_def parseIPv4_def parseIPv6_def split: list.splits if_splits option.splits prod.splits)

lemma ParsePrefix_valid: "ParsePrefix s = Inr p \<Longrightarrow> validPrefix p"
  unfolding ParsePrefix_def Let_def
  by (auto simp: validPrefix_def zoneOf_def is6_def dest: ParseAddr_nonzero
      split: if_splits sum.splits option.splits addr.splits)

end
