(* ===== verification/Nft_Names.thy ===== *)
theory Nft_Names
  imports Hashing
begin

text \<open>
  Names, comments and small helpers of \<^verbatim>\<open>pkg/server\<close>: the constants of \<^verbatim>\<open>doc.go\<close>, the name
  sanitising and truncation of \<^verbatim>\<open>netfilterrules.go\<close>, interface names, and rule comments in the
  user-data format of \<^verbatim>\<open>google/nftables/userdata\<close>.
\<close>

section \<open>Constants\<close>

definition FilterTableName :: string where "FilterTableName = ''multi-networkpolicy-filter''"
definition NatTableName :: string where "NatTableName = ''multi-networkpolicy-nat''"
definition legacyFilterTableName :: string where "legacyFilterTableName = ''filter''"
definition legacyNatTableName :: string where "legacyNatTableName = ''nat''"
definition ingressChainName :: string where "ingressChainName = ''multi-ingress''"
definition egressChainName :: string where "egressChainName = ''multi-egress''"
definition portsChainSuffix :: string where "portsChainSuffix = ''ports''"
definition peersChainSuffix :: string where "peersChainSuffix = ''peers''"
definition peerIPBlockExceptPrefix :: string where "peerIPBlockExceptPrefix = ''peer_ipblock_except''"
definition peerIPBlockPrefix :: string where "peerIPBlockPrefix = ''peer_ipblock''"
definition protoIPv4 :: string where "protoIPv4 = ''ipv4''"
definition protoIPv6 :: string where "protoIPv6 = ''ipv6''"
definition allowConntrackRuleName :: string where "allowConntrackRuleName = ''allow-conntracked''"
definition commonName :: string where "commonName = ''common''"
definition destinationAddressSuffix :: string where "destinationAddressSuffix = ''daddrs''"
definition sourceAddressSuffix :: string where "sourceAddressSuffix = ''saddrs''"
definition podInterfacesName :: string where "podInterfacesName = ''pod_interfaces''"
definition PolicyNetworkAnnotation :: string where
  "PolicyNetworkAnnotation = ''k8s.v1.cni.cncf.io/policy-for''"
definition peerRuleMark :: "32 word" where "peerRuleMark = 0x20000"
definition portRuleMark :: "32 word" where "portRuleMark = 0x10000"
definition matchRuleMark :: "32 word" where "matchRuleMark = 0x30000"
definition zeroRuleMark :: "32 word" where "zeroRuleMark = 0"

definition inputInterfaceFilterComment :: string where
  "inputInterfaceFilterComment = ''input-interface-filter''"
definition outputInterfaceFilterComment :: string where
  "outputInterfaceFilterComment = ''output-interface-filter''"
definition natFilterRuleComment :: string where
  "natFilterRuleComment = ''nat-filter-rule''"

lemmas name_consts =
  FilterTableName_def NatTableName_def legacyFilterTableName_def legacyNatTableName_def
  ingressChainName_def egressChainName_def portsChainSuffix_def peersChainSuffix_def
  peerIPBlockExceptPrefix_def peerIPBlockPrefix_def protoIPv4_def protoIPv6_def
  allowConntrackRuleName_def commonName_def destinationAddressSuffix_def sourceAddressSuffix_def
  podInterfacesName_def PolicyNetworkAnnotation_def inputInterfaceFilterComment_def
  outputInterfaceFilterComment_def natFilterRuleComment_def

section \<open>Sanitised and truncated names\<close>

definition nftNameMaxLen :: int where
  "nftNameMaxLen = 255"

text \<open>The runes nftables accepts in a name.\<close>

definition validNftRune :: "nat \<Rightarrow> bool" where
  "validNftRune r =
     ((97 \<le> r \<and> r \<le> 122) \<or> (65 \<le> r \<and> r \<le> 90) \<or> (48 \<le> r \<and> r \<le> 57)
      \<or> r = 95 \<or> r = 45 \<or> r = 46)"

definition sanitizeNftChar :: "nat \<Rightarrow> nat" where
  "sanitizeNftChar r = (if validNftRune r then r else 95)"

definition truncateNftName :: "string \<Rightarrow> int \<Rightarrow> string" where
  "truncateNftName name maxLen =
     (if maxLen \<le> 0 then []
      else
        let sanitized = stringsMap sanitizeNftChar name in
        if int (length sanitized) \<le> maxLen then sanitized
        else
          let suffix = ''-'' @ hex08 (unat (fnv32a (bytesOf name))) in
          if maxLen \<le> int (length suffix) then
            (let hash = drop 1 suffix in
             if maxLen < int (length hash) then take (nat maxLen) hash else hash)
          else take (nat (maxLen - int (length suffix))) sanitized @ suffix)"

definition nftNameWithSuffix :: "string \<Rightarrow> string \<Rightarrow> string \<Rightarrow> string" where
  "nftNameWithSuffix base separator suffix =
     (let sanitizedSeparator = stringsMap sanitizeNftChar separator;
          sanitizedSuffix = stringsMap sanitizeNftChar suffix;
          suffixLen = int (length sanitizedSeparator + length sanitizedSuffix) in
      if suffixLen = 0 then truncateNftName base nftNameMaxLen
      else if nftNameMaxLen \<le> suffixLen then
        truncateNftName (base @ sanitizedSeparator @ sanitizedSuffix) nftNameMaxLen
      else truncateNftName base (nftNameMaxLen - suffixLen) @ sanitizedSeparator @ sanitizedSuffix)"

definition getSetName :: "string \<Rightarrow> string" where
  "getSetName str = replaceByte (CHR ''-'') ''_'' str"

definition isIngressChain :: "string \<Rightarrow> bool" where
  "isIngressChain chainName = hasPrefix chainName ingressChainName"

definition getAddressSuffix :: "string \<Rightarrow> string" where
  "getAddressSuffix chainName =
     (if isIngressChain chainName then sourceAddressSuffix else destinationAddressSuffix)"

definition getProtocolInfo :: "string \<Rightarrow> string \<times> byte list" where
  "getProtocolInfo protocol =
     (if protocol = ''UDP'' then (''udp'', [17])
      else if protocol = ''SCTP'' then (''sctp'', [132])
      else (''tcp'', [6]))"

section \<open>Interface names and rule comments\<close>

text \<open>\<^verbatim>\<open>copy\<close> into a zeroed buffer of 16 bytes.\<close>

definition ifname :: "string \<Rightarrow> byte list" where
  "ifname n = (let d = take 16 (bytesOf n @ [0]) in d @ replicate (16 - length d) 0)"

definition TypeComment :: byte where
  "TypeComment = 0"

definition udAppend :: "byte list \<Rightarrow> byte \<Rightarrow> byte list \<Rightarrow> byte list" where
  "udAppend udata typ data = udata @ [typ, of_nat (length data)] @ data"

definition udAppendString :: "byte list \<Rightarrow> byte \<Rightarrow> string \<Rightarrow> byte list" where
  "udAppendString udata typ str = udAppend udata typ (bytesOf str @ [0])"

text \<open>
  The TLV scan.  Slicing past the end panics before the length check is reached; the panic is an
  error value.
\<close>

definition sliceOutOfRange :: go_error where
  "sliceOutOfRange = ErrPanic ''slice bounds out of range''"

fun udGet :: "byte list \<Rightarrow> byte \<Rightarrow> byte list option res" where
  "udGet (typ # len # rest) styp =
     (if length rest < unat len then Inl sliceOutOfRange
      else if styp = typ then Inr (Some (take (unat len) rest))
      else udGet (drop (unat len) rest) styp)"
| "udGet udata styp = Inr None"

definition cutZero :: "byte list \<Rightarrow> byte list" where
  "cutZero bs = (if bs \<noteq> [] \<and> last bs = 0 then butlast bs else bs)"

definition udGetString :: "byte list \<Rightarrow> byte \<Rightarrow> string option res" where
  "udGetString udata typ = bindR (udGet udata typ) (\<lambda>d. Inr (map_option (stringOf \<circ> cutZero) d))"

definition userDataCommentMaxLen :: nat where
  "userDataCommentMaxLen = 254"

definition userDataComment :: "string \<Rightarrow> byte list" where
  "userDataComment comment = udAppendString [] TypeComment (take userDataCommentMaxLen comment)"

section \<open>Facts about them\<close>

abbreviation validNftChar :: "char \<Rightarrow> bool" where
  "validNftChar c \<equiv> validNftRune (byteOf c)"

lemma validNftRune_ascii: "validNftRune r \<Longrightarrow> r < 128"
  by (auto simp: validNftRune_def)

lemma validNftRune_sanitize [simp]: "validNftRune (sanitizeNftChar r)"
  by (simp add: sanitizeNftChar_def validNftRune_def)

lemma sanitize_ascii [simp]: "sanitizeNftChar r < 128"
  by (rule validNftRune_ascii) simp

lemma sanitize_mod [simp]: "sanitizeNftChar r mod 256 = sanitizeNftChar r"
  by (rule mod_less) (rule order_less_trans [OF sanitize_ascii], simp)

lemma validNftChar_sanitized: "c \<in> set (stringsMap sanitizeNftChar s) \<Longrightarrow> validNftChar c"
  by (auto simp: stringsMap_total_ascii sanitize_mod)

lemma sanitize_id: "list_all validNftChar s \<Longrightarrow> stringsMap sanitizeNftChar s = s"
  by (rule stringsMap_ascii)
    (auto simp: list_all_iff sanitizeNftChar_def dest: validNftRune_ascii)

lemma isHexChar_valid: "isHexChar c \<Longrightarrow> validNftChar c"
  by (auto simp: isHexChar_def inBytes_def validNftRune_def)

lemma length_hash_suffix [simp]: "length (hex08 (unat (h :: 32 word))) = 8"
  by (rule length_hex08) (use unsigned_less [of h, where 'a = nat] in simp)

lemma validNftChar_hex08: "c \<in> set (hex08 n) \<Longrightarrow> validNftChar c"
  by (blast intro: isHexChar_valid isHexChar_hex08)

lemma validNftChar_truncate: "c \<in> set (truncateNftName name maxLen) \<Longrightarrow> validNftChar c"
  unfolding truncateNftName_def Let_def
  by (auto split: if_splits dest!: in_set_takeD in_set_dropD
      simp: validNftChar_sanitized validNftChar_hex08)
    (auto simp: validNftRune_def)

lemma length_truncate: "int (length (truncateNftName name maxLen)) \<le> max 0 maxLen"
  unfolding truncateNftName_def Let_def by (auto split: if_splits)

lemma length_truncate_exact:
  assumes "maxLen < int (length (stringsMap sanitizeNftChar name))" and "9 < maxLen"
  shows "int (length (truncateNftName name maxLen)) = maxLen"
  using assms unfolding truncateNftName_def Let_def by auto

lemma truncate_short:
  "int (length (stringsMap sanitizeNftChar name)) \<le> maxLen \<Longrightarrow> 0 < maxLen \<Longrightarrow>
   truncateNftName name maxLen = stringsMap sanitizeNftChar name"
  by (simp add: truncateNftName_def)

lemma cutZero_snoc [simp]: "cutZero (bs @ [0]) = bs"
  by (simp add: cutZero_def)

lemma udGetString_AppendString:
  assumes "length str \<le> 254"
  shows "udGetString (udAppendString [] typ str) typ = Inr (Some str)"
proof -
  have "unat (of_nat (Suc (length str)) :: byte) = Suc (length str)"
    using assms by (simp add: unat_of_nat del: of_nat_Suc)
  then show ?thesis
    by (simp add: udGetString_def udAppendString_def udAppend_def del: of_nat_Suc)
qed

lemma udGetString_userDataComment [simp]:
  "udGetString (userDataComment comment) TypeComment = Inr (Some (take 254 comment))"
  unfolding userDataComment_def userDataCommentMaxLen_def
  by (rule udGetString_AppendString) simp

lemma length_ifname [simp]: "length (ifname n) = 16"
  by (simp add: ifname_def Let_def)

lemma ifname_short: "length n < 16 \<Longrightarrow> ifname n = bytesOf n @ replicate (16 - length n) 0"
  by (cases "16 - length n") (auto simp: ifname_def Let_def)

lemma zero_notin_bytesOf: "CHR 0x00 \<notin> set n \<Longrightarrow> 0 \<notin> set (bytesOf n)"
proof
  assume "CHR 0x00 \<notin> set n" and "0 \<in> set (bytesOf n)"
  then obtain c where c: "c \<in> set n" "(of_char c :: byte) = 0" "c \<noteq> CHR 0x00"
    unfolding bytesOf_def by (metis (no_types, lifting) image_iff list.set_map)
  from c(2) have "of_char c = (0 :: nat)" by (metis of_char_byte unsigned_0)
  then have "c = char_of (0 :: nat)" by (metis char_of_char)
  also have "\<dots> = CHR 0x00" by (simp add: char_of_def)
  finally show False using c(3) by simp
qed

section \<open>Properties\<close>

text \<open>(C34)
  A truncated name never exceeds the requested length (a non-positive length gives the empty
  name) and contains only characters nftables accepts, whatever the input was.
\<close>

theorem truncateNftName_safe:
  "int (length (truncateNftName name maxLen)) \<le> max 0 maxLen
   \<and> list_all validNftChar (truncateNftName name maxLen)"
  by (simp add: length_truncate list_all_iff validNftChar_truncate)

text \<open>(C35)
  Names built from a base and a suffix stay within the 255 bytes nftables allows and are made of
  valid characters, and whenever the suffix leaves room for a base the sanitised separator and
  suffix survive unshortened at the end of the name.
\<close>

theorem nftNameWithSuffix_safe:
  "int (length (nftNameWithSuffix base sep suffix)) \<le> nftNameMaxLen
   \<and> list_all validNftChar (nftNameWithSuffix base sep suffix)
   \<and> (let tail = stringsMap sanitizeNftChar sep @ stringsMap sanitizeNftChar suffix in
      nftNameMaxLen \<le> int (length tail)
      \<or> (\<exists>b. nftNameWithSuffix base sep suffix = b @ tail
           \<and> b = truncateNftName base (nftNameMaxLen - int (length tail))))"
proof -
  let ?sep = "stringsMap sanitizeNftChar sep" and ?suf = "stringsMap sanitizeNftChar suffix"
  have valid: "list_all validNftChar (nftNameWithSuffix base sep suffix)"
    unfolding nftNameWithSuffix_def Let_def
    by (auto simp: list_all_iff validNftChar_truncate validNftChar_sanitized)
  have len: "int (length (nftNameWithSuffix base sep suffix)) \<le> nftNameMaxLen"
    using length_truncate [of base nftNameMaxLen]
      length_truncate [of "base @ ?sep @ ?suf" nftNameMaxLen]
      length_truncate [of base "nftNameMaxLen - int (length ?sep + length ?suf)"]
    unfolding nftNameWithSuffix_def Let_def nftNameMaxLen_def by (auto split: if_splits)
  have "nftNameWithSuffix base sep suffix = truncateNftName base (nftNameMaxLen - int (length (?sep @ ?suf))) @ ?sep @ ?suf"
    if "int (length (?sep @ ?suf)) < nftNameMaxLen"
    using that unfolding nftNameWithSuffix_def Let_def of_nat_eq_0_iff add_is_0 length_0_conv
    by auto
  then show ?thesis
    using len valid unfolding Let_def by (metis linorder_not_le)
qed

text \<open>(C36)
  A rule comment survives the round trip through the user-data format: reading back the comment
  of \<^verbatim>\<open>userDataComment\<close> gives the comment, cut to its first 254 bytes, and the length byte never
  overflows.
\<close>

theorem userDataComment_roundtrip:
  "udGetString (userDataComment comment) TypeComment = Inr (Some (take 254 comment))
   \<and> length (userDataComment comment) \<le> 257"
  by (simp add: userDataComment_def userDataCommentMaxLen_def udAppendString_def udAppend_def
      flip: udGetString_userDataComment)

text \<open>
  Interface keys identify the interface: every key has exactly the 16 bytes of the kernel's
  interface-name type, and two names the kernel can hold (at most 15 bytes, no zero byte) have the
  same key only when they are equal.
\<close>

lemma ifname_injective:
  assumes "length a < 16" and "length b < 16" and "CHR 0x00 \<notin> set a" and "CHR 0x00 \<notin> set b"
    and "ifname a = ifname b"
  shows "a = b \<and> length (ifname a) = 16"
proof -
  have pad: "takeWhile (\<lambda>x. x \<noteq> 0) (bytesOf n @ replicate k 0) = bytesOf n"
    if "CHR 0x00 \<notin> set n" for n k
    using zero_notin_bytesOf [OF that] by (subst takeWhile_append2) (auto simp: takeWhile_replicate)
  have "takeWhile (\<lambda>x. x \<noteq> 0) (ifname a) = takeWhile (\<lambda>x. x \<noteq> 0) (ifname b)"
    using assms(5) by simp
  then show ?thesis using assms(1-4) by (simp add: ifname_short pad)
qed

lemma ifname_injective_witness: "''net1'' = ''net1'' \<and> length (ifname ''net1'') = 16"
  by (rule ifname_injective) simp_all

end
