(* ===== verification/Netlink.thy ===== *)
theory Netlink
  imports Nft_Names
begin

text \<open>
  The nftables objects of \<^verbatim>\<open>google/nftables\<close> and its buffered connection \<^verbatim>\<open>Conn\<close>: writes queue
  messages, \<^verbatim>\<open>Flush\<close> sends the queue as one transaction, reads ask the kernel and do not see the
  queue.

  The kernel is not part of the program.  It appears as the record \<open>nft_env\<close> that every operation
  takes as an argument: \<open>envFault\<close> says which read requests fail and how, \<open>envCommit\<close> is what the
  kernel does with a transaction, \<open>envLate\<close> an error that is reported although the transaction was
  committed (the answers could not be received), \<open>envGob\<close> is the struct encoding of \<^verbatim>\<open>encoding/gob\<close> (its type
  numbers depend on the history of the process), \<open>envLittle\<close> the byte order of the machine.
  \<open>applyMsgs\<close> is the documented effect of a committed transaction, and \<open>kernelOK\<close> the hypothesis
  that a commit which reports success has had that effect.
\<close>

section \<open>Objects\<close>

record table =
  tName :: string
  tFamily :: nat

definition TableFamilyINet :: nat where "TableFamilyINet = 1"

record chain =
  cName :: string
  cTable :: table
  cHook :: "nat option"
  cPriority :: "int option"
  cType :: string

datatype set_datatype =
  TypeIFName | TypeICMP6Type | TypeIPAddr | TypeIP6Addr | TypeInetService | TypeOtherKey nat

record nft_set =
  sTable :: table
  sID :: "32 word"
  sName :: string
  sAnonymous :: bool
  sConstant :: bool
  sInterval :: bool
  sCounter :: bool
  sKeyType :: set_datatype
  sKeyNative :: bool
  sComment :: string

record set_element =
  eKey :: "byte list"
  eIntervalEnd :: bool
  eComment :: string

datatype meta_key =
  MetaKeyMARK | MetaKeyIIFNAME | MetaKeyOIFNAME | MetaKeyNFPROTO | MetaKeyL4PROTO | MetaKeyOther nat

datatype cmp_op = CmpOpEq | CmpOpNeq | CmpOpOther nat

datatype payload_base =
  PayloadBaseLLHeader | PayloadBaseNetworkHeader | PayloadBaseTransportHeader

datatype verdict_kind =
  VerdictReturn | VerdictGoto | VerdictJump | VerdictBreak | VerdictContinue | VerdictDrop
  | VerdictAccept | VerdictStolen | VerdictQueue | VerdictRepeat | VerdictStop

datatype ct_key = CtKeySTATE | CtKeyOther nat

text \<open>
  Expressions, fields in the order of the Go structs.  \<open>OtherExpr\<close> stands for the expression types
  the program never builds but may read back from a foreign rule.
\<close>

datatype nft_expr =
    Meta meta_key bool "32 word"
  | Lookup "32 word" "32 word" bool "32 word" string bool
  | Verdict verdict_kind string
  | Cmp cmp_op "32 word" "byte list"
  | Payload nat "32 word" "32 word" payload_base "32 word" "32 word" nat "32 word" "32 word"
  | Ct "32 word" bool ct_key "32 word" bool
  | Bitwise "32 word" "32 word" "32 word" "byte list" "byte list"
  | Counter "64 word" "64 word"
  | OtherExpr nat

text \<open>The struct literals of the source leave the remaining fields at their zero value.\<close>

abbreviation metaLoad :: "meta_key \<Rightarrow> nft_expr" where
  "metaLoad k \<equiv> Meta k False 1"
abbreviation metaStore :: "meta_key \<Rightarrow> nft_expr" where
  "metaStore k \<equiv> Meta k True 1"
abbreviation lookupSet :: "string \<Rightarrow> 32 word \<Rightarrow> nft_expr" where
  "lookupSet name i \<equiv> Lookup 1 0 False i name False"
abbreviation payloadLoad :: "payload_base \<Rightarrow> 32 word \<Rightarrow> 32 word \<Rightarrow> nft_expr" where
  "payloadLoad base off len \<equiv> Payload 0 1 0 base off len 0 0 0"
abbreviation zeroCounter :: nft_expr where
  "zeroCounter \<equiv> Counter 0 0"

record rule =
  rTable :: table
  rChain :: string
  rHandle :: nat
  rID :: "32 word"
  rExprs :: "nft_expr list"
  rUserData :: "byte list"

definition newRuleOf :: "table \<Rightarrow> chain \<Rightarrow> string \<Rightarrow> nft_expr list \<Rightarrow> rule" where
  "newRuleOf t c comment es =
     \<lparr>rTable = t, rChain = cName c, rHandle = 0, rID = 0, rExprs = es,
      rUserData = userDataComment comment\<rparr>"

section \<open>What the kernel holds, messages, the environment\<close>

record ruleset =
  ksTables :: "table list"
  ksChains :: "chain list"
  ksSets :: "(nft_set \<times> set_element list) list"
  ksRules :: "rule list"
  ksNext :: nat

datatype rule_op = OperationAdd | OperationInsert | OperationReplace

datatype nl_msg =
    MsgNewTable table
  | MsgDelTable table
  | MsgNewChain chain
  | MsgDelChain chain
  | MsgNewRule rule_op rule
  | MsgDelRule rule
  | MsgNewSet nft_set
  | MsgNewSetElem nft_set "set_element list"
  | MsgDelSetElem nft_set "set_element list"
  | MsgDelSet nft_set

datatype nl_read =
    ReadTables nat
  | ReadTable string nat
  | ReadChains nat
  | ReadChain table string
  | ReadRules table string
  | ReadSets table
  | ReadSet table string
  | ReadElems table string

record ruleData =
  rdTable :: string
  rdChain :: string
  rdFamily :: nat
  rdUserData :: "byte list"
  rdExprs :: "string list"

datatype gobval = GobExpr nft_expr | GobRule ruleData

record nft_env =
  envFault :: "nl_read \<Rightarrow> ruleset \<Rightarrow> go_error option"
  envCommit :: "ruleset \<Rightarrow> nl_msg list \<Rightarrow> ruleset res"
  envLate :: "ruleset \<Rightarrow> nl_msg list \<Rightarrow> go_error option"
  envGob :: "gobval \<Rightarrow> byte list res"
  envLittle :: bool

record conn =
  kernel :: ruleset
  messages :: "nl_msg list"
  connErr :: "go_error option"
  lastID :: "32 word"

definition emptyRuleset :: ruleset where
  "emptyRuleset = \<lparr>ksTables = [], ksChains = [], ksSets = [], ksRules = [], ksNext = 1\<rparr>"

definition newConn :: "ruleset \<Rightarrow> conn" where
  "newConn rs = \<lparr>kernel = rs, messages = [], connErr = None, lastID = 0\<rparr>"

section \<open>Documented effect of a transaction\<close>

definition sameTable :: "table \<Rightarrow> table \<Rightarrow> bool" where
  "sameTable a b = (tName a = tName b \<and> tFamily a = tFamily b)"

definition inChain :: "table \<Rightarrow> string \<Rightarrow> rule \<Rightarrow> bool" where
  "inChain t c r = (sameTable (rTable r) t \<and> rChain r = c)"

definition isChain :: "table \<Rightarrow> string \<Rightarrow> chain \<Rightarrow> bool" where
  "isChain t n c = (sameTable (cTable c) t \<and> cName c = n)"

definition isSet :: "table \<Rightarrow> string \<Rightarrow> nft_set \<times> set_element list \<Rightarrow> bool" where
  "isSet t n se = (sameTable (sTable (fst se)) t \<and> sName (fst se) = n)"

text \<open>
  A stored rule has a handle instead of a transaction ID, and its lookups name their set: a set ID
  identifies a set only inside the transaction that created it.
\<close>

fun wireExpr :: "nft_expr \<Rightarrow> nft_expr" where
  "wireExpr (Lookup s d isd i n iv) = Lookup s d isd 0 n iv"
| "wireExpr e = e"

definition wireRule :: "nat \<Rightarrow> rule \<Rightarrow> rule" where
  "wireRule h r = r\<lparr>rHandle := h, rID := 0, rExprs := map wireExpr (rExprs r)\<rparr>"

definition elemEq :: "set_element \<Rightarrow> set_element \<Rightarrow> bool" where
  "elemEq a b = (eKey a = eKey b \<and> eIntervalEnd a = eIntervalEnd b)"

fun addElems :: "set_element list \<Rightarrow> set_element list \<Rightarrow> set_element list" where
  "addElems es [] = es"
| "addElems es (x # xs) = addElems (if \<exists>e \<in> set es. elemEq e x then es else es @ [x]) xs"

definition delElems :: "set_element list \<Rightarrow> set_element list \<Rightarrow> set_element list" where
  "delElems es xs = filter (\<lambda>e. \<not> (\<exists>x \<in> set xs. elemEq e x)) es"

definition updElems ::
  "nft_set \<Rightarrow> (set_element list \<Rightarrow> set_element list) \<Rightarrow> (nft_set \<times> set_element list) list
   \<Rightarrow> (nft_set \<times> set_element list) list" where
  "updElems s f ss =
     map (\<lambda>se. if isSet (sTable s) (sName s) se then (fst se, f (snd se)) else se) ss"

fun applyMsg :: "ruleset \<Rightarrow> nl_msg \<Rightarrow> ruleset" where
  "applyMsg rs (MsgNewTable t) =
     (if list_ex (sameTable t) (ksTables rs) then rs else rs\<lparr>ksTables := ksTables rs @ [t]\<rparr>)"
| "applyMsg rs (MsgDelTable t) =
     rs\<lparr>ksTables := filter (\<lambda>x. \<not> sameTable x t) (ksTables rs),
        ksChains := filter (\<lambda>c. \<not> sameTable (cTable c) t) (ksChains rs),
        ksSets := filter (\<lambda>s. \<not> sameTable (sTable (fst s)) t) (ksSets rs),
        ksRules := filter (\<lambda>r. \<not> sameTable (rTable r) t) (ksRules rs)\<rparr>"
| "applyMsg rs (MsgNewChain c) =
     (if list_ex (isChain (cTable c) (cName c)) (ksChains rs) then rs
      else rs\<lparr>ksChains := ksChains rs @ [c]\<rparr>)"
| "applyMsg rs (MsgDelChain c) =
     rs\<lparr>ksChains := filter (\<lambda>x. \<not> isChain (cTable c) (cName c) x) (ksChains rs)\<rparr>"
| "applyMsg rs (MsgNewRule OperationAdd r) =
     rs\<lparr>ksRules := ksRules rs @ [wireRule (ksNext rs) r], ksNext := Suc (ksNext rs)\<rparr>"
| "applyMsg rs (MsgNewRule OperationInsert r) =
     rs\<lparr>ksRules := wireRule (ksNext rs) r # ksRules rs, ksNext := Suc (ksNext rs)\<rparr>"
| "applyMsg rs (MsgNewRule OperationReplace r) =
     rs\<lparr>ksRules := map (\<lambda>x. if inChain (rTable r) (rChain r) x \<and> rHandle x = rHandle r
                           then wireRule (rHandle r) r else x) (ksRules rs)\<rparr>"
| "applyMsg rs (MsgDelRule r) =
     rs\<lparr>ksRules := filter (\<lambda>x. \<not> (inChain (rTable r) (rChain r) x \<and> rHandle x = rHandle r))
                         (ksRules rs)\<rparr>"
| "applyMsg rs (MsgNewSet s) =
     (if list_ex (isSet (sTable s) (sName s)) (ksSets rs) then rs
      else rs\<lparr>ksSets := ksSets rs @ [(s\<lparr>sID := 0\<rparr>, [])]\<rparr>)"
| "applyMsg rs (MsgNewSetElem s es) = rs\<lparr>ksSets := updElems s (\<lambda>old. addElems old es) (ksSets rs)\<rparr>"
| "applyMsg rs (MsgDelSetElem s es) = rs\<lparr>ksSets := updElems s (\<lambda>old. delElems old es) (ksSets rs)\<rparr>"
| "applyMsg rs (MsgDelSet s) =
     rs\<lparr>ksSets := filter (\<lambda>x. \<not> isSet (sTable s) (sName s) x) (ksSets rs)\<rparr>"

definition applyMsgs :: "ruleset \<Rightarrow> nl_msg list \<Rightarrow> ruleset" where
  "applyMsgs rs ms = foldl applyMsg rs ms"

definition kernelOK :: "nft_env \<Rightarrow> bool" where
  "kernelOK E \<longleftrightarrow> (\<forall>rs ms rs'. envCommit E rs ms = Inr rs' \<longrightarrow> rs' = applyMsgs rs ms)"

text \<open>A kernel that never fails, with a given struct encoding: the instance the examples run on.\<close>

definition idealEnv :: "(gobval \<Rightarrow> byte list) \<Rightarrow> nft_env" where
  "idealEnv gob =
     \<lparr>envFault = (\<lambda>_ _. None), envCommit = (\<lambda>rs ms. Inr (applyMsgs rs ms)), envLate = (\<lambda>_ _. None),
      envGob = (\<lambda>v. Inr (gob v)), envLittle = True\<rparr>"

lemma idealEnv_simps [simp]:
  "envFault (idealEnv g) = (\<lambda>_ _. None)"
  "envCommit (idealEnv g) = (\<lambda>rs ms. Inr (applyMsgs rs ms))"
  "envLate (idealEnv g) = (\<lambda>_ _. None)"
  "envGob (idealEnv g) = (\<lambda>v. Inr (g v))"
  "envLittle (idealEnv g) = True"
  "kernelOK (idealEnv g)"
  by (simp_all add: idealEnv_def kernelOK_def)

section \<open>Queueing\<close>

definition queueMsg :: "nl_msg \<Rightarrow> (conn, unit) em" where
  "queueMsg m = modifyM (\<lambda>c. c\<lparr>messages := messages c @ [m]\<rparr>)"

definition setErr :: "go_error \<Rightarrow> (conn, unit) em" where
  "setErr e = modifyM (\<lambda>c. if connErr c = None then c\<lparr>connErr := Some e\<rparr> else c)"

definition allocateTransactionID :: "(conn, 32 word) em" where
  "allocateTransactionID =
     (\<lambda>c. let i = lastID c + 1; j = (if i = 0 then 1 else i) in (Inr j, c\<lparr>lastID := j\<rparr>))"

definition connAddTable :: "table \<Rightarrow> (conn, table) em" where
  "connAddTable t = thenM (queueMsg (MsgNewTable t)) (retM t)"

definition connDelTable :: "table \<Rightarrow> (conn, unit) em" where
  "connDelTable t = queueMsg (MsgDelTable t)"

definition connAddChain :: "chain \<Rightarrow> (conn, chain) em" where
  "connAddChain c = thenM (queueMsg (MsgNewChain c)) (retM c)"

definition connDelChain :: "chain \<Rightarrow> (conn, unit) em" where
  "connDelChain c = queueMsg (MsgDelChain c)"

definition connNewRule :: "rule \<Rightarrow> rule_op \<Rightarrow> (conn, rule) em" where
  "connNewRule r op =
     (if rHandle r \<noteq> 0 then thenM (queueMsg (MsgNewRule op r)) (retM r)
      else bindM allocateTransactionID (\<lambda>i.
        thenM (queueMsg (MsgNewRule op (r\<lparr>rID := i\<rparr>))) (retM (r\<lparr>rID := i\<rparr>))))"

definition connAddRule :: "rule \<Rightarrow> (conn, rule) em" where
  "connAddRule r =
     (if rHandle r \<noteq> 0 then connNewRule r OperationReplace else connNewRule r OperationAdd)"

definition connInsertRule :: "rule \<Rightarrow> (conn, rule) em" where
  "connInsertRule r =
     (if rHandle r \<noteq> 0 then connNewRule r OperationReplace else connNewRule r OperationInsert)"

definition connDelRule :: "rule \<Rightarrow> (conn, unit) em" where
  "connDelRule r =
     (if rHandle r \<noteq> 0 \<or> rID r \<noteq> 0 then queueMsg (MsgDelRule r)
      else let e = ErrText ''rule must have a handle or ID'' in thenM (setErr e) (throwM e))"

definition appendElemList ::
  "nft_set \<Rightarrow> set_element list \<Rightarrow> (nft_set \<Rightarrow> set_element list \<Rightarrow> nl_msg) \<Rightarrow> (conn, unit) em" where
  "appendElemList s vals mk = (if vals = [] then retM () else queueMsg (mk s vals))"

text \<open>The set's ID is assigned through the pointer, so the updated set is returned.\<close>

definition connAddSet :: "nft_set \<Rightarrow> set_element list \<Rightarrow> (conn, nft_set) em" where
  "connAddSet s vals =
     (if sAnonymous s \<and> \<not> sConstant s then
        let e = ErrText ''anonymous structs must be constant'' in thenM (setErr e) (throwM e)
      else
        bindM (if sID s = 0 then bindM allocateTransactionID (\<lambda>i.
                 retM (if sAnonymous s then s\<lparr>sID := i, sName := ''__set%d''\<rparr> else s\<lparr>sID := i\<rparr>))
               else retM s) (\<lambda>s'.
          thenM (queueMsg (MsgNewSet s'))
            (thenM (appendElemList s' vals MsgNewSetElem) (retM s'))))"

definition anonErr :: go_error where
  "anonErr = ErrText ''anonymous sets cannot be updated''"

definition connSetAddElements :: "nft_set \<Rightarrow> set_element list \<Rightarrow> (conn, unit) em" where
  "connSetAddElements s vals =
     (if sAnonymous s then thenM (setErr anonErr) (throwM anonErr)
      else appendElemList s vals MsgNewSetElem)"

definition connSetDeleteElements :: "nft_set \<Rightarrow> set_element list \<Rightarrow> (conn, unit) em" where
  "connSetDeleteElements s vals =
     (if sAnonymous s then thenM (setErr anonErr) (throwM anonErr)
      else appendElemList s vals MsgDelSetElem)"

definition connDelSet :: "nft_set \<Rightarrow> (conn, unit) em" where
  "connDelSet s = queueMsg (MsgDelSet s)"

text \<open>
  The queue and the recorded error are dropped whatever happens.  An error of the transaction itself
  leaves the kernel as it was; an error in receiving the answers is reported after the commit.
\<close>

definition connFlush :: "nft_env \<Rightarrow> (conn, unit) em" where
  "connFlush E =
     (\<lambda>c. let c0 = c\<lparr>messages := [], connErr := None\<rparr> in
      if messages c = [] then (Inr (), c0)
      else case connErr c of
             Some e \<Rightarrow> (Inl e, c0)
           | None \<Rightarrow> (case envCommit E (kernel c) (messages c) of
                        Inl e \<Rightarrow> (Inl e, c0)
                      | Inr rs \<Rightarrow> (case envLate E (kernel c) (messages c) of None \<Rightarrow> Inr () | Some e \<Rightarrow> Inl e, c0\<lparr>kernel := rs\<rparr>)))"

section \<open>Reading\<close>

definition readM :: "nft_env \<Rightarrow> nl_read \<Rightarrow> (ruleset \<Rightarrow> 'a res) \<Rightarrow> (conn, 'a) em" where
  "readM E q f =
     (\<lambda>c. (case envFault E q (kernel c) of Some e \<Rightarrow> Inl e | None \<Rightarrow> f (kernel c), c))"

definition ListTablesOfFamily :: "nft_env \<Rightarrow> nat \<Rightarrow> (conn, table list) em" where
  "ListTablesOfFamily E fam =
     readM E (ReadTables fam) (\<lambda>rs. Inr (filter (\<lambda>t. tFamily t = fam) (ksTables rs)))"

definition ListTableOfFamily :: "nft_env \<Rightarrow> string \<Rightarrow> nat \<Rightarrow> (conn, table) em" where
  "ListTableOfFamily E name fam =
     readM E (ReadTable name fam)
       (\<lambda>rs. case find (\<lambda>t. tName t = name \<and> tFamily t = fam) (ksTables rs) of
               Some t \<Rightarrow> Inr t | None \<Rightarrow> Inl ErrNotExist)"

definition ListChainsOfTableFamily :: "nft_env \<Rightarrow> nat \<Rightarrow> (conn, chain list) em" where
  "ListChainsOfTableFamily E fam =
     readM E (ReadChains fam) (\<lambda>rs. Inr (filter (\<lambda>c. tFamily (cTable c) = fam) (ksChains rs)))"

definition ListChain :: "nft_env \<Rightarrow> table \<Rightarrow> string \<Rightarrow> (conn, chain) em" where
  "ListChain E t name =
     readM E (ReadChain t name)
       (\<lambda>rs. case find (isChain t name) (ksChains rs) of
               Some c \<Rightarrow> Inr c | None \<Rightarrow> Inl (ErrWrap ''conn.Execute failed'' ErrNotExist))"

definition GetRules :: "nft_env \<Rightarrow> table \<Rightarrow> string \<Rightarrow> (conn, rule list) em" where
  "GetRules E t c = readM E (ReadRules t c) (\<lambda>rs. Inr (filter (inChain t c) (ksRules rs)))"

definition GetSets :: "nft_env \<Rightarrow> table \<Rightarrow> (conn, nft_set list) em" where
  "GetSets E t =
     readM E (ReadSets t)
       (\<lambda>rs. Inr (map fst (filter (\<lambda>s. sameTable (sTable (fst s)) t) (ksSets rs))))"

definition GetSetByName :: "nft_env \<Rightarrow> table \<Rightarrow> string \<Rightarrow> (conn, nft_set) em" where
  "GetSetByName E t name =
     readM E (ReadSet t name)
       (\<lambda>rs. case find (isSet t name) (ksSets rs) of
               Some s \<Rightarrow> Inr (fst s) | None \<Rightarrow> Inl (ErrWrap ''receive'' ErrNotExist))"

definition GetSetElements :: "nft_env \<Rightarrow> nft_set \<Rightarrow> (conn, set_element list) em" where
  "GetSetElements E s =
     readM E (ReadElems (sTable s) (sName s))
       (\<lambda>rs. case find (isSet (sTable s) (sName s)) (ksSets rs) of
               Some se \<Rightarrow> Inr (snd se) | None \<Rightarrow> Inl (ErrWrap ''receive'' ErrNotExist))"

section \<open>Symbolic execution\<close>

lemma queueMsg_apply: "queueMsg m c = (Inr (), c\<lparr>messages := messages c @ [m]\<rparr>)"
  by (simp add: queueMsg_def em_apply)

lemma readM_apply:
  "readM E q f c = (case envFault E q (kernel c) of Some e \<Rightarrow> Inl e | None \<Rightarrow> f (kernel c), c)"
  by (simp add: readM_def)

lemma setErr_apply: "\<exists>c'. setErr e c = (Inr (), c')"
  by (simp add: setErr_def em_apply)

lemma connDelRule_apply:
  "rHandle r \<noteq> 0 \<Longrightarrow> connDelRule r c = (Inr (), c\<lparr>messages := messages c @ [MsgDelRule r]\<rparr>)"
  by (simp add: connDelRule_def queueMsg_apply)

lemma connSetDeleteElements_apply:
  "vals \<noteq> [] \<Longrightarrow> \<not> sAnonymous s \<Longrightarrow>
   connSetDeleteElements s vals c = (Inr (), c\<lparr>messages := messages c @ [MsgDelSetElem s vals]\<rparr>)"
  by (simp add: connSetDeleteElements_def appendElemList_def queueMsg_apply)

lemma connSetAddElements_apply:
  "vals \<noteq> [] \<Longrightarrow> \<not> sAnonymous s \<Longrightarrow>
   connSetAddElements s vals c = (Inr (), c\<lparr>messages := messages c @ [MsgNewSetElem s vals]\<rparr>)"
  by (simp add: connSetAddElements_def appendElemList_def queueMsg_apply)

lemma conn_anonymous:
  "sAnonymous s \<Longrightarrow> \<exists>e c'. connSetDeleteElements s vals c = (Inl e, c')"
  "sAnonymous s \<Longrightarrow> \<exists>e c'. connSetAddElements s vals c = (Inl e, c')"
  by (auto simp: connSetDeleteElements_def connSetAddElements_def run_simps setErr_def)

lemma connDel_apply:
  "connDelSet s c = (Inr (), c\<lparr>messages := messages c @ [MsgDelSet s]\<rparr>)"
  "connDelChain ch c = (Inr (), c\<lparr>messages := messages c @ [MsgDelChain ch]\<rparr>)"
  "connAddChain ch c = (Inr ch, c\<lparr>messages := messages c @ [MsgNewChain ch]\<rparr>)"
  by (simp_all add: connDelSet_def connDelChain_def connAddChain_def run_simps queueMsg_apply)

lemmas conn_run = connDelRule_apply connSetDeleteElements_apply connSetAddElements_apply
  connDel_apply

section \<open>The quiet frame: nothing reaches the kernel, the queue only grows\<close>

definition quietC :: "conn \<Rightarrow> conn \<Rightarrow> bool" where
  "quietC c c' \<longleftrightarrow> kernel c' = kernel c \<and> (\<exists>ms. messages c' = messages c @ ms)"

interpretation quiet: frame quietC
  by unfold_locales (auto simp: quietC_def)

lemma keeps_queueMsg: "keeps quietC (queueMsg m)"
  by (simp add: queueMsg_def keeps_def quietC_def)

lemma keeps_setErr: "keeps quietC (setErr e)"
  by (simp add: setErr_def keeps_def quietC_def)

lemma keeps_allocateTransactionID: "keeps quietC allocateTransactionID"
  by (simp add: allocateTransactionID_def keeps_def quietC_def Let_def)

lemma keeps_readM: "keeps quietC (readM E q f)"
  by (simp add: readM_def keeps_def quietC_def)

lemmas keeps_prims = keeps_queueMsg keeps_setErr keeps_allocateTransactionID keeps_readM

lemma keeps_conn_writes:
  "keeps quietC (connAddTable t)" "keeps quietC (connDelTable t)"
  "keeps quietC (connAddChain c)" "keeps quietC (connDelChain c)"
  "keeps quietC (connAddRule r)" "keeps quietC (connInsertRule r)" "keeps quietC (connDelRule r)"
  "keeps quietC (connAddSet s vals)" "keeps quietC (connDelSet s)"
  "keeps quietC (connSetAddElements s vals)" "keeps quietC (connSetDeleteElements s vals)"
  unfolding connAddTable_def connDelTable_def connAddChain_def connDelChain_def connAddRule_def
    connInsertRule_def connNewRule_def connDelRule_def connAddSet_def connDelSet_def
    connSetAddElements_def connSetDeleteElements_def appendElemList_def Let_def
  by (auto intro!: frame_intros keeps_prims)

lemma keeps_conn_reads:
  "keeps quietC (ListTablesOfFamily E f)" "keeps quietC (ListTableOfFamily E n f)"
  "keeps quietC (ListChainsOfTableFamily E f)" "keeps quietC (ListChain E t n)"
  "keeps quietC (GetRules E t n)" "keeps quietC (GetSets E t)" "keeps quietC (GetSetByName E t n)"
  "keeps quietC (GetSetElements E s)"
  unfolding ListTablesOfFamily_def ListTableOfFamily_def ListChainsOfTableFamily_def ListChain_def
    GetRules_def GetSets_def GetSetByName_def GetSetElements_def
  by (rule keeps_readM)+

lemmas keeps_conn = keeps_conn_writes keeps_conn_reads

end
