(* ===== verification/Intervals.thy ===== *)
theory Intervals
  imports Netip Netlink
begin

text \<open>
  Interval sets of nftables: \<^verbatim>\<open>convertPrefixToSet\<close>, \<^verbatim>\<open>getPrefixesAsSetInterval\<close> and \<^verbatim>\<open>validatePortSpec\<close> of
  \<^verbatim>\<open>netfilterrules.go\<close>, and what the element lists they build denote.
\<close>

section \<open>What an interval set contains\<close>

text \<open>
  A value is in the set when some start element at or below it is not closed by an end element
  above the start and at or below the value.  An end at zero closes nothing: it stands for the
  value after the largest one.
\<close>

definition covers :: "set_element list \<Rightarrow> nat \<Rightarrow> bool" where
  "covers els v \<longleftrightarrow>
     (\<exists>s \<in> set els. \<not> eIntervalEnd s \<and> beVal (eKey s) \<le> v
        \<and> (\<forall>e \<in> set els. eIntervalEnd e \<longrightarrow> beVal (eKey s) < beVal (eKey e) \<longrightarrow> v < beVal (eKey e)))"

definition startAt :: "byte list \<Rightarrow> set_element" where
  "startAt k = \<lparr>eKey = k, eIntervalEnd = False, eComment = []\<rparr>"

definition endAt :: "byte list \<Rightarrow> set_element" where
  "endAt k = \<lparr>eKey = k, eIntervalEnd = True, eComment = []\<rparr>"

lemma elem_simps [simp]:
  "eKey (startAt k) = k" "eKey (endAt k) = k" "eIntervalEnd (startAt k) = False" "eIntervalEnd (endAt k) = True"
  by (simp_all add: startAt_def endAt_def)

lemma covers_zero_end: "beVal k = 0 \<Longrightarrow> covers (endAt k # els) v \<longleftrightarrow> covers els v"
  by (auto simp: covers_def)

text \<open>
  The contract of a key encoding: it keeps the value.  The half-open intervals built from such keys
  denote closed ranges of words, with wrap-around at the top.
\<close>

locale interval_keys =
  fixes enc :: "'a::len word \<Rightarrow> byte list"
  assumes enc_val: "beVal (enc x) = unat x"
begin

definition rangeElems :: "'a word \<times> 'a word \<Rightarrow> set_element list" where
  "rangeElems r = [startAt (enc (fst r)), endAt (enc (snd r + 1))]"

lemma unat_succ: "x + 1 \<noteq> (0 :: 'a word) \<Longrightarrow> unat (x + 1) = Suc (unat x)"
  by (metis add.commute unatSuc)

lemma covers_sound:
  assumes "covers (concat (map rangeElems rs)) (unat a)" "\<forall>r \<in> set rs. fst r \<le> snd r"
  shows "\<exists>r \<in> set rs. fst r \<le> a \<and> a \<le> snd r"
proof -
  from assms(1) obtain r where r: "r \<in> set rs" "unat (fst r) \<le> unat a"
    and no: "unat (fst r) < unat (snd r + 1) \<Longrightarrow> unat a < unat (snd r + 1)"
    unfolding covers_def by (auto simp: rangeElems_def enc_val)
  have "a \<le> snd r"
  proof (cases "snd r + 1 = 0")
    case True
    then have "snd r = - 1" by (simp add: add_eq_0_iff2)
    then show ?thesis by simp
  next
    case False
    have "unat (fst r) \<le> unat (snd r)" using assms(2) r(1) by (simp add: word_le_nat_alt)
    with no unat_succ [OF False] show ?thesis by (simp add: word_le_nat_alt)
  qed
  with r show ?thesis by (auto simp: word_le_nat_alt)
qed

lemma covers_complete:
  assumes "\<forall>r \<in> set rs. fst r \<le> snd r"
    and "\<forall>r \<in> set rs. \<forall>q \<in> set rs. r = q \<or> snd r < fst q \<or> snd q < fst r"
    and r: "r \<in> set rs" "fst r \<le> a" "a \<le> snd r"
  shows "covers (concat (map rangeElems rs)) (unat a)"
proof -
  have "unat a < unat (snd q + 1)" if q: "q \<in> set rs" "unat (fst r) < unat (snd q + 1)" for q
  proof (rule ccontr)
    assume "\<not> unat a < unat (snd q + 1)"
    then have le: "unat (snd q + 1) \<le> unat a" by simp
    have nz: "snd q + 1 \<noteq> 0" using q(2) by auto
    have "unat (fst r) \<le> unat (snd q)" "unat (snd q) < unat a"
      using q(2) le unat_succ [OF nz] by simp_all
    moreover have "r = q \<or> snd r < fst q \<or> snd q < fst r" using assms(2) r(1) q(1) by blast
    moreover have "fst q \<le> snd q" using assms(1) q(1) by blast
    ultimately show False using r(2,3) by (auto simp: word_le_nat_alt word_less_nat_alt)
  qed
  then show ?thesis
    unfolding covers_def using r
    by (intro bexI [of _ "startAt (enc (fst r))"]) (auto simp: rangeElems_def enc_val word_le_nat_alt)
qed

lemma covers_range: "lo \<le> hi \<Longrightarrow> covers (rangeElems (lo, hi)) (unat a) \<longleftrightarrow> lo \<le> a \<and> a \<le> hi"
  using covers_sound [of "[(lo, hi)]" a] covers_complete [of "[(lo, hi)]" "(lo, hi)" a] by auto

end

interpretation k16: interval_keys bigEndianPutUint16
proof
  fix x :: "16 word"
  show "beVal (bigEndianPutUint16 x) = unat x"
    using unsigned_less [of x, where 'a = nat] by (simp add: bigEndianPutUint16_def beVal_beBytes)
qed

interpretation k32: interval_keys "\<lambda>w :: 32 word. beBytes 4 (unat w)"
proof
  fix x :: "32 word"
  show "beVal (beBytes 4 (unat x)) = unat x"
    using unsigned_less [of x, where 'a = nat] by (simp add: beVal_beBytes)
qed

interpretation k128: interval_keys "\<lambda>w :: 128 word. beBytes 16 (unat w)"
proof
  fix x :: "128 word"
  show "beVal (beBytes 16 (unat x)) = unat x"
    using unsigned_less [of x, where 'a = nat] by (simp add: beVal_beBytes)
qed

section \<open>Prefixes\<close>

definition convertPrefixToSet :: "prefix \<Rightarrow> set_element list" where
  "convertPrefixToSet p =
     (let firstIP = maskedAddr p; lastIP = addrNext (PrefixLastIP p);
          elements = [startAt (asSlice firstIP)] in
      if lastIP = AddrZero then
        (if is4 firstIP then elements @ [endAt (asSlice (Addr4 0))]
         else elements @ [endAt (asSlice (Addr6 0 []))])
      else elements @ [endAt (asSlice lastIP)])"

text \<open>The loop, with the index of the current prefix and the two element lists.\<close>

fun prefixLoop ::
  "nat \<Rightarrow> string list \<Rightarrow> set_element list \<Rightarrow> set_element list \<Rightarrow> (set_element list \<times> set_element list) res" where
  "prefixLoop index [] v4 v6 = Inr (v4, v6)"
| "prefixLoop index (a # as) v4 v6 =
     bindR (wrapR ''failed to parse CIDR'' (ParsePrefix a)) (\<lambda>net.
       if is4 (pfAddr net) then
         prefixLoop (Suc index) as
           (v4 @ (if index = 0 then [endAt (asSlice (Addr4 0))] else []) @ convertPrefixToSet net) v6
       else
         prefixLoop (Suc index) as v4
           (v6 @ (if index = 0 then [endAt (asSlice (Addr6 0 []))] else []) @ convertPrefixToSet net))"

definition getPrefixesAsSetInterval :: "string list \<Rightarrow> (set_element list \<times> set_element list) res" where
  "getPrefixesAsSetInterval prefixes = prefixLoop 0 prefixes [] []"

section \<open>Ports\<close>

datatype intOrString = IntVal "32 word" | StrVal string

record policy_port =
  ppProtocol :: "string option"
  ppPort :: "intOrString option"
  ppEndPort :: "32 word option"

definition maxUint16 :: int where
  "maxUint16 = 65535"

definition errNamedPort :: go_error where
  "errNamedPort = ErrText ''named port is not supported; numeric ports are required''"

definition errPortRange :: go_error where
  "errPortRange = ErrText ''port out of range''"

definition numericPort :: "intOrString \<Rightarrow> int res" where
  "numericPort p =
     (case p of
        IntVal v \<Rightarrow> Inr (sint v)
      | StrVal s \<Rightarrow>
          (case atoi s of
             None \<Rightarrow> Inl errNamedPort
           | Some n \<Rightarrow> if n < 1 \<or> maxUint16 < n then Inl errNamedPort
                       else Inr (sint (word_of_int n :: 32 word))))"

definition validatePortSpec :: "policy_port \<Rightarrow> set_element list res" where
  "validatePortSpec port =
     (case ppPort port of
        None \<Rightarrow> Inr []
      | Some p \<Rightarrow>
          bindR (numericPort p) (\<lambda>portNum.
            if portNum < 1 \<or> maxUint16 < portNum then Inl errPortRange
            else
              let portVal = word_of_int portNum :: 16 word;
                  elements = [startAt (bigEndianPutUint16 portVal)] in
              case ppEndPort port of
                Some e \<Rightarrow>
                  (if sint (word_of_int portNum :: 32 word) < sint e then
                     (if sint e < 1 \<or> maxUint16 < sint e then Inl errPortRange
                      else Inr (elements @ [endAt (bigEndianPutUint16 (ucast e + 1))]))
                   else Inr (elements @ [endAt (bigEndianPutUint16 (portVal + 1))]))
              | None \<Rightarrow> Inr (elements @ [endAt (bigEndianPutUint16 (portVal + 1))])))"

section \<open>Prefixes denote themselves\<close>

text \<open>\<^verbatim>\<open>netip.Prefix.Contains\<close>\<close>

definition prefixContains :: "prefix \<Rightarrow> addr \<Rightarrow> bool" where
  "prefixContains p a =
     (case (pfAddr p, a) of
        (Addr4 w, Addr4 x) \<Rightarrow> drop_bit (32 - pfBits p) x = drop_bit (32 - pfBits p) w
      | (Addr6 w _, Addr6 x z) \<Rightarrow> z = [] \<and> drop_bit (128 - pfBits p) x = drop_bit (128 - pfBits p) w
      | _ \<Rightarrow> False)"

definition range4 :: "prefix \<Rightarrow> 32 word \<times> 32 word" where
  "range4 p = (case pfAddr p of Addr4 w \<Rightarrow> (w AND NOT (mask (32 - pfBits p)), w OR mask (32 - pfBits p)) | _ \<Rightarrow> (0, 0))"

definition range6 :: "prefix \<Rightarrow> 128 word \<times> 128 word" where
  "range6 p = (case pfAddr p of Addr6 w z \<Rightarrow> (w AND NOT (mask (128 - pfBits p)), w OR mask (128 - pfBits p)) | _ \<Rightarrow> (0, 0))"

lemma contains_range4:
  "validPrefix p \<Longrightarrow> is4 (pfAddr p) \<Longrightarrow> prefixContains p (Addr4 x) \<longleftrightarrow> fst (range4 p) \<le> x \<and> x \<le> snd (range4 p)"
  by (auto simp: prefixContains_def range4_def is4_def prefix_range split: addr.splits)

lemma contains_range6:
  "validPrefix p \<Longrightarrow> is6 (pfAddr p) \<Longrightarrow> prefixContains p (Addr6 x []) \<longleftrightarrow> fst (range6 p) \<le> x \<and> x \<le> snd (range6 p)"
  by (auto simp: prefixContains_def range6_def is6_def prefix_range split: addr.splits)

lemma mask_bounds: "w AND NOT (mask k) \<le> w OR mask k" if "k \<le> LENGTH('a)" for w :: "'a::len word"
  using prefix_range [OF that, of w w] by (meson order_trans)

lemma range_nonempty: "fst (range4 p) \<le> snd (range4 p)" "fst (range6 p) \<le> snd (range6 p)"
  by (auto simp: range4_def range6_def mask_bounds split: addr.splits)

lemma convert4: "validPrefix p \<Longrightarrow> is4 (pfAddr p) \<Longrightarrow> convertPrefixToSet p = k32.rangeElems (range4 p)"
  by (auto simp: convertPrefixToSet_def Let_def maskedAddr_def PrefixLastIP_def range4_def is4_def
      k32.rangeElems_def setBitsFrom_mask validPrefix_def addrBitLen_def split: addr.splits)

lemma convert6: "validPrefix p \<Longrightarrow> is6 (pfAddr p) \<Longrightarrow> convertPrefixToSet p = k128.rangeElems (range6 p)"
  by (auto simp: convertPrefixToSet_def Let_def maskedAddr_def PrefixLastIP_def range6_def is4_def is6_def
      k128.rangeElems_def setBitsFrom_mask validPrefix_def addrBitLen_def split: addr.splits)

definition addrVal :: "addr \<Rightarrow> nat" where
  "addrVal a = (case a of AddrZero \<Rightarrow> 0 | Addr4 w \<Rightarrow> unat w | Addr6 w z \<Rightarrow> unat w)"

text \<open>(C19)
  The two set elements built for a prefix denote the prefix: an address of the same family is
  covered by them exactly when the prefix contains it, also for prefixes that end at the last
  address of the family, where the interval end wraps around to the all-zero address.
\<close>

theorem convertPrefixToSet_denotes:
  assumes "validPrefix p" "is4 a \<longleftrightarrow> is4 (pfAddr p)" "a \<noteq> AddrZero" "zoneOf a = []"
  shows "covers (convertPrefixToSet p) (addrVal a) \<longleftrightarrow> prefixContains p a"
proof (cases a)
  case (Addr4 x)
  then have "is4 (pfAddr p)" using assms(2) by (simp add: is4_def)
  then show ?thesis
    using k32.covers_range [OF range_nonempty(1) [of p], of x] Addr4
    by (simp add: convert4 contains_range4 assms(1) addrVal_def)
next
  case (Addr6 x z)
  then have "is6 (pfAddr p)" "z = []"
    using assms by (auto simp: is4_def is6_def validPrefix_def zoneOf_def split: addr.splits)
  then show ?thesis
    using k128.covers_range [OF range_nonempty(2) [of p], of x] Addr6
    by (simp add: convert6 contains_range6 assms(1) addrVal_def)
qed (use assms in simp)

theorem convertPrefixToSet_denotes_witness:
  "covers (convertPrefixToSet \<lparr>pfAddr = Addr4 0xC0A80A05, pfBits = 24\<rparr>) (addrVal (Addr4 0xC0A80AFF))
   \<and> \<not> covers (convertPrefixToSet \<lparr>pfAddr = Addr4 0xC0A80A05, pfBits = 24\<rparr>) (addrVal (Addr4 0xC0A80B00))"
  by (subst convertPrefixToSet_denotes convertPrefixToSet_denotes [of _ "Addr4 0xC0A80B00"];
      simp add: validPrefix_def is4_def zoneOf_def addrBitLen_def prefixContains_def)+

section \<open>Lists of prefixes\<close>

lemma prefixLoop_rest:
  assumes "prefixLoop (Suc i) ss v4 v6 = Inr (w4, w6)"
  shows "\<exists>ps. list_all2 (\<lambda>s p. ParsePrefix s = Inr p) ss ps
    \<and> w4 = v4 @ concat (map convertPrefixToSet (filter (\<lambda>p. is4 (pfAddr p)) ps))
    \<and> w6 = v6 @ concat (map convertPrefixToSet (filter (\<lambda>p. \<not> is4 (pfAddr p)) ps))"
  using assms
proof (induction ss arbitrary: i v4 v6)
  case (Cons s ss)
  from Cons.prems obtain p where p: "ParsePrefix s = Inr p"
    by (cases "ParsePrefix s") auto
  from Cons.prems p obtain ps where "list_all2 (\<lambda>s p. ParsePrefix s = Inr p) ss ps"
    "w4 = (v4 @ (if is4 (pfAddr p) then convertPrefixToSet p else []))
       @ concat (map convertPrefixToSet (filter (\<lambda>p. is4 (pfAddr p)) ps))"
    "w6 = (v6 @ (if is4 (pfAddr p) then [] else convertPrefixToSet p))
       @ concat (map convertPrefixToSet (filter (\<lambda>p. \<not> is4 (pfAddr p)) ps))"
    using Cons.IH [of "Suc i"] by (cases "is4 (pfAddr p)") fastforce+
  then show ?case using p by (intro exI [of _ "p # ps"]) auto
qed simp

lemma getPrefixes_shape:
  assumes "getPrefixesAsSetInterval ss = Inr (w4, w6)"
  shows "\<exists>ps. list_all2 (\<lambda>s p. ParsePrefix s = Inr p) ss ps
    \<and> covers w4 = covers (concat (map convertPrefixToSet (filter (\<lambda>p. is4 (pfAddr p)) ps)))
    \<and> covers w6 = covers (concat (map convertPrefixToSet (filter (\<lambda>p. \<not> is4 (pfAddr p)) ps)))"
proof (cases ss)
  case Nil
  then show ?thesis using assms by (simp add: getPrefixesAsSetInterval_def)
next
  case (Cons s ss')
  from assms Cons obtain p where p: "ParsePrefix s = Inr p"
    by (cases "ParsePrefix s") (auto simp: getPrefixesAsSetInterval_def)
  have z: "beVal (asSlice (Addr4 0)) = 0" "beVal (asSlice (Addr6 0 [])) = 0"
    by (simp_all add: beVal_beBytes)
  from assms Cons p obtain ps where "list_all2 (\<lambda>s p. ParsePrefix s = Inr p) ss' ps"
    "w4 = (if is4 (pfAddr p) then endAt (asSlice (Addr4 0)) # convertPrefixToSet p else [])
       @ concat (map convertPrefixToSet (filter (\<lambda>p. is4 (pfAddr p)) ps))"
    "w6 = (if is4 (pfAddr p) then [] else endAt (asSlice (Addr6 0 [])) # convertPrefixToSet p)
       @ concat (map convertPrefixToSet (filter (\<lambda>p. \<not> is4 (pfAddr p)) ps))"
    using prefixLoop_rest [of 0 ss'] unfolding getPrefixesAsSetInterval_def
    by (cases "is4 (pfAddr p)") fastforce+
  then show ?thesis
    using p Cons covers_zero_end [OF z(1)] covers_zero_end [OF z(2)]
    by (intro exI [of _ "p # ps"]) (auto simp: fun_eq_iff simp del: asSlice.simps)
qed

text \<open>Two prefixes overlap exactly when one contains the other's base address.\<close>

definition overlapping :: "prefix \<Rightarrow> prefix \<Rightarrow> bool" where
  "overlapping p q \<longleftrightarrow> prefixContains p (pfAddr q) \<or> prefixContains q (pfAddr p)"

definition samePrefix :: "prefix \<Rightarrow> prefix \<Rightarrow> bool" where
  "samePrefix p q \<longleftrightarrow> pfBits p = pfBits q \<and> prefixContains p (pfAddr q)"

lemma drop_bit_mono:
  fixes v x :: "'a::len word"
  assumes "drop_bit l v = drop_bit l x" "l \<le> k" shows "drop_bit k v = drop_bit k x"
proof -
  have "drop_bit k y = drop_bit (k - l) (drop_bit l y)" for y :: "'a word"
    using assms(2) by simp
  then show ?thesis by (metis assms(1))
qed

lemma masks_separated:
  fixes w v :: "'a::len word"
  assumes "k \<le> LENGTH('a)" "l \<le> LENGTH('a)" and "\<not> (drop_bit k v = drop_bit k w \<or> drop_bit l v = drop_bit l w)"
  shows "w OR mask k < v AND NOT (mask l) \<or> v OR mask l < w AND NOT (mask k)"
proof (rule ccontr)
  assume "\<not> ?thesis"
  then have "w AND NOT (mask k) \<le> x \<and> x \<le> w OR mask k" "v AND NOT (mask l) \<le> x \<and> x \<le> v OR mask l"
    if "x = max (w AND NOT (mask k)) (v AND NOT (mask l))" for x
    using mask_bounds [OF assms(1), of w] mask_bounds [OF assms(2), of v] that by auto
  then obtain x where "drop_bit k x = drop_bit k w" "drop_bit l x = drop_bit l v"
    unfolding prefix_range [OF assms(1)] prefix_range [OF assms(2)] by blast
  then show False using assms(3) drop_bit_mono [of l x v k] drop_bit_mono [of k x w l] by (metis nat_le_linear)
qed

lemma same_masks:
  fixes w v :: "'a::len word"
  assumes "drop_bit k v = drop_bit k w"
  shows "w AND NOT (mask k) = v AND NOT (mask k) \<and> w OR mask k = v OR mask k"
proof -
  have "bit w i = bit v i" if "k \<le> i" for i
    using arg_cong [OF assms, of "\<lambda>z. bit z (i - k)"] that by (simp add: bit_drop_bit_eq)
  then have eq: "k \<le> i \<longrightarrow> bit w i = bit v i" for i by blast
  have "bit (w AND NOT (mask k)) i = bit (v AND NOT (mask k)) i" for i
    using eq [of i] by (cases "i < k") (simp_all add: bit_and_iff bit_not_iff bit_mask_iff)
  moreover have "bit (w OR mask k) i = bit (v OR mask k) i" for i
    using eq [of i] bit_imp_le_length [of w i] bit_imp_le_length [of v i]
    by (cases "i < k") (auto simp: bit_or_iff bit_mask_iff)
  ultimately show ?thesis by (simp add: bit_eq_iff)
qed

lemma separated4:
  assumes "validPrefix p" "validPrefix q" "is4 (pfAddr p)" "is4 (pfAddr q)" "overlapping p q \<longrightarrow> samePrefix p q"
  shows "range4 p = range4 q \<or> snd (range4 p) < fst (range4 q) \<or> snd (range4 q) < fst (range4 p)"
proof -
  obtain w v where w: "pfAddr p = Addr4 w" "pfAddr q = Addr4 v"
    using assms(3,4) by (auto simp: is4_def split: addr.splits)
  show ?thesis
  proof (cases "overlapping p q")
    case True
    then have "pfBits p = pfBits q" "drop_bit (32 - pfBits p) v = drop_bit (32 - pfBits p) w"
      using assms(5) by (auto simp: samePrefix_def prefixContains_def w)
    then show ?thesis using same_masks [of "32 - pfBits p" v w] by (simp add: range4_def w)
  next
    case False
    then have "drop_bit (32 - pfBits p) v \<noteq> drop_bit (32 - pfBits p) w"
      "drop_bit (32 - pfBits q) v \<noteq> drop_bit (32 - pfBits q) w"
      by (auto simp: overlapping_def prefixContains_def w)
    then show ?thesis
      using masks_separated [of "32 - pfBits p" "32 - pfBits q" v w] by (simp add: range4_def w)
  qed
qed

lemma separated6:
  assumes "validPrefix p" "validPrefix q" "\<not> is4 (pfAddr p)" "\<not> is4 (pfAddr q)" "overlapping p q \<longrightarrow> samePrefix p q"
  shows "range6 p = range6 q \<or> snd (range6 p) < fst (range6 q) \<or> snd (range6 q) < fst (range6 p)"
proof -
  obtain w v where w: "pfAddr p = Addr6 w []" "pfAddr q = Addr6 v []"
    using assms(1-4) by (auto simp: is4_def validPrefix_def zoneOf_def split: addr.splits)
  show ?thesis
  proof (cases "overlapping p q")
    case True
    then have "pfBits p = pfBits q" "drop_bit (128 - pfBits p) v = drop_bit (128 - pfBits p) w"
      using assms(5) by (auto simp: samePrefix_def prefixContains_def w)
    then show ?thesis using same_masks [of "128 - pfBits p" v w] by (simp add: range6_def w)
  next
    case False
    then have "drop_bit (128 - pfBits p) v \<noteq> drop_bit (128 - pfBits p) w"
      "drop_bit (128 - pfBits q) v \<noteq> drop_bit (128 - pfBits q) w"
      by (auto simp: overlapping_def prefixContains_def w)
    then show ?thesis
      using masks_separated [of "128 - pfBits p" "128 - pfBits q" v w] by (simp add: range6_def w)
  qed
qed

definition listedBy :: "string list \<Rightarrow> addr \<Rightarrow> bool" where
  "listedBy ss a \<longleftrightarrow> (\<exists>s \<in> set ss. case ParsePrefix s of Inl _ \<Rightarrow> False | Inr p \<Rightarrow> prefixContains p a)"

definition separatedPrefixes :: "string list \<Rightarrow> bool" where
  "separatedPrefixes ss \<longleftrightarrow> (\<forall>s \<in> set ss. \<forall>t \<in> set ss.
     case (ParsePrefix s, ParsePrefix t) of
       (Inr p, Inr q) \<Rightarrow> overlapping p q \<longrightarrow> samePrefix p q
     | _ \<Rightarrow> True)"

lemma list_all2_mem2: "list_all2 P xs ys \<Longrightarrow> y \<in> set ys \<Longrightarrow> \<exists>x \<in> set xs. P x y"
  by (metis in_set_conv_nth list_all2_conv_all_nth)

lemma list_all2_mem1: "list_all2 P xs ys \<Longrightarrow> x \<in> set xs \<Longrightarrow> \<exists>y \<in> set ys. P x y"
  by (metis in_set_conv_nth list_all2_conv_all_nth)

lemma listedBy_parsed:
  assumes "list_all2 (\<lambda>s p. ParsePrefix s = Inr p) ss ps"
  shows "listedBy ss a \<longleftrightarrow> (\<exists>p \<in> set ps. prefixContains p a)"
proof
  assume "listedBy ss a"
  then obtain s where "s \<in> set ss" and "case ParsePrefix s of Inl _ \<Rightarrow> False | Inr p \<Rightarrow> prefixContains p a"
    unfolding listedBy_def by blast
  then show "\<exists>p \<in> set ps. prefixContains p a" using list_all2_mem1 [OF assms] by fastforce
next
  assume "\<exists>p \<in> set ps. prefixContains p a"
  then obtain p where p: "p \<in> set ps" "prefixContains p a" by blast
  with list_all2_mem2 [OF assms] obtain s where "s \<in> set ss" "ParsePrefix s = Inr p" by blast
  with p show "listedBy ss a" unfolding listedBy_def by (intro bexI [of _ s]) simp_all
qed

lemma separated_parsed:
  assumes "list_all2 (\<lambda>s p. ParsePrefix s = Inr p) ss ps" "separatedPrefixes ss" "p \<in> set ps" "q \<in> set ps"
  shows "overlapping p q \<longrightarrow> samePrefix p q"
proof -
  obtain s t where "s \<in> set ss" "t \<in> set ss" "ParsePrefix s = Inr p" "ParsePrefix t = Inr q"
    using list_all2_mem2 [OF assms(1)] assms(3,4) by meson
  then show ?thesis using assms(2) unfolding separatedPrefixes_def by fastforce
qed

lemma concat_ranges4:
  assumes "\<forall>p \<in> set ps. validPrefix p"
  shows "concat (map convertPrefixToSet (filter (\<lambda>p. is4 (pfAddr p)) ps))
     = concat (map k32.rangeElems (map range4 (filter (\<lambda>p. is4 (pfAddr p)) ps)))"
  using assms by (induction ps) (auto simp: convert4)

lemma concat_ranges6:
  assumes "\<forall>p \<in> set ps. validPrefix p"
  shows "concat (map convertPrefixToSet (filter (\<lambda>p. \<not> is4 (pfAddr p)) ps))
     = concat (map k128.rangeElems (map range6 (filter (\<lambda>p. \<not> is4 (pfAddr p)) ps)))"
  using assms by (induction ps) (auto simp: convert6 is4_def is6_def validPrefix_def split: addr.splits)

lemma contains_family:
  "validPrefix p \<Longrightarrow> prefixContains p (Addr4 x) \<Longrightarrow> is4 (pfAddr p)"
  "validPrefix p \<Longrightarrow> prefixContains p (Addr6 y []) \<Longrightarrow> \<not> is4 (pfAddr p)"
  by (auto simp: prefixContains_def is4_def split: addr.splits)

lemma not4_is6: "validPrefix p \<Longrightarrow> \<not> is4 (pfAddr p) \<Longrightarrow> is6 (pfAddr p)"
  by (auto simp: validPrefix_def is4_def is6_def split: addr.splits)

lemma getPrefixes_listed:
  assumes "getPrefixesAsSetInterval ss = Inr (v4, v6)"
  shows "(covers v4 (unat x) \<longrightarrow> listedBy ss (Addr4 x))
    \<and> (covers v6 (unat y) \<longrightarrow> listedBy ss (Addr6 y []))
    \<and> (separatedPrefixes ss \<longrightarrow> listedBy ss (Addr4 x) \<longrightarrow> covers v4 (unat x))
    \<and> (separatedPrefixes ss \<longrightarrow> listedBy ss (Addr6 y []) \<longrightarrow> covers v6 (unat y))"
proof -
  obtain ps where ps: "list_all2 (\<lambda>s p. ParsePrefix s = Inr p) ss ps"
    and c4: "covers v4 = covers (concat (map convertPrefixToSet (filter (\<lambda>p. is4 (pfAddr p)) ps)))"
    and c6: "covers v6 = covers (concat (map convertPrefixToSet (filter (\<lambda>p. \<not> is4 (pfAddr p)) ps)))"
    using getPrefixes_shape [OF assms] by blast
  let ?r4 = "map range4 (filter (\<lambda>p. is4 (pfAddr p)) ps)" and ?r6 = "map range6 (filter (\<lambda>p. \<not> is4 (pfAddr p)) ps)"
  have valid: "\<forall>p \<in> set ps. validPrefix p" using list_all2_mem2 [OF ps] ParsePrefix_valid by blast
  note ranges = c4 [unfolded concat_ranges4 [OF valid]] c6 [unfolded concat_ranges6 [OF valid]]
  have in4: "(\<exists>r \<in> set ?r4. fst r \<le> x \<and> x \<le> snd r) \<longleftrightarrow> listedBy ss (Addr4 x)"
  proof -
    have "is4 (pfAddr p) \<and> fst (range4 p) \<le> x \<and> x \<le> snd (range4 p) \<longleftrightarrow> prefixContains p (Addr4 x)"
      if "p \<in> set ps" for p
      using valid that contains_range4 [of p x] contains_family(1) [of p x] by blast
    then show ?thesis unfolding listedBy_parsed [OF ps] by auto
  qed
  have in6: "(\<exists>r \<in> set ?r6. fst r \<le> y \<and> y \<le> snd r) \<longleftrightarrow> listedBy ss (Addr6 y [])"
  proof -
    have "\<not> is4 (pfAddr p) \<and> fst (range6 p) \<le> y \<and> y \<le> snd (range6 p) \<longleftrightarrow> prefixContains p (Addr6 y [])"
      if "p \<in> set ps" for p
      using valid that contains_range6 [of p y] not4_is6 [of p] contains_family(2) [of p y] by blast
    then show ?thesis unfolding listedBy_parsed [OF ps] by auto
  qed
  have ne: "\<forall>r \<in> set ?r4. fst r \<le> snd r" "\<forall>r \<in> set ?r6. fst r \<le> snd r" by (auto simp: range_nonempty)
  have sep4: "\<forall>r \<in> set ?r4. \<forall>q \<in> set ?r4. r = q \<or> snd r < fst q \<or> snd q < fst r" if "separatedPrefixes ss"
    using separated4 valid separated_parsed [OF ps that] by auto
  have sep6: "\<forall>r \<in> set ?r6. \<forall>q \<in> set ?r6. r = q \<or> snd r < fst q \<or> snd q < fst r" if "separatedPrefixes ss"
    using separated6 valid separated_parsed [OF ps that] by auto
  show ?thesis
    unfolding ranges in4 [symmetric] in6 [symmetric]
    using k32.covers_sound [OF _ ne(1)] k128.covers_sound [OF _ ne(2)]
      k32.covers_complete [OF ne(1) sep4] k128.covers_complete [OF ne(2) sep6] by blast
qed

text \<open>(C18)
  The interval elements built from a list of prefixes never cover an address that no listed prefix
  contains, and when no prefix of the list lies inside another one they cover every listed address.
\<close>

theorem getPrefixes_denotes:
  assumes "getPrefixesAsSetInterval ss = Inr (v4, v6)"
  shows "(covers v4 (unat x) \<longrightarrow> listedBy ss (Addr4 x))
    \<and> (covers v6 (unat y) \<longrightarrow> listedBy ss (Addr6 y []))
    \<and> (separatedPrefixes ss \<longrightarrow> listedBy ss (Addr4 x) \<longrightarrow> covers v4 (unat x))
    \<and> (separatedPrefixes ss \<longrightarrow> listedBy ss (Addr6 y []) \<longrightarrow> covers v6 (unat y))"
  using assms by (rule getPrefixes_listed)

lemmas parse_run = ParsePrefix_def ParseAddr_def parseIPv4_def parseIPv4Fields_def parseOctet_def parseBits_def
  isDigit_def inBytes_def decVal_def beVal_def is6_def addrBitLen_def

theorem getPrefixes_denotes_witness:
  "\<exists>v4 v6. getPrefixesAsSetInterval [''10.0.0.0/8'', ''192.168.1.0/24''] = Inr (v4, v6)
    \<and> covers v4 (unat (0x0A010203 :: 32 word)) \<and> \<not> covers v4 (unat (0x0B000000 :: 32 word))"
proof -
  let ?ss = "[''10.0.0.0/8'', ''192.168.1.0/24'']"
  have p: "ParsePrefix ''10.0.0.0/8'' = Inr \<lparr>pfAddr = Addr4 0x0A000000, pfBits = 8\<rparr>"
    "ParsePrefix ''192.168.1.0/24'' = Inr \<lparr>pfAddr = Addr4 0xC0A80100, pfBits = 24\<rparr>"
    by (simp_all add: parse_run)
  obtain v4 v6 where run: "getPrefixesAsSetInterval ?ss = Inr (v4, v6)"
    by (simp add: getPrefixesAsSetInterval_def p is4_def)
  have "separatedPrefixes ?ss"
    by (simp add: separatedPrefixes_def p overlapping_def samePrefix_def prefixContains_def)
  moreover have "listedBy ?ss (Addr4 0x0A010203)" "\<not> listedBy ?ss (Addr4 0x0B000000)"
    by (simp_all add: listedBy_def p prefixContains_def)
  ultimately show ?thesis
    using run getPrefixes_denotes [OF run, of "0x0A010203"] getPrefixes_denotes [OF run, of "0x0B000000"]
    by blast
qed

section \<open>Ports\<close>

text \<open>The range a port specification means: from the port to the end port, if that is larger.\<close>

definition portRange :: "policy_port \<Rightarrow> (int \<times> int) option" where
  "portRange port =
     (case ppPort port of
        None \<Rightarrow> None
      | Some p \<Rightarrow>
          (case numericPort p of
             Inl _ \<Rightarrow> None
           | Inr n \<Rightarrow> Some (n, max n (case ppEndPort port of None \<Rightarrow> n | Some e \<Rightarrow> sint e))))"

definition portInRange :: "int \<Rightarrow> bool" where
  "portInRange n \<longleftrightarrow> 1 \<le> n \<and> n \<le> maxUint16"

lemma uint16_of_int: "portInRange n \<Longrightarrow> uint (word_of_int n :: 16 word) = n"
  by (simp add: portInRange_def maxUint16_def uint_word_of_int)

lemma sint32_of_int: "portInRange n \<Longrightarrow> sint (word_of_int n :: 32 word) = n"
  by (simp add: portInRange_def maxUint16_def signed_of_int signed_take_bit_int_eq_self)

lemma uint16_ucast: "portInRange (sint e) \<Longrightarrow> uint (ucast (e :: 32 word) :: 16 word) = sint e"
proof -
  assume r: "portInRange (sint e)"
  have "ucast e = (word_of_int (sint e) :: 16 word)"
    by (rule bit_eqI) (auto simp: bit_simps)
  then show ?thesis using uint16_of_int [OF r] by simp
qed

lemma covers_ports:
  fixes hi v :: "16 word"
  assumes "portInRange lo" "lo \<le> uint hi"
  shows "covers [startAt (bigEndianPutUint16 (word_of_int lo)), endAt (bigEndianPutUint16 (hi + 1))] (unat v)
    \<longleftrightarrow> lo \<le> uint v \<and> uint v \<le> uint hi"
proof -
  have "(word_of_int lo :: 16 word) \<le> hi" using assms uint16_of_int [OF assms(1)] by (simp add: word_le_def)
  from k16.covers_range [OF this, of v] show ?thesis
    using uint16_of_int [OF assms(1)] by (simp add: k16.rangeElems_def word_le_def)
qed

lemma validatePortSpec_cases:
  "validatePortSpec port =
     (case ppPort port of
        None \<Rightarrow> Inr []
      | Some p \<Rightarrow>
          (case numericPort p of
             Inl e \<Rightarrow> Inl e
           | Inr n \<Rightarrow>
               (if \<not> portInRange n then Inl errPortRange
                else
                  let els = (\<lambda>h. [startAt (bigEndianPutUint16 (word_of_int n)), endAt (bigEndianPutUint16 (h + 1))]) in
                  case ppEndPort port of
                    Some e \<Rightarrow> (if n < sint e then (if portInRange (sint e) then Inr (els (ucast e)) else Inl errPortRange)
                               else Inr (els (word_of_int n)))
                  | None \<Rightarrow> Inr (els (word_of_int n)))))"
  unfolding validatePortSpec_def
  by (auto simp: Let_def portInRange_def sint32_of_int not_le not_less split: option.splits sum.splits)

text \<open>(C20)
  A port specification that is accepted denotes exactly its range: the set elements cover precisely
  the ports from the given port to the end port (to the port itself when there is no larger end
  port), including the ranges that end at 65535, where the interval end wraps around to 0.
\<close>

theorem validatePortSpec_denotes:
  assumes "validatePortSpec port = Inr els" "ppPort port \<noteq> None"
  shows "\<exists>lo hi. portRange port = Some (lo, hi) \<and> portInRange lo \<and> portInRange hi \<and> lo \<le> hi
    \<and> (\<forall>v :: 16 word. covers els (unat v) \<longleftrightarrow> lo \<le> uint v \<and> uint v \<le> hi)"
proof -
  obtain p n where p: "ppPort port = Some p" "numericPort p = Inr n" "portInRange n"
    using assms unfolding validatePortSpec_cases by (auto split: option.splits sum.splits if_splits)
  show ?thesis
  proof (cases "case ppEndPort port of None \<Rightarrow> False | Some e \<Rightarrow> n < sint e")
    case True
    then obtain e where e: "ppEndPort port = Some e" "n < sint e" by (auto split: option.splits)
    with assms(1) p have r: "portInRange (sint e)"
      and els: "els = [startAt (bigEndianPutUint16 (word_of_int n)), endAt (bigEndianPutUint16 (ucast e + 1))]"
      unfolding validatePortSpec_cases by (auto simp: Let_def split: if_splits)
    have "covers els (unat v) \<longleftrightarrow> n \<le> uint v \<and> uint v \<le> sint e" for v :: "16 word"
      using covers_ports [OF p(3), of "ucast e" v] e(2) uint16_ucast [OF r] els by simp
    then show ?thesis using p e r by (simp add: portRange_def max_def)
  next
    case False
    with assms(1) p have
      els: "els = [startAt (bigEndianPutUint16 (word_of_int n)), endAt (bigEndianPutUint16 (word_of_int n + 1))]"
      unfolding validatePortSpec_cases by (auto simp: Let_def split: option.splits if_splits)
    have "covers els (unat v) \<longleftrightarrow> n \<le> uint v \<and> uint v \<le> n" for v :: "16 word"
      using covers_ports [OF p(3), of "word_of_int n" v] uint16_of_int [OF p(3)] els by simp
    then show ?thesis using p False by (auto simp: portRange_def max_def split: option.splits)
  qed
qed

theorem validatePortSpec_denotes_witness:
  "\<exists>els. validatePortSpec \<lparr>ppProtocol = None, ppPort = Some (IntVal 8080), ppEndPort = Some 65535\<rparr> = Inr els
    \<and> covers els (unat (65535 :: 16 word)) \<and> \<not> covers els (unat (8079 :: 16 word))"
proof -
  let ?p = "\<lparr>ppProtocol = None, ppPort = Some (IntVal 8080), ppEndPort = Some 65535\<rparr> :: policy_port"
  obtain els where run: "validatePortSpec ?p = Inr els"
    by (simp add: validatePortSpec_def numericPort_def maxUint16_def)
  have "portRange ?p = Some (8080, 65535)" by (simp add: portRange_def numericPort_def)
  with validatePortSpec_denotes [OF run] have c: "covers els (unat v) \<longleftrightarrow> 8080 \<le> uint v \<and> uint v \<le> 65535" for v :: "16 word"
    by simp
  show ?thesis using run c [of 65535] c [of 8079] by (intro exI [of _ els]) simp
qed

lemma validatePortSpec_refuses:
  "(\<exists>e. validatePortSpec port = Inl e) \<longleftrightarrow>
     ppPort port \<noteq> None \<and>
     (case portRange port of None \<Rightarrow> True | Some (lo, hi) \<Rightarrow> \<not> (portInRange lo \<and> portInRange hi))"
  unfolding validatePortSpec_cases portRange_def
  by (auto simp: Let_def max_def portInRange_def split: option.splits sum.splits if_splits)


end
