(* ===== verification/Policy_Types.thy ===== *)
theory Policy_Types
  imports Intervals
begin

text \<open>
  The objects the rule generator reads: the \<^verbatim>\<open>MultiNetworkPolicy\<close> resource, label selectors of
  \<^verbatim>\<open>k8s.io/apimachinery\<close> with their validation and matching, and \<^verbatim>\<open>PodInfo\<close>, \<^verbatim>\<open>InterfaceInfo\<close>,
  \<^verbatim>\<open>CommonRuleConfig\<close> of \<^verbatim>\<open>pkg/controllers\<close>.

  A Go map from strings to strings is an association list with distinct keys in the order of the
  keys, the order in which the code that depends on one prints it.
\<close>

section \<open>Label selectors\<close>

type_synonym labels = "(string \<times> string) list"

record label_requirement =
  lrKey :: string
  lrOperator :: string
  lrValues :: "string list"

record label_selector =
  matchLabels :: labels
  matchExpressions :: "label_requirement list"

datatype sel_op = SelEquals | SelIn | SelNotIn | SelExists | SelDoesNotExist

record requirement =
  reqKey :: string
  reqOp :: sel_op
  reqValues :: "string list"

datatype selector = SelNothing | SelAll "requirement list"

definition alnumByte :: "char \<Rightarrow> bool" where
  "alnumByte c = (inBytes 48 57 c \<or> inBytes 65 90 c \<or> inBytes 97 122 c)"

definition lowerAlnum :: "char \<Rightarrow> bool" where
  "lowerAlnum c = (inBytes 48 57 c \<or> inBytes 97 122 c)"

text \<open>\<^verbatim>\<open>^([A-Za-z0-9][-A-Za-z0-9_.]*)?[A-Za-z0-9]$\<close>\<close>

definition labelKeyFmt :: "string \<Rightarrow> bool" where
  "labelKeyFmt s =
     (s \<noteq> [] \<and> alnumByte (hd s) \<and> alnumByte (last s)
      \<and> list_all (\<lambda>c. alnumByte c \<or> c \<in> {CHR ''-'', CHR ''_'', CHR ''.''}) s)"

text \<open>\<^verbatim>\<open>[a-z0-9]([-a-z0-9]*[a-z0-9])?\<close> and a dot-separated sequence of it.\<close>

definition dns1123Label :: "string \<Rightarrow> bool" where
  "dns1123Label s =
     (s \<noteq> [] \<and> lowerAlnum (hd s) \<and> lowerAlnum (last s) \<and> list_all (\<lambda>c. lowerAlnum c \<or> c = CHR ''-'') s)"

definition isDNS1123Subdomain :: "string \<Rightarrow> bool" where
  "isDNS1123Subdomain s = (length s \<le> 253 \<and> list_all dns1123Label (splitOn (CHR ''.'') s))"

definition isLabelKey :: "string \<Rightarrow> bool" where
  "isLabelKey value =
     (case splitOn (CHR ''/'') value of
        [name] \<Rightarrow> length name \<le> 63 \<and> labelKeyFmt name
      | [prefix, name] \<Rightarrow>
          prefix \<noteq> [] \<and> isDNS1123Subdomain prefix \<and> length name \<le> 63 \<and> labelKeyFmt name
      | _ \<Rightarrow> False)"

definition isLabelValue :: "string \<Rightarrow> bool" where
  "isLabelValue value = (length value \<le> 63 \<and> (value = [] \<or> labelKeyFmt value))"

definition errSelector :: go_error where
  "errSelector = ErrText ''invalid label selector''"

definition newRequirement :: "string \<Rightarrow> sel_op \<Rightarrow> string list \<Rightarrow> requirement res" where
  "newRequirement key op vals =
     (let countOK = (case op of SelIn \<Rightarrow> vals \<noteq> [] | SelNotIn \<Rightarrow> vals \<noteq> []
                     | SelEquals \<Rightarrow> length vals = 1 | SelExists \<Rightarrow> vals = [] | SelDoesNotExist \<Rightarrow> vals = []) in
      if isLabelKey key \<and> countOK \<and> list_all isLabelValue vals
      then Inr \<lparr>reqKey = key, reqOp = op, reqValues = vals\<rparr> else Inl errSelector)"

definition selectorOp :: "string \<Rightarrow> sel_op res" where
  "selectorOp op =
     (if op = ''In'' then Inr SelIn
      else if op = ''NotIn'' then Inr SelNotIn
      else if op = ''Exists'' then Inr SelExists
      else if op = ''DoesNotExist'' then Inr SelDoesNotExist
      else Inl (ErrText ''not a valid label selector operator''))"

fun mapR :: "('a \<Rightarrow> 'b res) \<Rightarrow> 'a list \<Rightarrow> 'b list res" where
  "mapR f [] = Inr []"
| "mapR f (x # xs) = bindR (f x) (\<lambda>y. bindR (mapR f xs) (\<lambda>ys. Inr (y # ys)))"

definition LabelSelectorAsSelector :: "label_selector \<Rightarrow> selector res" where
  "LabelSelectorAsSelector ps =
     (if length (matchLabels ps) + length (matchExpressions ps) = 0 then Inr (SelAll [])
      else
        bindR (mapR (\<lambda>kv. newRequirement (fst kv) SelEquals [snd kv]) (matchLabels ps)) (\<lambda>rs.
        bindR (mapR (\<lambda>e. bindR (selectorOp (lrOperator e)) (\<lambda>op. newRequirement (lrKey e) op (lrValues e)))
                 (matchExpressions ps)) (\<lambda>rs'.
          Inr (SelAll (rs @ rs')))))"

definition reqMatches :: "requirement \<Rightarrow> labels \<Rightarrow> bool" where
  "reqMatches r ls =
     (let found = map_of ls (reqKey r) in
      case reqOp r of
        SelIn \<Rightarrow> (case found of None \<Rightarrow> False | Some v \<Rightarrow> v \<in> set (reqValues r))
      | SelEquals \<Rightarrow> (case found of None \<Rightarrow> False | Some v \<Rightarrow> v \<in> set (reqValues r))
      | SelNotIn \<Rightarrow> (case found of None \<Rightarrow> True | Some v \<Rightarrow> v \<notin> set (reqValues r))
      | SelExists \<Rightarrow> found \<noteq> None
      | SelDoesNotExist \<Rightarrow> found = None)"

definition selMatches :: "selector \<Rightarrow> labels \<Rightarrow> bool" where
  "selMatches s ls = (case s of SelNothing \<Rightarrow> False | SelAll rs \<Rightarrow> list_all (\<lambda>r. reqMatches r ls) rs)"

text \<open>The generated \<^verbatim>\<open>Size\<close> is zero exactly for the empty selector; the generated \<^verbatim>\<open>String\<close>.\<close>

definition selectorEmpty :: "label_selector \<Rightarrow> bool" where
  "selectorEmpty ps = (matchLabels ps = [] \<and> matchExpressions ps = [])"

definition requirementString :: "label_requirement \<Rightarrow> string" where
  "requirementString r =
     ''LabelSelectorRequirement{Key:'' @ lrKey r @ '',Operator:'' @ lrOperator r @ '',Values:['' @
     joinWith '' '' (lrValues r) @ ''],}''"

definition selectorString :: "label_selector \<Rightarrow> string" where
  "selectorString ps =
     ''&LabelSelector{MatchLabels:map[string]string{'' @
     concat (map (\<lambda>kv. fst kv @ '': '' @ snd kv @ '','') (matchLabels ps)) @
     ''},MatchExpressions:[]LabelSelectorRequirement{'' @
     concat (map (\<lambda>r. requirementString r @ '','') (matchExpressions ps)) @ ''},}''"

section \<open>Policies\<close>

record ip_block =
  ibCIDR :: string
  ibExcept :: "string list"

record policy_peer =
  peerPodSelector :: "label_selector option"
  peerNamespaceSelector :: "label_selector option"
  peerIPBlock :: "ip_block option"

text \<open>An ingress rule (ports and \<^verbatim>\<open>From\<close>) or an egress rule (ports and \<^verbatim>\<open>To\<close>).\<close>

record policy_rule =
  prPorts :: "policy_port list"
  prPeers :: "policy_peer list"

text \<open>\<open>None\<close> is a nil slice.\<close>

record policy =
  polName :: string
  polNamespace :: string
  polAnnotations :: labels
  polPodSelector :: label_selector
  polIngress :: "policy_rule list option"
  polEgress :: "policy_rule list option"
  polPolicyTypes :: "string list"

definition rulesOf :: "policy_rule list option \<Rightarrow> policy_rule list" where
  "rulesOf rs = (case rs of None \<Rightarrow> [] | Some l \<Rightarrow> l)"

section \<open>Pods\<close>

record interface_info =
  netattachName :: string
  interfaceName :: string
  interfaceType :: string
  ifIPs :: "string list"

definition ifCheckPolicyNetwork :: "interface_info \<Rightarrow> string list \<Rightarrow> bool" where
  "ifCheckPolicyNetwork info policyNetworks = list_ex (\<lambda>p. p = netattachName info) policyNetworks"

text \<open>The fields of \<^verbatim>\<open>NetworkStatus\<close>, the status Multus writes for each network, that the program reads.\<close>

record network_status =
  nsName :: string
  nsInterface :: string
  nsIPs :: "string list"
  nsDefault :: bool

record pod_info =
  piName :: string
  piNamespace :: string
  piNetNSPath :: string
  piNetworkStatus :: "network_status list"
  piNodeName :: string
  piInterfaces :: "interface_info list"

definition piCheckPolicyNetwork :: "pod_info \<Rightarrow> string list \<Rightarrow> bool" where
  "piCheckPolicyNetwork info policyNetworks =
     list_ex (\<lambda>i. list_ex (\<lambda>p. p = netattachName i) policyNetworks) (piInterfaces info)"

record container_status =
  csName :: string
  csContainerID :: string
  csRunning :: bool

record pod =
  podName :: string
  podNamespace :: string
  podLabels :: labels
  podAnnotations :: labels
  podUID :: string
  podNodeName :: string
  podHostNetwork :: bool
  podPhase :: string
  podContainerStatuses :: "container_status list"

definition IsMultiNetworkpolicyTarget :: "pod \<Rightarrow> bool" where
  "IsMultiNetworkpolicyTarget p =
     (if podPhase p \<noteq> ''Running'' then False else if podHostNetwork p then False else True)"

record common_rule_config =
  acceptICMPv6 :: bool
  acceptICMP :: bool
  allowSrcPrefix :: "string list"
  allowDstPrefix :: "string list"

text \<open>
  \<^verbatim>\<open>PolicyDeps\<close>, the cluster lookups of the generator, as a record of functions.  \<open>depMapOrder\<close> is the
  order in which a map is iterated, which Go leaves open: it gets the keys and a number that
  identifies the iteration.
\<close>

record policy_deps =
  depListPods :: "selector \<Rightarrow> pod list res"
  depGetNamespaceInfo :: "string \<Rightarrow> labels res"
  depGetPodInfo :: "pod \<Rightarrow> pod_info res"
  depMapOrder :: "nat \<Rightarrow> string list \<Rightarrow> string list"

section \<open>Properties of selectors\<close>

text \<open>What a label selector means, read off the API documentation.\<close>

definition exprHolds :: "labels \<Rightarrow> label_requirement \<Rightarrow> bool" where
  "exprHolds ls e =
     (if lrOperator e = ''In'' then \<exists>v \<in> set (lrValues e). map_of ls (lrKey e) = Some v
      else if lrOperator e = ''NotIn'' then \<forall>v \<in> set (lrValues e). map_of ls (lrKey e) \<noteq> Some v
      else if lrOperator e = ''Exists'' then map_of ls (lrKey e) \<noteq> None
      else map_of ls (lrKey e) = None)"

definition selectorHolds :: "label_selector \<Rightarrow> labels \<Rightarrow> bool" where
  "selectorHolds ps ls \<longleftrightarrow>
     (\<forall>kv \<in> set (matchLabels ps). map_of ls (fst kv) = Some (snd kv))
     \<and> (\<forall>e \<in> set (matchExpressions ps). exprHolds ls e)"

lemma mapR_Inr: "mapR f xs = Inr ys \<Longrightarrow> list_all2 (\<lambda>x y. f x = Inr y) xs ys"
  by (induction xs arbitrary: ys) (auto simp: bindR_Inr_iff)

lemma newRequirement_Inr:
  "newRequirement k op vs = Inr r \<Longrightarrow> r = \<lparr>reqKey = k, reqOp = op, reqValues = vs\<rparr>"
  by (auto simp: newRequirement_def Let_def split: if_splits)

lemma list_all_cong2:
  "list_all2 R xs ys \<Longrightarrow> (\<And>x y. R x y \<Longrightarrow> P y = Q x) \<Longrightarrow> list_all P ys \<longleftrightarrow> (\<forall>x \<in> set xs. Q x)"
  by (induction rule: list_all2_induct) auto

lemma reqMatches_expr:
  assumes "bindR (selectorOp (lrOperator e)) (\<lambda>op. newRequirement (lrKey e) op (lrValues e)) = Inr r"
  shows "reqMatches r ls = exprHolds ls e"
  using assms
  by (auto simp: bindR_Inr_iff selectorOp_def exprHolds_def reqMatches_def Let_def split: if_splits option.splits
      dest!: newRequirement_Inr)

lemma selector_matches:
  assumes "LabelSelectorAsSelector ps = Inr s"
  shows "selMatches s ls \<longleftrightarrow> selectorHolds ps ls"
proof (cases "length (matchLabels ps) + length (matchExpressions ps) = 0")
  case True
  then show ?thesis
    using assms by (auto simp: LabelSelectorAsSelector_def selMatches_def selectorHolds_def)
next
  case False
  then obtain rs rs' where
    l: "mapR (\<lambda>kv. newRequirement (fst kv) SelEquals [snd kv]) (matchLabels ps) = Inr rs"
    and e: "mapR (\<lambda>e. bindR (selectorOp (lrOperator e)) (\<lambda>op. newRequirement (lrKey e) op (lrValues e)))
        (matchExpressions ps) = Inr rs'" and s: "s = SelAll (rs @ rs')"
    using assms by (auto simp: LabelSelectorAsSelector_def bindR_Inr_iff)
  have "list_all (\<lambda>r. reqMatches r ls) rs \<longleftrightarrow> (\<forall>kv \<in> set (matchLabels ps). map_of ls (fst kv) = Some (snd kv))"
    using mapR_Inr [OF l]
    by (rule list_all_cong2) (auto simp: reqMatches_def Let_def dest!: newRequirement_Inr split: option.splits)
  moreover have "list_all (\<lambda>r. reqMatches r ls) rs' \<longleftrightarrow> (\<forall>x \<in> set (matchExpressions ps). exprHolds ls x)"
    using mapR_Inr [OF e] by (rule list_all_cong2) (rule reqMatches_expr)
  ultimately show ?thesis by (simp add: s selMatches_def selectorHolds_def)
qed

text \<open>(C22)
  A label selector that the library accepts matches a set of labels exactly when every listed label
  is present with its value and every expression holds: \<^verbatim>\<open>In\<close> and \<^verbatim>\<open>NotIn\<close> by membership of the value
  (an absent key is not in any set), \<^verbatim>\<open>Exists\<close> and \<^verbatim>\<open>DoesNotExist\<close> by presence of the key.
\<close>

theorem LabelSelectorAsSelector_matches:
  assumes "LabelSelectorAsSelector ps = Inr s"
  shows "selMatches s ls \<longleftrightarrow> selectorHolds ps ls"
  using assms by (rule selector_matches)

theorem LabelSelectorAsSelector_matches_witness:
  "\<exists>s. LabelSelectorAsSelector \<lparr>matchLabels = [(''app'', ''web'')],
       matchExpressions = [\<lparr>lrKey = ''tier'', lrOperator = ''NotIn'', lrValues = [''db'']\<rparr>]\<rparr> = Inr s
     \<and> selMatches s [(''app'', ''web'')] \<and> \<not> selMatches s [(''app'', ''web''), (''tier'', ''db'')]"
proof -
  let ?ps = "\<lparr>matchLabels = [(''app'', ''web'')],
       matchExpressions = [\<lparr>lrKey = ''tier'', lrOperator = ''NotIn'', lrValues = [''db'']\<rparr>]\<rparr>"
  obtain s where run: "LabelSelectorAsSelector ?ps = Inr s"
    by (simp add: LabelSelectorAsSelector_def newRequirement_def selectorOp_def isLabelKey_def isLabelValue_def
        labelKeyFmt_def alnumByte_def inBytes_def)
  then show ?thesis
    using LabelSelectorAsSelector_matches [OF run] by (auto simp: selectorHolds_def exprHolds_def)
qed

end
