(* ===== verification/Controllers.thy ===== *)
theory Controllers
  imports Complex_Main Policy_Types
begin

text \<open>
  \<^verbatim>\<open>pkg/controllers/netns.go\<close> and \<^verbatim>\<open>pod.go\<close>, \<^verbatim>\<open>pkg/utils/node.go\<close>: from a pod to the \<^verbatim>\<open>PodInfo\<close> that the
  rule generator reads.  The networks of a pod are taken from its annotation or, failing that, from
  its status; each is resolved to a CNI plugin type, the interfaces of the configured plugin types are
  kept, and the network namespace is found through the container runtime.  The parser of the
  annotation belongs to \<^verbatim>\<open>network-attachment-definition-client\<close>.

  Parameters: \<^verbatim>\<open>encoding/json\<close> (\<open>json_codec\<close>: one decoder per target type), the container runtime
  (\<open>cri_client\<close>: the \<^verbatim>\<open>info\<close> map of \<^verbatim>\<open>ContainerStatus\<close>) and the \<^verbatim>\<open>NetDefResolver\<close> interface (a function).
\<close>

section \<open>JSON values and decoders\<close>

datatype json =
    JNull
  | JBool bool
  | JNum rat
  | JStr string
  | JArr "json list"
  | JObj "(string \<times> json) list"

text \<open>A network selection: the fields of \<^verbatim>\<open>NetworkSelectionElement\<close> that the program reads.\<close>

record network_selection =
  selName :: string
  selNamespace :: string
  selInterface :: string

text \<open>
  \<open>jcStatuses\<close> returns what was decoded together with the error: \<^verbatim>\<open>json.Unmarshal\<close> keeps the elements
  it could decode.  \<open>None\<close> among the selections is a JSON \<^verbatim>\<open>null\<close>, which decodes to a nil pointer.
\<close>

record json_codec =
  jcValue :: "string \<Rightarrow> json res"
  jcStatuses :: "string \<Rightarrow> network_status list \<times> go_error option"
  jcSelections :: "string \<Rightarrow> network_selection option list res"

type_synonym cri_client = "string \<Rightarrow> (string \<times> string) list res"

text \<open>\<^verbatim>\<open>m[k]\<close> of a map from strings to strings: the zero value when the key is absent.\<close>

definition lookupStr :: "(string \<times> string) list \<Rightarrow> string \<Rightarrow> string" where
  "lookupStr m k = (case map_of m k of None \<Rightarrow> [] | Some v \<Rightarrow> v)"

section \<open>Node names and the container runtime\<close>

definition CheckNodeNameIdentical :: "string \<Rightarrow> string \<Rightarrow> bool" where
  "CheckNodeNameIdentical s1 s2 = (hd (splitOn (CHR ''.'') s1) = hd (splitOn (CHR ''.'') s2))"

definition Cri :: string where
  "Cri = ''cri''"

text \<open>\<open>RuntimeKind_Set rk s\<close>: the new value of the flag or the error.\<close>

definition RuntimeKind_Set :: "string \<Rightarrow> string \<Rightarrow> string res" where
  "RuntimeKind_Set rk s =
     (let runtime = toLowerASCII s in
      if runtime = Cri then Inr runtime else Inl (ErrText ''invalid container-runtime option''))"

datatype conn_state = Idle | Connecting | Ready | TransientFailure | Shutdown

text \<open>
  What the loop waiting for the gRPC connection observes: the state at each \<^verbatim>\<open>GetState\<close>, up to the one
  for which \<^verbatim>\<open>WaitForStateChange\<close> reports the end of the 30 second context.  That the loop ends is
  therefore the deadline of the context and not a result of this development.  The \<^verbatim>\<open>Close\<close> of the
  connection on this path only logs its error; it has no effect on the modelled state.
\<close>

fun waitReady :: "conn_state \<Rightarrow> conn_state list \<Rightarrow> unit res" where
  "waitReady st later =
     (if st = Ready then Inr ()
      else (case later of
              [] \<Rightarrow> Inl (ErrText ''timed out waiting for gRPC connection to become ready'')
            | st' # later' \<Rightarrow> waitReady st' later'))"

text \<open>
  A connection is identified by the target it was made for, so two connections to one target are not told
  apart; \<open>dialClose\<close> is the error of \<^verbatim>\<open>Close\<close>, if any.
\<close>

type_synonym cri_conn = string

record cri_dial =
  dialAddress :: "string \<Rightarrow> string res"
  dialNewClient :: "string \<Rightarrow> (conn_state \<times> conn_state list) res"
  dialClient :: "cri_conn \<Rightarrow> cri_client"
  dialClose :: "cri_conn \<Rightarrow> go_error option"

definition GetCriRuntimeClientWithContext :: "cri_dial \<Rightarrow> string \<Rightarrow> string \<Rightarrow> (cri_client \<times> cri_conn) res" where
  "GetCriRuntimeClientWithContext C runtimeEndpoint hostPrefix =
     (let hostRuntimeEndpoint = ''unix://'' @ hostPrefix @ runtimeEndpoint in
      bindR (dialAddress C hostRuntimeEndpoint) (\<lambda>addr.
      let target = ''passthrough:///'' @ addr in
      bindR (wrapR ''failed to create gRPC client'' (dialNewClient C target)) (\<lambda>(st, later).
      bindR (waitReady st later) (\<lambda>_. Inr (dialClient C target, target)))))"

definition selectContainerID :: "container_status list \<Rightarrow> string" where
  "selectContainerID statuses =
     (case find (\<lambda>s. csContainerID s \<noteq> [] \<and> csRunning s) statuses of
        Some s \<Rightarrow> csContainerID s
      | None \<Rightarrow>
          (case find (\<lambda>s. csContainerID s \<noteq> []) statuses of
             Some s \<Rightarrow> csContainerID s
           | None \<Rightarrow> []))"

text \<open>\<^verbatim>\<open>%d\<close> of an \<^verbatim>\<open>int\<close>, and the conversion of a \<^verbatim>\<open>float64\<close> to it (amd64: out of range gives the minimum).\<close>

definition itoaInt :: "int \<Rightarrow> string" where
  "itoaInt i = (if i < 0 then CHR ''-'' # itoa (nat (- i)) else itoa (nat i))"

definition float64ToInt :: "rat \<Rightarrow> int" where
  "float64ToInt x =
     (let t = (if 0 \<le> x then \<lfloor>x\<rfloor> else \<lceil>x\<rceil>) in if - (2 ^ 63) \<le> t \<and> t < 2 ^ 63 then t else - (2 ^ 63))"

text \<open>
  \<^verbatim>\<open>infop.(map[string]interface{})["pid"].(float64)\<close>: only the outer assertion is checked; when the
  document is not an object the inner one panics.
\<close>

definition infoPid :: "json \<Rightarrow> rat res" where
  "infoPid infop =
     (case infop of
        JObj members \<Rightarrow>
          (case map_of members ''pid'' of
             Some (JNum x) \<Rightarrow> Inr x
           | _ \<Rightarrow> Inl (ErrText ''cannot get pid from containerStatus info''))
      | _ \<Rightarrow> Inl (ErrPanic ''interface conversion''))"

definition GetPodNetNSPathWithContext :: "json_codec \<Rightarrow> cri_client option \<Rightarrow> pod \<Rightarrow> string res" where
  "GetPodNetNSPathWithContext J criClient pod =
     (if podPhase pod \<noteq> ''Running'' then Inl (ErrText ''pod is not running'')
      else if podContainerStatuses pod = [] then Inl (ErrText ''no container status'')
      else
        let containerIDRaw = selectContainerID (podContainerStatuses pod) in
        if containerIDRaw = [] then Inl (ErrText ''no container ID'')
        else (case cutStr containerIDRaw ''://'' of
            None \<Rightarrow> Inl (ErrText ''invalid container ID'')
          | Some (runtimeKind, containerID) \<Rightarrow>
              if containerID = [] then Inl (ErrText ''invalid container ID'')
              else (case criClient of
                  None \<Rightarrow> Inl (ErrText ''cannot find cri client'')
                | Some cri \<Rightarrow>
                    bindR (wrapR ''cannot get containerStatus'' (cri containerID)) (\<lambda>info.
                    bindR (wrapR ''cannot unmarshal containerStatus info'' (jcValue J (lookupStr info ''info''))) (\<lambda>infop.
                    bindR (infoPid infop) (\<lambda>pid.
                      Inr (''/proc/'' @ itoaInt (float64ToInt pid) @ ''/ns/net'')))))))"

section \<open>The network annotation\<close>

definition NetworkAttachmentAnnot :: string where
  "NetworkAttachmentAnnot = ''k8s.v1.cni.cncf.io/networks''"

definition NetworkStatusAnnot :: string where
  "NetworkStatusAnnot = ''k8s.v1.cni.cncf.io/network-status''"

definition matchesNetworkName :: "string \<Rightarrow> bool" where
  "matchesNetworkName s = (dns1123Label s \<or> s = [])"

definition parsePodNetworkObjectText :: "string \<Rightarrow> (string \<times> string \<times> string) res" where
  "parsePodNetworkObjectText podnetwork =
     bindR (case splitOn (CHR ''/'') podnetwork of
              [a, b] \<Rightarrow> Inr (trimSpace a, b)
            | [a] \<Rightarrow> Inr ([], a)
            | _ \<Rightarrow> Inl (ErrText ''Invalid network object (failed at slash)'')) (\<lambda>(netNsName, rest).
     bindR (case splitOn (CHR ''@'') rest of
              [a] \<Rightarrow> Inr (trimSpace a, [])
            | [a, b] \<Rightarrow> Inr (trimSpace a, trimSpace b)
            | _ \<Rightarrow> Inl (ErrText ''Invalid network object (failed at at)'')) (\<lambda>(networkName, netIfName).
       if list_all matchesNetworkName [netNsName, networkName, netIfName]
       then Inr (netNsName, networkName, netIfName)
       else Inl (ErrText ''Failed to parse: one or more items did not match comma-delimited format'')))"

definition withNamespace :: "string \<Rightarrow> network_selection \<Rightarrow> network_selection" where
  "withNamespace ns net = (if selNamespace net = [] then net\<lparr>selNamespace := ns\<rparr> else net)"

text \<open>The last loop of the parser dereferences every element: a \<^verbatim>\<open>null\<close> panics.\<close>

fun defaultNamespaces :: "string \<Rightarrow> network_selection option list \<Rightarrow> network_selection list res" where
  "defaultNamespaces ns [] = Inr []"
| "defaultNamespaces ns (None # nets) = Inl (ErrPanic ''nil pointer dereference'')"
| "defaultNamespaces ns (Some net # nets) =
     bindR (defaultNamespaces ns nets) (\<lambda>nets'. Inr (withNamespace ns net # nets'))"

definition ParseNetworkAnnotation :: "json_codec \<Rightarrow> string \<Rightarrow> string \<Rightarrow> network_selection list res" where
  "ParseNetworkAnnotation J podNetworks defaultNamespace =
     (if podNetworks = [] then Inl (ErrText ''pod annotation not having network as key'')
      else
        bindR (if list_ex (\<lambda>c. c \<in> {CHR ''['', CHR ''{'', CHR 0x22}) podNetworks
               then wrapR ''parsePodNetworkAnnotation: failed to parse JSON format'' (jcSelections J podNetworks)
               else mapR (\<lambda>item.
                      bindR (wrapR ''parsePodNetworkAnnotation'' (parsePodNetworkObjectText (trimSpace item)))
                        (\<lambda>(netNsName, networkName, netIfName).
                           Inr (Some \<lparr>selName = networkName, selNamespace = netNsName, selInterface = netIfName\<rparr>)))
                    (splitOn (CHR '','') podNetworks))
          (defaultNamespaces defaultNamespace))"

definition ParsePodNetworkAnnotation :: "json_codec \<Rightarrow> pod \<Rightarrow> network_selection list res" where
  "ParsePodNetworkAnnotation J pod =
     (let netAnnot = lookupStr (podAnnotations pod) NetworkAttachmentAnnot in
      if netAnnot = [] then Inl (ErrText ''no kubernetes network found'')
      else ParseNetworkAnnotation J netAnnot (podNamespace pod))"

section \<open>The network status\<close>

text \<open>A pod without annotations has the empty list.\<close>

definition GetNetworkStatus :: "json_codec \<Rightarrow> pod \<Rightarrow> network_status list \<times> go_error option" where
  "GetNetworkStatus J pod =
     (case map_of (podAnnotations pod) NetworkStatusAnnot of
        None \<Rightarrow> ([], Some (ErrText ''cannot find network status''))
      | Some netStatusesJson \<Rightarrow> jcStatuses J netStatusesJson)"

definition secondaryStatus :: "network_status \<Rightarrow> bool" where
  "secondaryStatus st = (nsInterface st \<noteq> [] \<and> nsInterface st \<noteq> ''eth0'' \<and> \<not> nsDefault st)"

definition hasSecondaryNetworkStatus :: "network_status list \<Rightarrow> bool" where
  "hasSecondaryNetworkStatus statuses = list_ex secondaryStatus statuses"

definition podNeedsNetworkStatus :: "json_codec \<Rightarrow> pod \<Rightarrow> network_selection list \<Rightarrow> bool" where
  "podNeedsNetworkStatus J pod networks =
     (if networks \<noteq> [] then True
      else
        let networkAnnotation = trimSpace (lookupStr (podAnnotations pod) NetworkAttachmentAnnot);
            statusAnnotation = trimSpace (lookupStr (podAnnotations pod) NetworkStatusAnnot) in
        if networkAnnotation \<noteq> [] \<and> networkAnnotation \<noteq> ''[]'' \<and> networkAnnotation \<noteq> ''null'' then True
        else if statusAnnotation = [] then False
        else (case jcStatuses J statusAnnotation of
                (_, Some _) \<Rightarrow> False
              | (statuses, None) \<Rightarrow> hasSecondaryNetworkStatus statuses))"

definition networkStatusForPod ::
  "json_codec \<Rightarrow> pod \<Rightarrow> network_selection list \<Rightarrow> network_status list \<times> go_error option" where
  "networkStatusForPod J pod networks =
     (if \<not> podNeedsNetworkStatus J pod networks then ([], None) else GetNetworkStatus J pod)"

definition selectionOf :: "pod \<Rightarrow> network_status \<Rightarrow> network_selection list" where
  "selectionOf pod status =
     (if \<not> hasSecondaryNetworkStatus [status] then []
      else
        let (namespace, name) =
              (case cutStr (nsName status) ''/'' of
                 None \<Rightarrow> (podNamespace pod, nsName status)
               | Some (before, after) \<Rightarrow> (before, after)) in
        if name = [] then []
        else [\<lparr>selName = name, selNamespace = namespace, selInterface = nsInterface status\<rparr>])"

definition networkSelectionsFromStatus :: "pod \<Rightarrow> network_status list \<Rightarrow> network_selection list" where
  "networkSelectionsFromStatus pod statuses = concat (map (selectionOf pod) statuses)"

section \<open>PodInfo\<close>

type_synonym ns_name = "string \<times> string"

text \<open>The networks and statuses of a pod: errors of both parsers are logged and the run goes on.\<close>

definition podNetworks :: "json_codec \<Rightarrow> pod \<Rightarrow> (network_selection list \<times> network_status list) res" where
  "podNetworks J pod =
     bindR (recoverR (ParsePodNetworkAnnotation J pod)) (\<lambda>parsed.
     let networks = (case parsed of Inl _ \<Rightarrow> [] | Inr nets \<Rightarrow> nets);
         (statuses, err) = networkStatusForPod J pod networks in
     Inr (if networks = [] \<and> err = None then networkSelectionsFromStatus pod statuses else networks, statuses))"

definition selectionKey :: "pod \<Rightarrow> network_selection \<Rightarrow> ns_name" where
  "selectionKey pod n = (if selNamespace n \<noteq> [] then selNamespace n else podNamespace pod, selName n)"

fun resolvePlugins ::
  "(ns_name \<Rightarrow> string res) \<Rightarrow> pod \<Rightarrow> network_selection list \<Rightarrow> (ns_name \<rightharpoonup> string) \<Rightarrow> (ns_name \<rightharpoonup> string) res" where
  "resolvePlugins resolver pod [] m = Inr m"
| "resolvePlugins resolver pod (n # ns) m =
     (let namespacedName = selectionKey pod n in
      if m namespacedName \<noteq> None then resolvePlugins resolver pod ns m
      else bindR (wrapR ''resolve plugin type for network attachment'' (resolver namespacedName)) (\<lambda>pluginType.
             resolvePlugins resolver pod ns (m(namespacedName \<mapsto> pluginType))))"

definition statusKey :: "pod \<Rightarrow> network_status \<Rightarrow> ns_name" where
  "statusKey pod s =
     (case splitOn (CHR ''/'') (nsName s) of
        [a, b] \<Rightarrow> (trimSpace a, b)
      | _ \<Rightarrow> (podNamespace pod, nsName s))"

definition pluginOf :: "(ns_name \<rightharpoonup> string) \<Rightarrow> ns_name \<Rightarrow> string" where
  "pluginOf m k = (case m k of None \<Rightarrow> [] | Some t \<Rightarrow> t)"

definition statusInterfaces ::
  "string list \<Rightarrow> (ns_name \<rightharpoonup> string) \<Rightarrow> pod \<Rightarrow> network_status \<Rightarrow> interface_info list" where
  "statusInterfaces networkPlugins m pod s =
     concat (map (\<lambda>pluginName.
       if pluginOf m (statusKey pod s) = pluginName
       then [\<lparr>netattachName = nsName s, interfaceName = nsInterface s,
              interfaceType = pluginOf m (statusKey pod s), ifIPs = nsIPs s\<rparr>]
       else []) networkPlugins)"

text \<open>
  \<^verbatim>\<open>slices.SortFunc\<close> by interface name.  The names of one network namespace are distinct; equal names
  keep their order here (as they do in Go for up to twelve interfaces).
\<close>

definition sortByInterfaceName :: "interface_info list \<Rightarrow> interface_info list" where
  "sortByInterfaceName netifs = sort_key interfaceName netifs"

definition podInfoOf ::
  "pod \<Rightarrow> network_status list \<Rightarrow> string \<Rightarrow> interface_info list \<Rightarrow> pod_info" where
  "podInfoOf pod statuses netnsPath netifs =
     \<lparr>piName = podName pod, piNamespace = podNamespace pod, piNetNSPath = netnsPath,
      piNetworkStatus = statuses, piNodeName = podNodeName pod, piInterfaces = sortByInterfaceName netifs\<rparr>"

definition NewPodInfoFromPod ::
  "json_codec \<Rightarrow> pod \<Rightarrow> cri_client option \<Rightarrow> string \<Rightarrow> string list \<Rightarrow> (ns_name \<Rightarrow> string res) \<Rightarrow> pod_info res" where
  "NewPodInfoFromPod J pod criClient hostname networkPlugins netdefResolver =
     (if IsMultiNetworkpolicyTarget pod then
        bindR (podNetworks J pod) (\<lambda>(networks, statuses).
        bindR (resolvePlugins netdefResolver pod networks Map.empty) (\<lambda>networkPluginsMap.
        let netifs = concat (map (statusInterfaces networkPlugins networkPluginsMap pod) statuses) in
        bindR (if netifs \<noteq> [] \<and> CheckNodeNameIdentical hostname (podNodeName pod) \<and> criClient \<noteq> None
               then wrapR ''resolve pod network namespace'' (GetPodNetNSPathWithContext J criClient pod)
               else Inr []) (\<lambda>netnsPath.
        Inr (podInfoOf pod statuses netnsPath netifs))))
      else Inr (podInfoOf pod [] [] []))"

section \<open>Containers and connections\<close>

lemma waitReady_iff: "waitReady st later = Inr () \<longleftrightarrow> Ready \<in> set (st # later)"
  by (induction st later rule: waitReady.induct) (subst waitReady.simps, auto split: list.splits)

declare waitReady.simps [simp del]

text \<open>
  The client is returned exactly when the connection was seen ready before the deadline.
\<close>

lemma GetCriRuntimeClient_ready:
  assumes "dialAddress C (''unix://'' @ hostPrefix @ endpoint) = Inr addr"
    and "dialNewClient C (''passthrough:///'' @ addr) = Inr (st, later)"
  shows "GetCriRuntimeClientWithContext C endpoint hostPrefix =
     (if Ready \<in> set (st # later) then Inr (dialClient C (''passthrough:///'' @ addr), ''passthrough:///'' @ addr)
      else Inl (ErrText ''timed out waiting for gRPC connection to become ready''))"
proof -
  have "waitReady st later = Inl (ErrText ''timed out waiting for gRPC connection to become ready'')"
    if "Ready \<notin> set (st # later)"
    using that by (induction st later rule: waitReady.induct) (subst waitReady.simps, auto split: list.splits)
  then show ?thesis
    using assms waitReady_iff [of st later]
    by (auto simp: GetCriRuntimeClientWithContext_def Let_def)
qed

definition exDial :: "conn_state list \<Rightarrow> cri_dial" where
  "exDial later =
     \<lparr>dialAddress = (\<lambda>ep. Inr (drop 7 ep)), dialNewClient = (\<lambda>t. Inr (Idle, later)),
      dialClient = (\<lambda>t cid. Inr [(''info'', cid)]), dialClose = (\<lambda>t. None)\<rparr>"

lemma find_Some_set: "find P xs = Some x \<Longrightarrow> x \<in> set xs \<and> P x"
  by (induction xs) (auto split: if_splits)

text \<open>
  The container whose process identifies the network namespace: its ID is empty only if no container
  has one, it is the ID of one of the containers, and of a running one whenever a running container
  has an ID.
\<close>

lemma selectContainerID_prefers_running:
  "(selectContainerID sts = [] \<longleftrightarrow> (\<forall>s \<in> set sts. csContainerID s = []))
   \<and> (selectContainerID sts \<noteq> [] \<longrightarrow> (\<exists>s \<in> set sts. selectContainerID sts = csContainerID s))
   \<and> ((\<exists>s \<in> set sts. csRunning s \<and> csContainerID s \<noteq> [])
      \<longrightarrow> (\<exists>s \<in> set sts. csRunning s \<and> selectContainerID sts = csContainerID s))"
  unfolding selectContainerID_def
  by (auto split: option.splits simp: find_None_iff dest!: find_Some_set)

lemma selectContainerID_prefers_running_witness:
  "selectContainerID
     [\<lparr>csName = ''init'', csContainerID = ''cri://1'', csRunning = False\<rparr>,
      \<lparr>csName = ''app'', csContainerID = ''cri://2'', csRunning = True\<rparr>] = ''cri://2''"
proof -
  let ?sts = "[\<lparr>csName = ''init'', csContainerID = ''cri://1'', csRunning = False\<rparr>,
      \<lparr>csName = ''app'', csContainerID = ''cri://2'', csRunning = True\<rparr>]"
  have "\<exists>s \<in> set ?sts. csRunning s \<and> csContainerID s \<noteq> []" by simp
  then have "\<exists>s \<in> set ?sts. csRunning s \<and> selectContainerID ?sts = csContainerID s"
    using conjunct2 [OF conjunct2 [OF selectContainerID_prefers_running [of ?sts]]] by (rule rev_mp)
  then show ?thesis by simp
qed

section \<open>The annotation round trip\<close>

lemma trimSpace_plain:
  assumes "\<forall>c \<in> set s. byteOf c < 128 \<and> \<not> isSpaceRune (byteOf c)"
  shows "trimSpace s = s"
proof -
  have id: "dropWhile (isSpaceRune \<circ> fst) ys = ys" if "\<forall>y \<in> set ys. \<not> isSpaceRune (fst y)" for ys :: "(nat \<times> string) list"
    using that by (cases ys) auto
  have "runes s = map (\<lambda>c. (byteOf c, [c])) s" using assms by (intro runes_ascii) auto
  then show ?thesis
    using assms by (simp add: trimSpace_def id) (simp add: o_def)
qed

lemma dns1123Label_char: "dns1123Label s \<Longrightarrow> c \<in> set s \<Longrightarrow> lowerAlnum c \<or> c = CHR ''-''"
  by (auto simp: dns1123Label_def list_all_iff)

definition netNameChar :: "char \<Rightarrow> bool" where
  "netNameChar c = (lowerAlnum c \<or> c \<in> {CHR ''-'', CHR ''/'', CHR ''@''})"

lemma netNameChar_plain: "netNameChar c \<Longrightarrow> byteOf c < 128 \<and> \<not> isSpaceRune (byteOf c)"
  by (auto simp: netNameChar_def lowerAlnum_def inBytes_def isSpaceRune_def)

lemma netNameChar_label: "dns1123Label s \<Longrightarrow> c \<in> set s \<Longrightarrow> netNameChar c"
  using dns1123Label_char by (auto simp: netNameChar_def)

lemma trimSpace_label: "dns1123Label s \<Longrightarrow> trimSpace s = s"
  by (intro trimSpace_plain ballI netNameChar_plain netNameChar_label)

lemma label_absent:
  "dns1123Label s \<Longrightarrow> c \<in> {CHR ''/'', CHR ''@'', CHR '','', CHR ''['', CHR ''{'', CHR 0x22} \<Longrightarrow> c \<notin> set s"
  using dns1123Label_char [of s c] by (auto simp: lowerAlnum_def inBytes_def)

lemma splitOn_app: "c \<notin> set a \<Longrightarrow> splitOn c (a @ c # b) = a # splitOn c b"
  by (induction a) auto

lemma splitOn_joinWith:
  "xs \<noteq> [] \<Longrightarrow> \<forall>x \<in> set xs. c \<notin> set x \<Longrightarrow> splitOn c (joinWith [c] xs) = xs"
proof (induction xs rule: induct_list012)
  case (3 x y zs)
  then show ?case by (simp add: splitOn_app)
qed (auto simp: splitOn_absent)

definition selectionText :: "network_selection \<Rightarrow> string" where
  "selectionText n = selNamespace n @ ''/'' @ selName n @ ''@'' @ selInterface n"

definition validSelection :: "network_selection \<Rightarrow> bool" where
  "validSelection n = (dns1123Label (selNamespace n) \<and> dns1123Label (selName n) \<and> dns1123Label (selInterface n))"

lemma selectionText_chars: "validSelection n \<Longrightarrow> c \<in> set (selectionText n) \<Longrightarrow> netNameChar c"
  unfolding selectionText_def validSelection_def
  using netNameChar_label by (auto simp: netNameChar_def)

lemma parse_selectionText:
  assumes "validSelection n"
  shows "parsePodNetworkObjectText (trimSpace (selectionText n)) = Inr (selNamespace n, selName n, selInterface n)"
proof -
  have v: "dns1123Label (selNamespace n)" "dns1123Label (selName n)" "dns1123Label (selInterface n)"
    using assms by (auto simp: validSelection_def)
  have "trimSpace (selectionText n) = selectionText n"
    by (intro trimSpace_plain ballI netNameChar_plain selectionText_chars [OF assms])
  moreover have "splitOn (CHR ''/'') (selectionText n) = [selNamespace n, selName n @ ''@'' @ selInterface n]"
    using v label_absent by (simp add: selectionText_def splitOn_app splitOn_absent)
  moreover have "splitOn (CHR ''@'') (selName n @ ''@'' @ selInterface n) = [selName n, selInterface n]"
    using v label_absent by (simp add: splitOn_app splitOn_absent)
  ultimately show ?thesis
    using v by (simp add: parsePodNetworkObjectText_def trimSpace_label matchesNetworkName_def)
qed

lemma set_joinWith: "c \<in> set (joinWith sep xs) \<Longrightarrow> c \<in> set sep \<or> (\<exists>x \<in> set xs. c \<in> set x)"
  by (induction xs rule: induct_list012) auto

lemma mapR_map: "(\<And>x. x \<in> set xs \<Longrightarrow> f (g x) = Inr (h x)) \<Longrightarrow> mapR f (map g xs) = Inr (map h xs)"
  by (induction xs) auto

lemma defaultNamespaces_valid: "\<forall>n \<in> set ns. validSelection n \<Longrightarrow> defaultNamespaces d (map Some ns) = Inr ns"
  by (induction ns) (auto simp: withNamespace_def validSelection_def dns1123Label_def)

text \<open>(C32)
  The comma separated form of the networks annotation round trips: printing any non-empty list of
  selections with valid names as \<^verbatim>\<open>namespace/name@interface\<close> and parsing it gives the list back, whatever
  the default namespace.
\<close>

theorem ParseNetworkAnnotation_roundtrip:
  assumes "ns \<noteq> []" "\<forall>n \<in> set ns. validSelection n"
  shows "ParseNetworkAnnotation J (joinWith '','' (map selectionText ns)) d = Inr ns"
proof -
  let ?t = "joinWith '','' (map selectionText ns)"
  have chars: "netNameChar c \<or> c = CHR '',''" if "c \<in> set ?t" for c
    using set_joinWith [OF that] selectionText_chars assms(2) by auto
  have "?t \<noteq> []"
    using assms(1) by (cases ns; cases "tl ns") (auto simp: selectionText_def)
  moreover have "\<not> list_ex (\<lambda>c. c \<in> {CHR ''['', CHR ''{'', CHR 0x22}) ?t"
    using chars by (fastforce simp: list_ex_iff netNameChar_def lowerAlnum_def inBytes_def)
  moreover have "splitOn (CHR '','') ?t = map selectionText ns"
  proof (rule splitOn_joinWith)
    show "\<forall>x \<in> set (map selectionText ns). CHR '','' \<notin> set x"
      using selectionText_chars assms(2) by (fastforce simp: netNameChar_def lowerAlnum_def inBytes_def)
  qed (use assms(1) in simp)
  moreover have "mapR (\<lambda>item. bindR (wrapR ''parsePodNetworkAnnotation'' (parsePodNetworkObjectText (trimSpace item)))
       (\<lambda>(netNsName, networkName, netIfName).
          Inr (Some \<lparr>selName = networkName, selNamespace = netNsName, selInterface = netIfName\<rparr>)))
     (map selectionText ns) = Inr (map Some ns)"
    by (rule mapR_map) (use assms(2) in \<open>simp add: parse_selectionText\<close>)
  ultimately show ?thesis
    using assms(2) by (simp add: ParseNetworkAnnotation_def defaultNamespaces_valid)
qed


theorem ParseNetworkAnnotation_roundtrip_witness:
  "\<forall>J. ParseNetworkAnnotation J ''ns1/net-a@net1,ns2/b@net2'' ''default'' =
     Inr [\<lparr>selName = ''net-a'', selNamespace = ''ns1'', selInterface = ''net1''\<rparr>,
          \<lparr>selName = ''b'', selNamespace = ''ns2'', selInterface = ''net2''\<rparr>]"
proof
  fix J
  let ?ns = "[\<lparr>selName = ''net-a'', selNamespace = ''ns1'', selInterface = ''net1''\<rparr>,
          \<lparr>selName = ''b'', selNamespace = ''ns2'', selInterface = ''net2''\<rparr>]"
  have "\<forall>n \<in> set ?ns. validSelection n"
    by (simp add: validSelection_def dns1123Label_def lowerAlnum_def inBytes_def)
  from ParseNetworkAnnotation_roundtrip [OF _ this, of J "''default''"]
  show "ParseNetworkAnnotation J ''ns1/net-a@net1,ns2/b@net2'' ''default'' = Inr ?ns"
    by (simp add: selectionText_def)
qed

lemma infoPid_Inr_iff: "infoPid v = Inr x \<longleftrightarrow> (\<exists>members. v = JObj members \<and> map_of members ''pid'' = Some (JNum x))"
  by (auto simp: infoPid_def split: json.splits option.splits)

text \<open>
  The process of a container: what the runtime reports for the ID after \<^verbatim>\<open>://\<close>, and its path.
\<close>

definition containerProc :: "json_codec \<Rightarrow> cri_client \<Rightarrow> container_status \<Rightarrow> string \<Rightarrow> bool" where
  "containerProc J cri s path \<longleftrightarrow>
     (\<exists>kind cid info members pid. cutStr (csContainerID s) ''://'' = Some (kind, cid) \<and> cid \<noteq> []
        \<and> cri cid = Inr info \<and> jcValue J (lookupStr info ''info'') = Inr (JObj members)
        \<and> map_of members ''pid'' = Some (JNum pid) \<and> path = ''/proc/'' @ itoaInt (float64ToInt pid) @ ''/ns/net'')"

definition containerNetns :: "json_codec \<Rightarrow> cri_client \<Rightarrow> string \<Rightarrow> string res" where
  "containerNetns J cri raw =
     (case cutStr raw ''://'' of
        None \<Rightarrow> Inl (ErrText ''invalid container ID'')
      | Some (kind, cid) \<Rightarrow>
          if cid = [] then Inl (ErrText ''invalid container ID'')
          else bindR (wrapR ''cannot get containerStatus'' (cri cid)) (\<lambda>info.
               bindR (wrapR ''cannot unmarshal containerStatus info'' (jcValue J (lookupStr info ''info''))) (\<lambda>infop.
               bindR (infoPid infop) (\<lambda>pid. Inr (''/proc/'' @ itoaInt (float64ToInt pid) @ ''/ns/net'')))))"

lemma GetPodNetNS_container:
  "GetPodNetNSPathWithContext J (Some cri) pod =
     (if podPhase pod \<noteq> ''Running'' then Inl (ErrText ''pod is not running'')
      else if podContainerStatuses pod = [] then Inl (ErrText ''no container status'')
      else if selectContainerID (podContainerStatuses pod) = [] then Inl (ErrText ''no container ID'')
      else containerNetns J cri (selectContainerID (podContainerStatuses pod)))"
  by (simp add: GetPodNetNSPathWithContext_def containerNetns_def Let_def split: option.splits)

lemma containerNetns_proc: "containerNetns J cri (csContainerID s) = Inr path \<longleftrightarrow> containerProc J cri s path"
  by (auto simp: containerNetns_def containerProc_def bindR_Inr_iff infoPid_Inr_iff split: option.splits if_splits)

lemma selected_container:
  assumes "selectContainerID sts \<noteq> []"
  obtains s where "s \<in> set sts" "selectContainerID sts = csContainerID s"
    and "(\<exists>t \<in> set sts. csRunning t \<and> csContainerID t \<noteq> []) \<longrightarrow> csRunning s"
  using selectContainerID_prefers_running [of sts] assms by metis

lemma netns_process:
  assumes "GetPodNetNSPathWithContext J (Some cri) pod = Inr path"
  shows "\<exists>s \<in> set (podContainerStatuses pod). containerProc J cri s path
    \<and> ((\<exists>t \<in> set (podContainerStatuses pod). csRunning t \<and> csContainerID t \<noteq> []) \<longrightarrow> csRunning s)"
proof -
  from assms have id: "selectContainerID (podContainerStatuses pod) \<noteq> []"
    and path: "containerNetns J cri (selectContainerID (podContainerStatuses pod)) = Inr path"
    unfolding GetPodNetNS_container by (simp_all split: if_splits)
  from id obtain s where s: "s \<in> set (podContainerStatuses pod)" "selectContainerID (podContainerStatuses pod) = csContainerID s"
    "(\<exists>t \<in> set (podContainerStatuses pod). csRunning t \<and> csContainerID t \<noteq> []) \<longrightarrow> csRunning s" by (rule selected_container)
  with path show ?thesis unfolding s(2) containerNetns_proc by blast
qed

text \<open>(C31)
  The path of the network namespace is that of the process of a container of the pod, of a running
  container whenever a running one has an ID, and the pod is running.  Conversely a path is returned for
  every running pod that has a container with an ID, when the runtime knows the process of each
  container that has one.
\<close>

theorem GetPodNetNSPath_process:
  "(GetPodNetNSPathWithContext J (Some cri) pod = Inr path \<longrightarrow>
      podPhase pod = ''Running'' \<and> (\<exists>s \<in> set (podContainerStatuses pod). containerProc J cri s path
        \<and> ((\<exists>t \<in> set (podContainerStatuses pod). csRunning t \<and> csContainerID t \<noteq> []) \<longrightarrow> csRunning s)))
   \<and> (podPhase pod = ''Running'' \<and> (\<exists>s \<in> set (podContainerStatuses pod). csContainerID s \<noteq> [])
      \<and> (\<forall>s \<in> set (podContainerStatuses pod). csContainerID s \<noteq> [] \<longrightarrow> (\<exists>q. containerProc J cri s q))
      \<longrightarrow> (\<exists>q. GetPodNetNSPathWithContext J (Some cri) pod = Inr q))"
proof (intro conjI impI; (elim conjE)?)
  let ?sts = "podContainerStatuses pod"
  assume get: "GetPodNetNSPathWithContext J (Some cri) pod = Inr path"
  show "\<exists>s \<in> set ?sts. containerProc J cri s path \<and> ((\<exists>t \<in> set ?sts. csRunning t \<and> csContainerID t \<noteq> []) \<longrightarrow> csRunning s)"
    by (rule netns_process [OF get])
  show "podPhase pod = ''Running''" using get unfolding GetPodNetNS_container by (simp split: if_splits)
next
  let ?sts = "podContainerStatuses pod"
  assume run: "podPhase pod = ''Running''" and some: "\<exists>s \<in> set ?sts. csContainerID s \<noteq> []"
    and known: "\<forall>s \<in> set ?sts. csContainerID s \<noteq> [] \<longrightarrow> (\<exists>q. containerProc J cri s q)"
  from some selectContainerID_prefers_running [of ?sts] have id: "selectContainerID ?sts \<noteq> []" by blast
  then obtain s where s: "s \<in> set ?sts" "selectContainerID ?sts = csContainerID s" by (rule selected_container)
  with id known obtain q where "containerProc J cri s q" by metis
  then have "containerNetns J cri (selectContainerID ?sts) = Inr q" unfolding s(2) containerNetns_proc .
  with run some id show "\<exists>q. GetPodNetNSPathWithContext J (Some cri) pod = Inr q"
    unfolding GetPodNetNS_container by auto
qed

section \<open>The interfaces of a pod\<close>

lemma resolvePlugins_sound:
  assumes "resolvePlugins R pod ns m = Inr m'" "\<And>k t. m k = Some t \<Longrightarrow> R k = Inr t"
  shows "m' k = Some t \<longleftrightarrow> m k = Some t \<or> k \<in> selectionKey pod ` set ns \<and> R k = Inr t"
    and "n \<in> set ns \<Longrightarrow> \<not> is_err (R (selectionKey pod n))"
proof -
  have "(\<forall>k t. m' k = Some t \<longleftrightarrow> m k = Some t \<or> k \<in> selectionKey pod ` set ns \<and> R k = Inr t)
      \<and> (\<forall>n \<in> set ns. \<not> is_err (R (selectionKey pod n)))"
    using assms
  proof (induction ns arbitrary: m)
    case (Cons n ns)
    show ?case
    proof (cases "m (selectionKey pod n)")
      case None
      then obtain t where t: "R (selectionKey pod n) = Inr t"
        and run: "resolvePlugins R pod ns (m(selectionKey pod n \<mapsto> t)) = Inr m'"
        using Cons.prems(1) by (auto simp: bindR_Inr_iff Let_def)
      have "R k = Inr u" if "(m(selectionKey pod n \<mapsto> t)) k = Some u" for k u
        using that t Cons.prems(2) by (auto split: if_splits)
      note IH = Cons.IH [OF run this]
      show ?thesis using IH t None by (auto split: if_splits)
    next
      case (Some t)
      then have run: "resolvePlugins R pod ns m = Inr m'" using Cons.prems(1) by (simp add: Let_def)
      from Cons.IH [OF run Cons.prems(2)] Cons.prems(2) [OF Some] Some show ?thesis by fastforce
    qed
  qed simp
  then show "m' k = Some t \<longleftrightarrow> m k = Some t \<or> k \<in> selectionKey pod ` set ns \<and> R k = Inr t"
    and "n \<in> set ns \<Longrightarrow> \<not> is_err (R (selectionKey pod n))" by blast+
qed

lemma set_statusInterfaces:
  assumes "[] \<notin> set plugins"
  shows "i \<in> set (statusInterfaces plugins m pod s) \<longleftrightarrow>
     m (statusKey pod s) = Some (interfaceType i) \<and> interfaceType i \<in> set plugins
   \<and> netattachName i = nsName s \<and> interfaceName i = nsInterface s \<and> ifIPs i = nsIPs s"
  using assms by (cases i) (auto simp: statusInterfaces_def pluginOf_def split: if_splits option.splits)

lemma NewPodInfo_targetE:
  assumes "NewPodInfoFromPod J pod cri host plugins R = Inr info" "IsMultiNetworkpolicyTarget pod"
  obtains nets sts m path where "podNetworks J pod = Inr (nets, sts)" "resolvePlugins R pod nets Map.empty = Inr m"
    "info = podInfoOf pod sts path (concat (map (statusInterfaces plugins m pod) sts))"
  using assms by (auto simp: NewPodInfoFromPod_def Let_def bindR_Inr_iff split: if_splits)

text \<open>(C29)
  The interfaces of a running pod: exactly those of its network status whose network was selected (by
  the annotation or by the status) and has a plugin type among the configured ones, with the name,
  type and addresses of the status, ordered by interface name.
\<close>

theorem NewPodInfo_interfaces:
  assumes "NewPodInfoFromPod J pod cri host plugins R = Inr info" "IsMultiNetworkpolicyTarget pod" "[] \<notin> set plugins"
  shows "\<exists>nets. podNetworks J pod = Inr (nets, piNetworkStatus info)
     \<and> sorted (map interfaceName (piInterfaces info))
     \<and> (\<forall>i. i \<in> set (piInterfaces info) \<longleftrightarrow>
          (\<exists>s \<in> set (piNetworkStatus info). \<exists>n \<in> set nets.
             selectionKey pod n = statusKey pod s \<and> R (statusKey pod s) = Inr (interfaceType i)
           \<and> interfaceType i \<in> set plugins
           \<and> netattachName i = nsName s \<and> interfaceName i = nsInterface s \<and> ifIPs i = nsIPs s))"
proof -
  from assms(1,2) obtain nets sts m path where run: "podNetworks J pod = Inr (nets, sts)"
    "resolvePlugins R pod nets Map.empty = Inr m"
    "info = podInfoOf pod sts path (concat (map (statusInterfaces plugins m pod) sts))"
    by (rule NewPodInfo_targetE)
  have m: "m k = Some t \<longleftrightarrow> k \<in> selectionKey pod ` set nets \<and> R k = Inr t" for k t
    using resolvePlugins_sound(1) [OF run(2)] by simp
  have one: "i \<in> set (statusInterfaces plugins m pod s) \<longleftrightarrow>
      (\<exists>n \<in> set nets. selectionKey pod n = statusKey pod s \<and> R (statusKey pod s) = Inr (interfaceType i)
        \<and> interfaceType i \<in> set plugins
        \<and> netattachName i = nsName s \<and> interfaceName i = nsInterface s \<and> ifIPs i = nsIPs s)" for i s
    unfolding set_statusInterfaces [OF assms(3)] m image_iff by metis
  show ?thesis
    by (rule exI [of _ nets]) (simp add: run podInfoOf_def sortByInterfaceName_def one)
qed

text \<open>(C30)
  Resolution fails closed: when a selected network of a running pod cannot be resolved to a plugin
  type, no \<^verbatim>\<open>PodInfo\<close> is returned at all, so that no interface silently escapes the policies.
\<close>

theorem NewPodInfo_fails_closed:
  assumes "IsMultiNetworkpolicyTarget pod" "podNetworks J pod = Inr (nets, sts)"
    and "n \<in> set nets" "R (selectionKey pod n) = Inl e"
  shows "is_err (NewPodInfoFromPod J pod cri host plugins R)"
proof (rule ccontr)
  assume "\<not> ?thesis"
  then obtain info where "NewPodInfoFromPod J pod cri host plugins R = Inr info"
    by (cases "NewPodInfoFromPod J pod cri host plugins R") auto
  then obtain m where "resolvePlugins R pod nets Map.empty = Inr m"
    using assms(1,2) by (elim NewPodInfo_targetE) auto
  from resolvePlugins_sound(2) [OF this _ assms(3)] assms(4) show False by simp
qed

text \<open>A running pod whose status names one secondary network; the decoders are given by their results.\<close>

definition exPod :: pod where
  "exPod = \<lparr>podName = ''web'', podNamespace = ''ns1'', podLabels = [(''app'', ''web'')],
     podAnnotations = [(NetworkAttachmentAnnot, ''net-a''), (NetworkStatusAnnot, ''s'')], podUID = ''u1'',
     podNodeName = ''node1'', podHostNetwork = False, podPhase = ''Running'',
     podContainerStatuses = [\<lparr>csName = ''app'', csContainerID = ''cri://7'', csRunning = True\<rparr>]\<rparr>"

definition exStatus :: network_status where
  "exStatus = \<lparr>nsName = ''ns1/net-a'', nsInterface = ''net1'', nsIPs = [''10.0.0.7''], nsDefault = False\<rparr>"

definition exCodec :: json_codec where
  "exCodec = \<lparr>jcValue = (\<lambda>t. Inr (JObj [(''pid'', JNum 4242)])), jcStatuses = (\<lambda>t. ([exStatus], None)),
     jcSelections = (\<lambda>t. Inr [])\<rparr>"

lemma exPod_networks:
  "podNetworks exCodec exPod = Inr ([\<lparr>selName = ''net-a'', selNamespace = ''ns1'', selInterface = []\<rparr>], [exStatus])"
  by (simp add: podNetworks_def exPod_def exCodec_def ParsePodNetworkAnnotation_def ParseNetworkAnnotation_def
      lookupStr_def NetworkAttachmentAnnot_def NetworkStatusAnnot_def parsePodNetworkObjectText_def trimSpace_plain
      isSpaceRune_def matchesNetworkName_def dns1123Label_def lowerAlnum_def inBytes_def withNamespace_def
      networkStatusForPod_def podNeedsNetworkStatus_def GetNetworkStatus_def)

lemma exPod_target: "IsMultiNetworkpolicyTarget exPod"
  by (simp add: IsMultiNetworkpolicyTarget_def exPod_def)

theorem NewPodInfo_interfaces_witness:
  "\<exists>info. NewPodInfoFromPod exCodec exPod None ''node1'' [''macvlan''] (\<lambda>k. Inr ''macvlan'') = Inr info
     \<and> (\<exists>i \<in> set (piInterfaces info). interfaceName i = ''net1'' \<and> ifIPs i = [''10.0.0.7''])"
proof -
  have key: "statusKey exPod exStatus = (''ns1'', ''net-a'')"
    by (simp add: statusKey_def exStatus_def exPod_def trimSpace_plain isSpaceRune_def)
  obtain info where run: "NewPodInfoFromPod exCodec exPod None ''node1'' [''macvlan''] (\<lambda>k. Inr ''macvlan'') = Inr info"
    by (simp add: NewPodInfoFromPod_def exPod_target exPod_networks Let_def)
  then have st: "piNetworkStatus info = [exStatus]"
    by (auto simp: NewPodInfoFromPod_def exPod_target exPod_networks Let_def podInfoOf_def)
  have "\<lparr>netattachName = ''ns1/net-a'', interfaceName = ''net1'', interfaceType = ''macvlan'', ifIPs = [''10.0.0.7'']\<rparr>
      \<in> set (piInterfaces info)"
    using NewPodInfo_interfaces [OF run exPod_target]
    by (simp add: st exPod_networks key selectionKey_def) (simp add: exStatus_def)
  then show ?thesis using run by (intro exI [of _ info]) force
qed

theorem NewPodInfo_fails_closed_witness:
  "is_err (NewPodInfoFromPod exCodec exPod None ''node1'' [''macvlan''] (\<lambda>k. Inl ErrNotExist))"
  by (rule NewPodInfo_fails_closed [OF exPod_target exPod_networks]) simp_all

text \<open>A pod with a stopped and a running container.\<close>

definition exCrew :: "bool \<Rightarrow> container_status list" where
  "exCrew stopped = [\<lparr>csName = ''init'', csContainerID = ''cri://6'', csRunning = \<not> stopped\<rparr>,
     \<lparr>csName = ''app'', csContainerID = ''cri://7'', csRunning = True\<rparr>]"

lemma exCrew_proc: "s \<in> set (exCrew stopped) \<Longrightarrow> containerProc exCodec (\<lambda>cid. Inr []) s (''/proc/'' @ itoaInt 4242 @ ''/ns/net'')"
  by (auto simp: exCrew_def containerProc_def exCodec_def float64ToInt_def hasPrefix_def)

theorem GetPodNetNSPath_process_witness:
  "\<exists>q. GetPodNetNSPathWithContext exCodec (Some (\<lambda>cid. Inr [])) (exPod\<lparr>podContainerStatuses := exCrew True\<rparr>) = Inr q
     \<and> containerProc exCodec (\<lambda>cid. Inr []) \<lparr>csName = ''app'', csContainerID = ''cri://7'', csRunning = True\<rparr> q"
proof -
  let ?pod = "exPod\<lparr>podContainerStatuses := exCrew True\<rparr>"
  note path = GetPodNetNSPath_process [of exCodec "\<lambda>cid. Inr []" ?pod]
  have "podPhase ?pod = ''Running''" "\<exists>s \<in> set (podContainerStatuses ?pod). csContainerID s \<noteq> []"
    by (simp_all add: exPod_def exCrew_def)
  then obtain q where q: "GetPodNetNSPathWithContext exCodec (Some (\<lambda>cid. Inr [])) ?pod = Inr q"
    using path exCrew_proc by fastforce
  with path [of q] show ?thesis by (intro exI [of _ q]) (auto simp: exCrew_def)
qed

end
