(* ===== verification/Encoder.thy ===== *)
theory Encoder
  imports Netlink
begin

text \<open>
  \<^verbatim>\<open>pkg/server/encoder.go\<close>: the 32-bit key of a rule (from which stale rules are recognised) and
  of a name.  Strings are encoded by gob exactly as \<open>gobString\<close>; the encoding of the expression and
  \<^verbatim>\<open>ruleData\<close> structs is the environment's \<open>envGob\<close>.
\<close>

definition hashBytes :: "byte list \<Rightarrow> string" where
  "hashBytes bs = hexOf (unat (fnv32a bs))"

definition hashString :: "string \<Rightarrow> string" where
  "hashString s = hashBytes (gobString s)"

definition hashVal :: "nft_env \<Rightarrow> gobval \<Rightarrow> string res" where
  "hashVal E v =
     bindR (wrapR ''failed to encode struct'' (envGob E v)) (\<lambda>bs. Inr (hashBytes bs))"

text \<open>The expression types that take part in the key: counters and foreign expressions do not.\<close>

fun keyedExpr :: "nft_expr \<Rightarrow> bool" where
  "keyedExpr (Counter _ _) = False"
| "keyedExpr (OtherExpr _) = False"
| "keyedExpr _ = True"

fun hashExprs :: "nft_env \<Rightarrow> nft_expr list \<Rightarrow> string list res" where
  "hashExprs E [] = Inr []"
| "hashExprs E (e # es) =
     (if keyedExpr e then
        bindR (wrapR ''failed to hash expression'' (hashVal E (GobExpr e)))
          (\<lambda>v. bindR (hashExprs E es) (\<lambda>vs. Inr (v # vs)))
      else hashExprs E es)"

definition newRuleData :: "nft_env \<Rightarrow> rule \<Rightarrow> ruleData res" where
  "newRuleData E r =
     bindR (hashExprs E (rExprs r)) (\<lambda>vs.
       Inr \<lparr>rdTable = tName (rTable r), rdChain = rChain r, rdFamily = tFamily (rTable r),
            rdUserData = rUserData r, rdExprs = vs\<rparr>)"

definition hashRule :: "nft_env \<Rightarrow> rule \<Rightarrow> string res" where
  "hashRule E r =
     bindR (wrapR ''failed to prepare rule data'' (newRuleData E r)) (\<lambda>d. hashVal E (GobRule d))"

section \<open>Facts about them\<close>

lemma length_hashBytes: "length (hashBytes bs) \<le> 8"
  unfolding hashBytes_def
  by (rule length_hexOf_le) (use unsigned_less [of "fnv32a bs", where 'a = nat] in simp_all)

lemma length_hashString: "length (hashString s) \<le> 8"
  by (simp add: hashString_def length_hashBytes)

lemma hashBytes_valid: "c \<in> set (hashBytes bs) \<Longrightarrow> validNftChar c"
  unfolding hashBytes_def by (blast intro: isHexChar_valid isHexChar_hexOf)

lemma hashBytes_nonempty: "hashBytes bs \<noteq> []"
  by (simp add: hashBytes_def)

lemma hashExprs_filter: "hashExprs E es = hashExprs E (filter keyedExpr es)"
  by (induction es) auto

text \<open>
  The key depends on the table, the chain, the user data and the keyed expressions only: not on the
  handle, the transaction ID or the counters.
\<close>

lemma hashRule_cong:
  assumes "rTable r = rTable r'" "rChain r = rChain r'" "rUserData r = rUserData r'"
    and "filter keyedExpr (rExprs r) = filter keyedExpr (rExprs r')"
  shows "hashRule E r = hashRule E r'"
  using assms hashExprs_filter [of E "rExprs r"] hashExprs_filter [of E "rExprs r'"]
  by (simp add: hashRule_def newRuleData_def)

end
