(* ===== verification/Nft_State.thy ===== *)
theory Nft_State
  imports Encoder
begin

text \<open>
  \<^verbatim>\<open>nftState\<close> of \<^verbatim>\<open>netfilterrules.go\<close> and its bookkeeping operations: finding, adding and
  replacing rules, synchronising sets, creating chains, and the final removal of everything this
  run did not touch.
\<close>

record nftState =
  nft :: conn
  nFilter :: table
  nNat :: table
  interfaceFilterSet :: nft_set
  interfaceNatSet :: nft_set
  nInput :: chain
  nOutput :: chain
  nPrerouting :: chain
  nIngressChain :: chain
  nEgressChain :: chain
  commonIngressChain :: chain
  commonEgressChain :: chain
  nRules :: "string \<Rightarrow> rule option"
  nSets :: "string \<Rightarrow> nft_set option"
  nChains :: "string \<Rightarrow> chain option"

text \<open>
  The struct literal of \<^verbatim>\<open>bootstrapNetfilterRules\<close>: empty maps, and pointers that are still nil, which
  the bootstrap assigns before anything reads them.
\<close>

definition nilChain :: "table \<Rightarrow> chain" where
  "nilChain t = \<lparr>cName = [], cTable = t, cHook = None, cPriority = None, cType = []\<rparr>"

definition nilSet :: "table \<Rightarrow> nft_set" where
  "nilSet t = \<lparr>sTable = t, sID = 0, sName = [], sAnonymous = False, sConstant = False,
     sInterval = False, sCounter = False, sKeyType = TypeOtherKey 0, sKeyNative = False, sComment = []\<rparr>"

definition newNftState :: "conn \<Rightarrow> table \<Rightarrow> table \<Rightarrow> nftState" where
  "newNftState c filterT natT =
     \<lparr>nft = c, nFilter = filterT, nNat = natT, interfaceFilterSet = nilSet filterT,
      interfaceNatSet = nilSet natT, nInput = nilChain filterT, nOutput = nilChain filterT,
      nPrerouting = nilChain natT, nIngressChain = nilChain filterT, nEgressChain = nilChain filterT,
      commonIngressChain = nilChain filterT, commonEgressChain = nilChain filterT,
      nRules = Map.empty, nSets = Map.empty, nChains = Map.empty\<rparr>"

definition onConn :: "(conn, 'a) em \<Rightarrow> (nftState, 'a) em" where
  "onConn m = (\<lambda>n. case m (nft n) of (r, c) \<Rightarrow> (r, n\<lparr>nft := c\<rparr>))"

section \<open>Rules\<close>

text \<open>The type switch of \<^verbatim>\<open>ruleEqual\<close> with \<^verbatim>\<open>exprEqual\<close>: same dynamic type and deeply equal.\<close>

fun exprEqual :: "nft_expr \<Rightarrow> nft_expr \<Rightarrow> bool" where
  "exprEqual (Counter _ _) b = (case b of Counter _ _ \<Rightarrow> True | _ \<Rightarrow> False)"
| "exprEqual (OtherExpr _) b = False"
| "exprEqual a b = (a = b)"

definition ruleEqual :: "rule \<Rightarrow> rule \<Rightarrow> bool" where
  "ruleEqual a b =
     (if rChain a \<noteq> rChain b then False
      else if tName (rTable a) \<noteq> tName (rTable b) then False
      else if length (rExprs a) \<noteq> length (rExprs b) then False
      else if rUserData a \<noteq> rUserData b then False
      else list_all2 exprEqual (rExprs a) (rExprs b))"

text \<open>The last equal rule of the chain wins; more than one is only logged.\<close>

definition findRule :: "nft_env \<Rightarrow> rule \<Rightarrow> (nftState, rule option) em" where
  "findRule E r =
     bindM (wrapM ''failed to list rules'' (onConn (GetRules E (rTable r) (rChain r)))) (\<lambda>rules.
       let eqs = filter (ruleEqual r) rules in
       retM (if eqs = [] then None else Some (last eqs)))"

definition isCounter :: "nft_expr \<Rightarrow> bool" where
  "isCounter e = (case e of Counter _ _ \<Rightarrow> True | _ \<Rightarrow> False)"

fun replaceFirst :: "('a \<Rightarrow> bool) \<Rightarrow> 'a \<Rightarrow> 'a list \<Rightarrow> 'a list" where
  "replaceFirst P y [] = []"
| "replaceFirst P y (x # xs) = (if P x then y # xs else x # replaceFirst P y xs)"

text \<open>The forced update keeps the packet counter of the rule it replaces.\<close>

definition copyCounter :: "nft_expr list \<Rightarrow> nft_expr list \<Rightarrow> nft_expr list" where
  "copyCounter existing es =
     (case find isCounter existing of None \<Rightarrow> es | Some c \<Rightarrow> replaceFirst isCounter c es)"

definition recordRule :: "nft_env \<Rightarrow> rule \<Rightarrow> (nftState, unit) em" where
  "recordRule E r =
     bindM (wrapM ''failed to get hash for rule'' (liftR (hashRule E r))) (\<lambda>key.
       modifyM (\<lambda>n. n\<lparr>nRules := (nRules n)(key \<mapsto> r)\<rparr>))"

definition updateRule ::
  "nft_env \<Rightarrow> rule \<Rightarrow> (rule \<Rightarrow> (conn, rule) em) \<Rightarrow> bool \<Rightarrow> (nftState, bool) em" where
  "updateRule E r action forceUpdate =
     bindM (liftR (udGetString (rUserData r) TypeComment)) (\<lambda>comment.
     bindM (wrapM ''failed to get rule by comment'' (findRule E r)) (\<lambda>existing.
       case existing of
         Some r0 \<Rightarrow>
           (if \<not> forceUpdate then thenM (recordRule E r0) (retM False)
            else
              thenM (wrapM ''failed to delete existing rule'' (onConn (connDelRule r0)))
                (bindM (onConn (action (r\<lparr>rExprs := copyCounter (rExprs r0) (rExprs r)\<rparr>)))
                  (\<lambda>r1. thenM (recordRule E r1) (retM False))))
       | None \<Rightarrow> bindM (onConn (action r)) (\<lambda>r1. thenM (recordRule E r1) (retM True))))"

section \<open>Sets\<close>

definition isPresent :: "set_element \<Rightarrow> set_element list \<Rightarrow> bool" where
  "isPresent toCheck elements = list_ex (\<lambda>e. eKey toCheck = eKey e) elements"

definition findNonCommon :: "set_element list \<Rightarrow> set_element list \<Rightarrow> set_element list" where
  "findNonCommon a b = filter (\<lambda>e. \<not> isPresent e b) a"

definition processElements ::
  "set_element list \<Rightarrow> set_element list \<Rightarrow> set_element list \<times> set_element list" where
  "processElements newEls existingEls =
     (findNonCommon newEls existingEls, findNonCommon existingEls newEls)"

definition setKey :: "table \<Rightarrow> string \<Rightarrow> string" where
  "setKey t name = tName t @ ''-'' @ name"

definition recordSet :: "string \<Rightarrow> nft_set \<Rightarrow> (nftState, unit) em" where
  "recordSet key s = modifyM (\<lambda>n. n\<lparr>nSets := (nSets n)(key \<mapsto> s)\<rparr>)"

text \<open>Kernel names of chains and sets: longer than 31 bytes means hashed.\<close>

definition shortName :: "string \<Rightarrow> string" where
  "shortName name = (if 31 < length name then hashString name else name)"

definition syncSet :: "nft_env \<Rightarrow> nft_set \<Rightarrow> set_element list \<Rightarrow> (nftState, unit) em" where
  "syncSet E existingSet elements =
     bindM (tryM (onConn (GetSetElements E existingSet))) (\<lambda>got.
       case got of
         Inl _ \<Rightarrow> throwM (ErrText ''failed to get elements for set'')
       | Inr existingElements \<Rightarrow>
           (let (toAdd, toDel) = processElements elements existingElements in
            thenM (whenM (toDel \<noteq> [])
                     (wrapM ''failed to remove elements from set''
                        (onConn (connSetDeleteElements existingSet toDel))))
                  (whenM (toAdd \<noteq> [])
                     (wrapM ''failed to add elements to set''
                        (onConn (connSetAddElements existingSet toAdd))))))"

text \<open>Returns the set as the caller's pointer sees it afterwards: with its kernel name and its ID.\<close>

definition updateSet :: "nft_env \<Rightarrow> nft_set \<Rightarrow> set_element list \<Rightarrow> (nftState, nft_set) em" where
  "updateSet E set0 elements =
     (let set = set0\<lparr>sName := shortName (sName set0)\<rparr>; key = setKey (sTable set) (sName set) in
      bindM (tryM (onConn (GetSetByName E (sTable set) (sName set)))) (\<lambda>got.
        case got of
          Inl e \<Rightarrow>
            (if \<not> errorsIs e ErrNotExist then throwM (ErrWrap ''failed to get set'' e)
             else bindM (wrapM ''failed to add set'' (onConn (connAddSet set elements))) (\<lambda>s.
                    thenM (recordSet key s) (retM s)))
        | Inr existingSet \<Rightarrow>
            thenM (syncSet E existingSet elements) (thenM (recordSet key existingSet) (retM set))))"

section \<open>Chains\<close>

definition chainID :: "chain \<Rightarrow> string" where
  "chainID c = tName (cTable c) @ ''-'' @ cName c"

definition recordChain :: "chain \<Rightarrow> (nftState, chain) em" where
  "recordChain c = thenM (modifyM (\<lambda>n. n\<lparr>nChains := (nChains n)(chainID c \<mapsto> c)\<rparr>)) (retM c)"

text \<open>\<^verbatim>\<open>ListChain\<close> returns a nil chain with every error.\<close>

definition addChain :: "nft_env \<Rightarrow> chain \<Rightarrow> (nftState, chain) em" where
  "addChain E chain0 =
     (let chain = chain0\<lparr>cName := shortName (cName chain0)\<rparr> in
      bindM (tryM (onConn (ListChain E (cTable chain) (cName chain)))) (\<lambda>got.
        let err = (case got of Inl e \<Rightarrow> Some e | Inr _ \<Rightarrow> None);
            existing = (case got of Inl _ \<Rightarrow> None | Inr c \<Rightarrow> Some c) in
        case existing of
          None \<Rightarrow> bindM (onConn (connAddChain chain)) recordChain
        | Some c \<Rightarrow>
            (case err of
               Some e \<Rightarrow>
                 (if errorsIs e ErrNotExist then bindM (onConn (connAddChain chain)) recordChain
                  else if \<not> errorsIs e ErrExist then
                    throwM (ErrWrap ''failed to configure chain'' e)
                  else recordChain c)
             | None \<Rightarrow> recordChain c)))"

section \<open>Cleanup\<close>

text \<open>The accumulator is the pair of \<^verbatim>\<open>performFlush\<close> and \<^verbatim>\<open>cleanupErrs\<close>.\<close>

type_synonym cleanup_acc = "bool \<times> go_error list"

definition tryDelRule :: "string \<Rightarrow> cleanup_acc \<Rightarrow> rule \<Rightarrow> (nftState, cleanup_acc) em" where
  "tryDelRule msg acc r =
     bindM (liftR (udGetString (rUserData r) TypeComment)) (\<lambda>_.
       bindM (tryM (onConn (connDelRule r))) (\<lambda>d.
         retM (case d of Inl e \<Rightarrow> (fst acc, snd acc @ [ErrWrap msg e]) | Inr _ \<Rightarrow> (True, snd acc))))"

definition cleanupRule :: "nft_env \<Rightarrow> cleanup_acc \<Rightarrow> rule \<Rightarrow> (nftState, cleanup_acc) em" where
  "cleanupRule E acc r =
     (case hashRule E r of
        Inl _ \<Rightarrow> tryDelRule ''delete unhashable rule'' acc r
      | Inr key \<Rightarrow>
          bindM getM (\<lambda>n.
            if nRules n key = None then tryDelRule ''delete rule'' acc r else retM acc))"

definition cleanupChainRules ::
  "nft_env \<Rightarrow> table \<Rightarrow> cleanup_acc \<Rightarrow> chain \<Rightarrow> (nftState, cleanup_acc) em" where
  "cleanupChainRules E table acc chain =
     (if tName (cTable chain) = tName table then
        bindM (wrapM ''failed to list rules'' (onConn (GetRules E table (cName chain))))
          (\<lambda>rules. foldM (cleanupRule E) acc rules)
      else retM acc)"

definition cleanupSet :: "bool \<Rightarrow> nft_set \<Rightarrow> (nftState, bool) em" where
  "cleanupSet performFlush s =
     bindM getM (\<lambda>n.
       if nSets n (setKey (sTable s) (sName s)) = None \<and> \<not> sAnonymous s
       then thenM (onConn (connDelSet s)) (retM True) else retM performFlush)"

definition cleanupRules :: "nft_env \<Rightarrow> table \<Rightarrow> (nftState, unit) em" where
  "cleanupRules E table =
     bindM (wrapM ''failed to list chains'' (onConn (ListChainsOfTableFamily E (tFamily table))))
       (\<lambda>chains.
     bindM (foldM (cleanupChainRules E table) (False, []) chains) (\<lambda>acc.
     bindM (wrapM ''failed to list sets'' (onConn (GetSets E table))) (\<lambda>sets.
     bindM (foldM cleanupSet (fst acc) sets) (\<lambda>performFlush.
     thenM (whenM performFlush
              (wrapM ''failed to flush rules/sets cleanup'' (onConn (connFlush E))))
           (if snd acc \<noteq> [] then throwM (ErrJoin (snd acc)) else retM ())))))"

definition cleanupChain :: "nft_env \<Rightarrow> bool \<Rightarrow> chain \<Rightarrow> (nftState, bool) em" where
  "cleanupChain E performFlush chain =
     bindM getM (\<lambda>n.
       if tName (cTable chain) \<noteq> tName (nFilter n) \<and> tName (cTable chain) \<noteq> tName (nNat n)
       then retM performFlush
       else
         bindM (wrapM ''failed to get rules'' (onConn (GetRules E (cTable chain) (cName chain))))
           (\<lambda>rules.
             if nChains n (chainID chain) = None \<and> rules = []
             then thenM (onConn (connDelChain chain)) (retM True) else retM performFlush))"

definition cleanupChains :: "nft_env \<Rightarrow> (nftState, unit) em" where
  "cleanupChains E =
     bindM (wrapM ''failed to list chains'' (onConn (ListChainsOfTableFamily E TableFamilyINet)))
       (\<lambda>chains.
     bindM (foldM (cleanupChain E) False chains) (\<lambda>performFlush.
       whenM performFlush (wrapM ''failed to flush chains cleanup'' (onConn (connFlush E)))))"

definition forgetAll :: "nftState \<Rightarrow> nftState" where
  "forgetAll n = n\<lparr>nRules := Map.empty, nSets := Map.empty, nChains := Map.empty\<rparr>"

text \<open>The deferred reset of the three maps runs on every path.\<close>

definition cleanup :: "nft_env \<Rightarrow> (nftState, unit) em" where
  "cleanup E =
     (\<lambda>n0. case bindM getM (\<lambda>n.
         thenM (wrapM ''failed to cleanup table'' (cleanupRules E (nFilter n)))
           (thenM (wrapM ''failed to cleanup table'' (cleanupRules E (nNat n)))
              (wrapM ''failed to cleanup chains'' (cleanupChains E)))) n0
       of (r, n1) \<Rightarrow> (r, forgetAll n1))"

section \<open>Frames\<close>

definition quietN :: "nftState \<Rightarrow> nftState \<Rightarrow> bool" where
  "quietN n n' \<longleftrightarrow> quietC (nft n) (nft n')"

interpretation quietS: frame quietN
  by unfold_locales (auto simp: quietN_def intro: quiet.frame_refl quiet.frame_trans)

lemma onConn_apply: "onConn m n = (fst (m (nft n)), n\<lparr>nft := snd (m (nft n))\<rparr>)"
  by (simp add: onConn_def split: prod.splits)

lemma keeps_onConn: "keeps quietC m \<Longrightarrow> keeps quietN (onConn m)"
  by (simp add: keeps_def onConn_apply quietN_def)

lemma keeps_modifyN: "(\<And>n. nft (f n) = nft n) \<Longrightarrow> keeps quietN (modifyM f)"
  by (simp add: keeps_def quietN_def quietC_def)

lemma keeps_records:
  "keeps quietN (recordRule E r)" "keeps quietN (recordSet key s)" "keeps quietN (recordChain c)"
  unfolding recordRule_def recordSet_def recordChain_def
  by (auto intro!: frame_intros keeps_modifyN)

lemma keeps_findRule: "keeps quietN (findRule E r)"
  unfolding findRule_def Let_def by (intro frame_intros keeps_onConn keeps_conn)

lemma keeps_updateRule:
  assumes "\<And>r. keeps quietC (action r)"
  shows "keeps quietN (updateRule E r action force)"
  unfolding updateRule_def
  by (intro frame_intros keeps_findRule)
    (auto split: option.splits intro!: frame_intros keeps_records keeps_onConn keeps_conn assms)

lemma keeps_updateSet: "keeps quietN (updateSet E s els)"
  unfolding updateSet_def syncSet_def Let_def
  by (auto split: sum.splits prod.splits
      intro!: frame_intros keeps_records keeps_onConn keeps_conn)

lemma keeps_addChain: "keeps quietN (addChain E c)"
  unfolding addChain_def Let_def
  by (auto split: sum.splits option.splits
      intro!: frame_intros keeps_records keeps_onConn keeps_conn)

lemmas keeps_state = keeps_updateRule keeps_updateSet keeps_addChain keeps_records keeps_findRule

section \<open>Rule equality\<close>

text \<open>What \<^verbatim>\<open>ruleEqual\<close> compares of an expression: everything but the counter values.\<close>

fun eraseCounter :: "nft_expr \<Rightarrow> nft_expr" where
  "eraseCounter (Counter _ _) = zeroCounter"
| "eraseCounter e = e"

definition ownExpr :: "nft_expr \<Rightarrow> bool" where
  "ownExpr e = (case e of OtherExpr _ \<Rightarrow> False | _ \<Rightarrow> True)"

lemma exprEqual_iff: "exprEqual a b \<longleftrightarrow> ownExpr a \<and> eraseCounter a = eraseCounter b"
  by (cases a; cases b) (auto simp: ownExpr_def)

lemma list_all2_exprEqual:
  "list_all2 exprEqual as bs \<longleftrightarrow> list_all ownExpr as \<and> map eraseCounter as = map eraseCounter bs"
  by (induction as arbitrary: bs) (auto simp: exprEqual_iff list_all2_Cons1 Cons_eq_map_conv)

lemma ruleEqual_iff:
  "ruleEqual a b \<longleftrightarrow>
     rChain a = rChain b \<and> tName (rTable a) = tName (rTable b) \<and> rUserData a = rUserData b
     \<and> list_all ownExpr (rExprs a)
     \<and> map eraseCounter (rExprs a) = map eraseCounter (rExprs b)"
  unfolding ruleEqual_def list_all2_exprEqual by (auto dest: map_eq_imp_length_eq)

lemma keyed_erase: "eraseCounter a = eraseCounter b \<Longrightarrow> keyedExpr a = keyedExpr b \<and> (keyedExpr a \<longrightarrow> a = b)"
  by (cases a; cases b) auto

lemma filter_keyed_erase:
  "map eraseCounter as = map eraseCounter bs \<Longrightarrow> filter keyedExpr as = filter keyedExpr bs"
  using map_eq_imp_length_eq [of eraseCounter as eraseCounter bs]
  by (induction as bs rule: list_induct2') (auto dest: keyed_erase)

lemma ownExpr_erase: "eraseCounter a = eraseCounter b \<Longrightarrow> ownExpr a = ownExpr b"
  by (cases a; cases b) (auto simp: ownExpr_def)

lemma list_all_ownExpr_erase:
  "map eraseCounter as = map eraseCounter bs \<Longrightarrow> list_all ownExpr as = list_all ownExpr bs"
  using map_eq_imp_length_eq [of eraseCounter as eraseCounter bs]
  by (induction as bs rule: list_induct2') (auto dest: ownExpr_erase)

text \<open>
  Rule equality is symmetric and transitive, ignores exactly the counter values, is reflexive on
  rules built from the expression types the daemon uses, and never holds between rules with
  different cleanup keys: a rule that is kept because it equals a wanted one has the wanted key.
\<close>

lemma ruleEqual_per:
  "(ruleEqual a b \<longrightarrow> ruleEqual b a)
   \<and> (ruleEqual a b \<longrightarrow> ruleEqual b c \<longrightarrow> ruleEqual a c)
   \<and> (ruleEqual a a \<longleftrightarrow> list_all ownExpr (rExprs a))
   \<and> (ruleEqual a b \<longrightarrow> tFamily (rTable a) = tFamily (rTable b) \<longrightarrow> hashRule E a = hashRule E b)"
proof (intro conjI impI)
  show "ruleEqual b a" if "ruleEqual a b"
    using that list_all_ownExpr_erase [of "rExprs a" "rExprs b"] by (simp add: ruleEqual_iff)
  show "ruleEqual a c" if "ruleEqual a b" "ruleEqual b c"
    using that by (simp add: ruleEqual_iff)
  show "ruleEqual a a \<longleftrightarrow> list_all ownExpr (rExprs a)"
    by (simp add: ruleEqual_iff)
  show "hashRule E a = hashRule E b" if "ruleEqual a b" "tFamily (rTable a) = tFamily (rTable b)"
    using that filter_keyed_erase [of "rExprs a" "rExprs b"]
      hashExprs_filter [of E "rExprs a"] hashExprs_filter [of E "rExprs b"]
    by (simp add: ruleEqual_iff hashRule_def newRuleData_def)
qed

lemma ruleEqual_per_witness:
  defines "t \<equiv> \<lparr>tName = FilterTableName, tFamily = 1\<rparr>"
  defines "r \<equiv> \<lambda>p. newRuleOf t (nilChain t) ''drop-remaining'' [Counter p 0, Verdict VerdictDrop []]"
  shows "ruleEqual (r 7) (r 0) \<and> ruleEqual (r 7) (r 9) \<and> r 7 \<noteq> r 9
    \<and> hashRule (idealEnv (\<lambda>_. [])) (r 7) = hashRule (idealEnv (\<lambda>_. [])) (r 9)"
proof -
  have own: "ruleEqual (r 7) (r 7)" "ruleEqual (r 0) (r 7)" "ruleEqual (r 0) (r 9)"
    by (simp_all add: r_def ruleEqual_def newRuleOf_def)
  have "r 7 \<noteq> r 9" by (simp add: r_def newRuleOf_def)
  moreover have "tFamily (rTable (r 7)) = tFamily (rTable (r 9))" by (simp add: r_def newRuleOf_def)
  ultimately show ?thesis
    using own ruleEqual_per [of "r 0" "r 7" "r 9" "idealEnv (\<lambda>_. [])"]
      ruleEqual_per [of "r 7" "r 0" "r 9" "idealEnv (\<lambda>_. [])"]
      ruleEqual_per [of "r 7" "r 9" "r 9" "idealEnv (\<lambda>_. [])"]
    by blast
qed

end
