(* ===== verification/Nft_Sync.thy ===== *)
theory Nft_Sync
  imports Nft_State
begin

text \<open>
  What the synchronising operations of \<^verbatim>\<open>nftState\<close> promise to the rule generator: \<^verbatim>\<open>updateRule\<close>
  queues a rule only when the chain has no equal one, \<^verbatim>\<open>updateSet\<close> makes the kernel's set have
  exactly the wanted keys, \<^verbatim>\<open>addChain\<close> always delivers a chain with a name the kernel accepts.
\<close>

section \<open>Differences of element lists\<close>

definition elemId :: "set_element \<Rightarrow> byte list \<times> bool" where
  "elemId e = (eKey e, eIntervalEnd e)"

lemma fst_elemId [simp]: "fst (elemId e) = eKey e"
  by (simp add: elemId_def)

lemma elemEq_iff: "elemEq a b \<longleftrightarrow> elemId a = elemId b"
  by (simp add: elemEq_def elemId_def)

lemma isPresent_iff: "isPresent e es \<longleftrightarrow> eKey e \<in> eKey ` set es"
  by (auto simp: isPresent_def list_ex_iff)

lemma set_findNonCommon: "set (findNonCommon a b) = {e \<in> set a. eKey e \<notin> eKey ` set b}"
  by (auto simp: findNonCommon_def isPresent_iff)

lemma ids_addElems: "elemId ` set (addElems es xs) = elemId ` set es \<union> elemId ` set xs"
proof (induction xs arbitrary: es)
  case (Cons x xs)
  show ?case
  proof (cases "\<exists>e \<in> set es. elemEq e x")
    case True
    then obtain e where "e \<in> set es" "elemId e = elemId x" unfolding elemEq_iff by blast
    then have "elemId x \<in> elemId ` set es" using imageI [of e "set es" elemId] by simp
    moreover have "addElems es (x # xs) = addElems es xs" by (simp only: addElems.simps True if_True)
    ultimately show ?thesis by (simp add: Cons.IH insert_absorb del: addElems.simps)
  next
    case False
    then have "addElems es (x # xs) = addElems (es @ [x]) xs"
      by (simp only: addElems.simps if_False)
    then show ?thesis by (simp add: Cons.IH del: addElems.simps)
  qed
qed simp

lemma keys_of_ids: "eKey ` S = fst ` elemId ` S"
  by (simp add: image_image)

lemma keys_addElems: "eKey ` set (addElems es xs) = eKey ` set es \<union> eKey ` set xs"
  unfolding keys_of_ids ids_addElems by (simp add: image_Un)

lemma set_delElems: "set (delElems es xs) = {e \<in> set es. elemId e \<notin> elemId ` set xs}"
  by (force simp: delElems_def elemEq_iff image_iff)

text \<open>Old elements survive exactly when their key is wanted.\<close>

lemma set_delElems_processed:
  "set (delElems old (snd (processElements new old))) = {e \<in> set old. eKey e \<in> eKey ` set new}"
proof -
  have "elemId e \<in> elemId ` {x \<in> set old. eKey x \<notin> K} \<longleftrightarrow> eKey e \<notin> K" if "e \<in> set old" for e K
    using that by (auto simp: elemId_def)
  then show ?thesis
    unfolding processElements_def snd_conv set_delElems set_findNonCommon by auto
qed

definition syncElems :: "set_element list \<Rightarrow> set_element list \<Rightarrow> set_element list" where
  "syncElems new old =
     (let (toAdd, toDel) = processElements new old in addElems (delElems old toDel) toAdd)"

lemma syncElems_ids:
  "elemId ` set (syncElems new old) =
     elemId ` {e \<in> set old. eKey e \<in> eKey ` set new} \<union> elemId ` {e \<in> set new. eKey e \<notin> eKey ` set old}"
  unfolding syncElems_def
  using set_delElems_processed [of old new]
  by (simp add: processElements_def ids_addElems set_findNonCommon)

lemma syncElems_keys: "eKey ` set (syncElems new old) = eKey ` set new"
  unfolding keys_of_ids syncElems_ids unfolding image_Un keys_of_ids [symmetric]
proof
  show "eKey ` set new \<subseteq> eKey ` {e \<in> set old. eKey e \<in> eKey ` set new}
     \<union> eKey ` {e \<in> set new. eKey e \<notin> eKey ` set old}"
  proof
    fix k assume k: "k \<in> eKey ` set new"
    show "k \<in> eKey ` {e \<in> set old. eKey e \<in> eKey ` set new}
       \<union> eKey ` {e \<in> set new. eKey e \<notin> eKey ` set old}"
      by (cases "k \<in> eKey ` set old") (use k in blast)+
  qed
qed auto

text \<open>(C25)
  Synchronising a set with \<^verbatim>\<open>processElements\<close>: when the computed deletions and additions are
  applied to the elements the kernel has, the keys of the result are exactly the wanted keys, no
  key is both deleted and added, and nothing is done exactly when the keys already agree.
\<close>

theorem processElements_converges:
  "eKey ` set (addElems (delElems old (snd (processElements new old))) (fst (processElements new old)))
     = eKey ` set new
   \<and> eKey ` set (fst (processElements new old)) \<inter> eKey ` set (snd (processElements new old)) = {}
   \<and> (processElements new old = ([], []) \<longleftrightarrow> eKey ` set new = eKey ` set old)"
proof (intro conjI)
  show "eKey ` set (addElems (delElems old (snd (processElements new old))) (fst (processElements new old)))
     = eKey ` set new"
    using syncElems_keys [of new old] by (simp add: syncElems_def case_prod_beta)
  show "eKey ` set (fst (processElements new old)) \<inter> eKey ` set (snd (processElements new old)) = {}"
    by (auto simp: processElements_def set_findNonCommon)
  show "processElements new old = ([], []) \<longleftrightarrow> eKey ` set new = eKey ` set old"
    unfolding processElements_def findNonCommon_def prod.inject filter_empty_conv not_not
      isPresent_iff by blast
qed

text \<open>(C40)
  The interval flag takes no part in the comparison.  When the interval of a set moves to the adjacent
  one, so that the new start has the key of the old end, the synchronisation keeps the old end element
  in place of the new start: the set is left without any start element and matches nothing.
\<close>

theorem adjacent_interval_lost:
  assumes "a \<noteq> b" "b \<noteq> c" "a \<noteq> c"
  shows "syncElems [\<lparr>eKey = b, eIntervalEnd = False, eComment = x\<rparr>, \<lparr>eKey = c, eIntervalEnd = True, eComment = y\<rparr>]
      [\<lparr>eKey = a, eIntervalEnd = False, eComment = x\<rparr>, \<lparr>eKey = b, eIntervalEnd = True, eComment = y\<rparr>]
     = [\<lparr>eKey = b, eIntervalEnd = True, eComment = y\<rparr>, \<lparr>eKey = c, eIntervalEnd = True, eComment = y\<rparr>]"
  using assms
  by (simp add: syncElems_def processElements_def findNonCommon_def isPresent_def delElems_def elemEq_def)

theorem adjacent_interval_lost_witness:
  "syncElems [\<lparr>eKey = [10, 0, 1, 0], eIntervalEnd = False, eComment = []\<rparr>, \<lparr>eKey = [10, 0, 2, 0], eIntervalEnd = True, eComment = []\<rparr>]
      [\<lparr>eKey = [10, 0, 0, 0], eIntervalEnd = False, eComment = []\<rparr>, \<lparr>eKey = [10, 0, 1, 0], eIntervalEnd = True, eComment = []\<rparr>]
     = [\<lparr>eKey = [10, 0, 1, 0], eIntervalEnd = True, eComment = []\<rparr>, \<lparr>eKey = [10, 0, 2, 0], eIntervalEnd = True, eComment = []\<rparr>]"
  by (rule adjacent_interval_lost) simp_all

section \<open>Sets\<close>

text \<open>A read that fails says that an object is missing only when it is.\<close>

definition honestFaults :: "nft_env \<Rightarrow> bool" where
  "honestFaults E \<longleftrightarrow> (\<forall>q rs e. envFault E q rs = Some e \<longrightarrow> \<not> errorsIs e ErrNotExist)"

lemma applyMsgs_simps [simp]:
  "applyMsgs rs [] = rs"
  "applyMsgs rs (m # ms) = applyMsgs (applyMsg rs m) ms"
  by (simp_all add: applyMsgs_def)

lemma applyMsgs_append: "applyMsgs rs (ms @ ms') = applyMsgs (applyMsgs rs ms) ms'"
  by (simp add: applyMsgs_def)

lemma find_updElems:
  assumes "find (isSet (sTable s) (sName s)) ss = Some se"
  shows "find (isSet (sTable s) (sName s)) (updElems s f ss) = Some (fst se, f (snd se))"
  using assms
  by (induction ss) (auto simp: updElems_def isSet_def split: if_splits)

lemma find_append_None: "find P xs = None \<Longrightarrow> find P (xs @ ys) = find P ys"
  by (induction xs) (auto split: if_splits)

lemma list_ex_find: "list_ex P xs \<longleftrightarrow> find P xs \<noteq> None"
  by (induction xs) auto

lemma find_SomeD': "find P xs = Some x \<Longrightarrow> P x \<and> x \<in> set xs"
  by (induction xs) (auto split: if_splits)

lemma syncSet_anonymous:
  assumes "syncSet E s els n = (Inr u, n')" and "GetSetElements E s (nft n) = (Inr old, nft n)"
    and "processElements els old \<noteq> ([], [])"
  shows "\<not> sAnonymous s"
proof
  assume an: "sAnonymous s"
  have del: "is_err (fst (connSetDeleteElements s vals c))" for vals c
    using conn_anonymous(1) [OF an, of vals c] by auto
  have add: "is_err (fst (connSetAddElements s vals c))" for vals c
    using conn_anonymous(2) [OF an, of vals c] by auto
  obtain a b where d: "processElements els old = (a, b)" by fastforce
  have "is_err (fst (syncSet E s els n))"
    using assms(2,3) d del [of b "nft n"] add [of a "nft n"]
    by (cases "b = []")
      (auto simp: syncSet_def run_simps onConn_apply is_err_def split: sum.splits)
  then show False using assms(1) by simp
qed

lemma syncSet_run:
  assumes run: "syncSet E s els n = (Inr u, n')"
    and "find (isSet (sTable s) (sName s)) (ksSets (kernel (nft n))) = Some se"
  shows "\<exists>ms x. n' = n\<lparr>nft := nft n\<lparr>messages := messages (nft n) @ ms\<rparr>\<rparr>
     \<and> find (isSet (sTable s) (sName s)) (ksSets (applyMsgs (kernel (nft n)) ms)) = Some (fst se, x)
     \<and> eKey ` set x = eKey ` set els"
proof -
  let ?k = "kernel (nft n)"
  obtain toAdd toDel where d: "processElements els (snd se) = (toAdd, toDel)" by fastforce
  have ok: "GetSetElements E s (nft n) = (Inr (snd se), nft n)"
    using assms unfolding syncSet_def
    by (auto simp: run_simps onConn_apply GetSetElements_def readM_apply split: option.splits)
  have an: "\<not> sAnonymous s" if "toAdd \<noteq> [] \<or> toDel \<noteq> []"
    using syncSet_anonymous [OF run ok] that d by auto
  define ms where "ms = (if toDel = [] then [] else [MsgDelSetElem s toDel])
     @ (if toAdd = [] then [] else [MsgNewSetElem s toAdd])"
  have "n' = n\<lparr>nft := nft n\<lparr>messages := messages (nft n) @ ms\<rparr>\<rparr>"
    using run an unfolding syncSet_def ms_def
    by (cases "toAdd = []"; cases "toDel = []")
      (auto simp: run_simps onConn_apply ok d conn_run)
  moreover have "find (isSet (sTable s) (sName s)) (ksSets (applyMsgs ?k ms)) =
      Some (fst se, addElems (delElems (snd se) toDel) toAdd)"
    using assms(2) by (auto simp: ms_def find_updElems delElems_def)
  ultimately show ?thesis
    using syncElems_keys [of els "snd se"] d by (auto simp: syncElems_def)
qed

lemma updateSet_new:
  assumes "GetSetByName E (sTable s) (shortName (sName s)) (nft n) = (Inl e, nft n)"
    and "errorsIs e ErrNotExist" "\<not> sAnonymous s"
    and "updateSet E s els n = (Inr s', n')"
  shows "\<exists>c. sTable s' = sTable s \<and> sName s' = shortName (sName s)
    \<and> n' = n\<lparr>nft := c, nSets := (nSets n)(setKey (sTable s) (shortName (sName s)) \<mapsto> s')\<rparr>
    \<and> kernel c = kernel (nft n)
    \<and> messages c = messages (nft n) @ MsgNewSet s' # (if els = [] then [] else [MsgNewSetElem s' els])"
  using assms
  by (auto simp: updateSet_def Let_def run_simps onConn_apply recordSet_def connAddSet_def
      allocateTransactionID_def appendElemList_def queueMsg_apply split: if_splits)

lemma updateSet_old:
  assumes "GetSetByName E (sTable s) (shortName (sName s)) (nft n) = (Inr x, nft n)"
    and "updateSet E s els n = (Inr s', n')"
  shows "s' = s\<lparr>sName := shortName (sName s)\<rparr>
    \<and> (\<exists>n1. syncSet E x els n = (Inr (), n1)
       \<and> n' = n1\<lparr>nSets := (nSets n1)(setKey (sTable s) (shortName (sName s)) \<mapsto> x)\<rparr>)"
  using assms
  by (auto simp: updateSet_def Let_def run_simps onConn_apply recordSet_def
      split: prod.splits sum.splits)

text \<open>(C24)
  A successful \<^verbatim>\<open>updateSet\<close> only queues messages, and once they are committed the kernel has a set of
  that table and (shortened) name whose keys are exactly the wanted ones; the set is recorded, so
  the final cleanup keeps it, and its name fits the kernel's limit of 31 bytes.
\<close>

theorem updateSet_converges:
  assumes run: "updateSet E s els n = (Inr s', n')"
    and "honestFaults E" and "\<not> sAnonymous s"
  shows "\<exists>ms se. messages (nft n') = messages (nft n) @ ms \<and> kernel (nft n') = kernel (nft n)
    \<and> find (isSet (sTable s) (sName s')) (ksSets (applyMsgs (kernel (nft n)) ms)) = Some se
    \<and> eKey ` set (snd se) = eKey ` set els
    \<and> nSets n' (setKey (sTable s) (sName s')) \<noteq> None
    \<and> length (sName s') \<le> 31"
proof -
  let ?nm = "shortName (sName s)" and ?k = "kernel (nft n)"
  have short: "length ?nm \<le> 31" using length_hashString [of "sName s"] by (simp add: shortName_def)
  obtain r where r: "GetSetByName E (sTable s) ?nm (nft n) = (r, nft n)"
    by (simp add: GetSetByName_def readM_apply)
  show ?thesis
  proof (cases r)
    case (Inl e)
    have e: "errorsIs e ErrNotExist"
      using run r Inl by (auto simp: updateSet_def Let_def run_simps onConn_apply split: if_splits)
    then have none: "find (isSet (sTable s) ?nm) (ksSets ?k) = None"
      using r Inl assms(2)
      by (auto simp: GetSetByName_def readM_apply honestFaults_def split: option.splits)
    from updateSet_new [OF r [unfolded Inl] e assms(3) run] obtain c where
      s': "sTable s' = sTable s" "sName s' = ?nm" and n': "n' = n\<lparr>nft := c,
        nSets := (nSets n)(setKey (sTable s) ?nm \<mapsto> s')\<rparr>" and c: "kernel c = ?k"
        "messages c = messages (nft n) @ MsgNewSet s' # (if els = [] then [] else [MsgNewSetElem s' els])"
      by blast
    have "find (isSet (sTable s) ?nm) (ksSets ?k @ [(s'\<lparr>sID := 0\<rparr>, [])]) = Some (s'\<lparr>sID := 0\<rparr>, [])"
      using none by (simp add: find_append_None isSet_def s' sameTable_def)
    moreover from this have "find (isSet (sTable s) ?nm) (updElems s' (\<lambda>old. addElems old els)
        (ksSets ?k @ [(s'\<lparr>sID := 0\<rparr>, [])])) = Some (s'\<lparr>sID := 0\<rparr>, addElems [] els)"
      using find_updElems [of s' "ksSets ?k @ [(s'\<lparr>sID := 0\<rparr>, [])]"] by (simp add: s')
    ultimately show ?thesis
      using none short by (auto simp: n' c list_ex_find s' keys_addElems)
  next
    case (Inr x)
    from updateSet_old [OF r [unfolded Inr] run] obtain n1 where
      s': "s' = s\<lparr>sName := ?nm\<rparr>" and sync: "syncSet E x els n = (Inr (), n1)" and
      n': "n' = n1\<lparr>nSets := (nSets n1)(setKey (sTable s) ?nm \<mapsto> x)\<rparr>"
      by blast
    from r Inr obtain se where f: "find (isSet (sTable s) ?nm) (ksSets ?k) = Some se" "fst se = x"
      by (auto simp: GetSetByName_def readM_apply split: option.splits)
    have same: "isSet (sTable x) (sName x) = isSet (sTable s) ?nm"
      using find_SomeD' [OF f(1)] f(2) by (auto simp: isSet_def sameTable_def fun_eq_iff)
    from syncSet_run [OF sync, of se] show ?thesis
      using short by (auto simp: f same s' n')
  qed
qed

theorem updateSet_converges_witness:
  defines "t \<equiv> \<lparr>tName = FilterTableName, tFamily = 1\<rparr>"
  defines "s \<equiv> \<lparr>sTable = t, sID = 0, sName = ''ndp_set'', sAnonymous = False, sConstant = False,
     sInterval = False, sCounter = True, sKeyType = TypeICMP6Type, sKeyNative = False, sComment = []\<rparr>"
  defines "mk \<equiv> \<lambda>k. \<lparr>eKey = [k], eIntervalEnd = False, eComment = []\<rparr>"
  defines "n \<equiv> newNftState (newConn (emptyRuleset\<lparr>ksSets := [(s, [mk 133, mk 7])]\<rparr>)) t t"
  shows "\<exists>ms se. messages (nft (snd (updateSet (idealEnv (\<lambda>_. [])) s [mk 133, mk 134] n))) = [] @ ms
    \<and> find (isSet t ''ndp_set'') (ksSets (applyMsgs (kernel (nft n)) ms)) = Some se
    \<and> eKey ` set (snd se) = {[133], [134]}"
proof -
  let ?E = "idealEnv (\<lambda>_. [])"
  obtain n' where run: "updateSet ?E s [mk 133, mk 134] n = (Inr s, n')"
    by (simp add: updateSet_def syncSet_def s_def t_def n_def mk_def shortName_def Let_def run_simps
        onConn_apply GetSetByName_def GetSetElements_def readM_apply newConn_def emptyRuleset_def newNftState_def isSet_def
        sameTable_def processElements_def findNonCommon_def isPresent_def conn_run recordSet_def)
  have "honestFaults ?E" "\<not> sAnonymous s" by (simp_all add: honestFaults_def s_def)
  from updateSet_converges [OF run this] obtain ms se where
    "messages (nft n') = messages (nft n) @ ms"
    "find (isSet (sTable s) (sName s)) (ksSets (applyMsgs (kernel (nft n)) ms)) = Some se"
    "eKey ` set (snd se) = eKey ` set [mk 133, mk 134]"
    by blast
  moreover have "messages (nft n) = []" "sTable s = t" "sName s = ''ndp_set''"
    "eKey ` set [mk 133, mk 134] = {[133], [134]}"
    by (simp_all add: n_def newConn_def newNftState_def s_def mk_def)
  ultimately show ?thesis using run by (metis snd_conv)
qed

section \<open>Chains\<close>


section \<open>Rules\<close>

lemma findRule_run:
  assumes "findRule E r n = (Inr x, n')"
  shows "n' = n \<and> (let eqs = filter (ruleEqual r) (filter (inChain (rTable r) (rChain r)) (ksRules (kernel (nft n))))
     in x = (if eqs = [] then None else Some (last eqs)))"
  using assms
  by (auto simp: findRule_def Let_def run_simps onConn_apply GetRules_def readM_apply split: option.splits
      sum.splits)

lemma recordRule_run:
  assumes "recordRule E r n = (Inr u, n')"
  obtains key where "hashRule E r = Inr key" "n' = n\<lparr>nRules := (nRules n)(key \<mapsto> r)\<rparr>"
  using assms by (cases "hashRule E r") (auto simp: recordRule_def run_simps)

lemma updateRule_unforced_run:
  assumes "updateRule E r action False n = (Inr isNew, n')"
  obtains (old) r0 key where "\<not> isNew" "findRule E r n = (Inr (Some r0), n)" "hashRule E r0 = Inr key"
      "n' = n\<lparr>nRules := (nRules n)(key \<mapsto> r0)\<rparr>"
    | (new) r1 c key where "isNew" "findRule E r n = (Inr None, n)" "action r (nft n) = (Inr r1, c)"
      "hashRule E r1 = Inr key" "n' = n\<lparr>nft := c, nRules := (nRules n)(key \<mapsto> r1)\<rparr>"
proof -
  from assms obtain x where x: "findRule E r n = (Inr x, n)"
    using findRule_run [of E r n]
    by (auto simp: updateRule_def elim!: bindM_InrE wrapM_InrE)
  show thesis
  proof (cases x)
    case (Some r0)
    with assms x obtain key where "hashRule E r0 = Inr key" "\<not> isNew"
      "n' = n\<lparr>nRules := (nRules n)(key \<mapsto> r0)\<rparr>"
      by (auto simp: updateRule_def wrapM_Inr bindM_Inr elim!: bindM_InrE thenM_InrE recordRule_run)
    with x Some show thesis by (intro old) simp_all
  next
    case None
    with assms x obtain r1 n1 where "onConn (action r) n = (Inr r1, n1)"
      "thenM (recordRule E r1) (retM True) n1 = (Inr isNew, n')"
      by (auto simp: updateRule_def wrapM_Inr bindM_Inr elim!: bindM_InrE)
    then show thesis
      using x None by (auto simp: onConn_apply elim!: thenM_InrE recordRule_run
          intro!: new [of r1 "snd (action r (nft n))"] prod_eqI)
  qed
qed

text \<open>(C23)
  \<^verbatim>\<open>updateRule\<close> without force: it reports a new rule exactly when no rule of that chain in the kernel
  equals the wanted one.  Then the given action runs once on the wanted rule; otherwise the
  connection is not touched at all.  Either way the key of the resulting rule is recorded, so the
  final cleanup recognises it, and every key recorded earlier stays.
\<close>

theorem updateRule_idempotent:
  assumes "updateRule E r action False n = (Inr isNew, n')"
  shows "(isNew \<longleftrightarrow> \<not> list_ex (ruleEqual r) (filter (inChain (rTable r) (rChain r)) (ksRules (kernel (nft n)))))
    \<and> (isNew \<longrightarrow> (\<exists>r1. action r (nft n) = (Inr r1, nft n') \<and> (\<exists>key. hashRule E r1 = Inr key \<and> nRules n' = (nRules n)(key \<mapsto> r1))))
    \<and> (\<not> isNew \<longrightarrow> nft n' = nft n \<and> (\<exists>r0 key. ruleEqual r r0 \<and> r0 \<in> set (ksRules (kernel (nft n)))
          \<and> hashRule E r0 = Inr key \<and> nRules n' = (nRules n)(key \<mapsto> r0)))"
  using assms
proof (cases rule: updateRule_unforced_run)
  case (old r0 key)
  let ?eqs = "filter (ruleEqual r) (filter (inChain (rTable r) (rChain r)) (ksRules (kernel (nft n))))"
  have "?eqs \<noteq> []" "r0 = last ?eqs"
    using findRule_run [OF old(2)] by (auto simp: Let_def split: if_splits)
  then have "r0 \<in> set ?eqs" by (metis last_in_set)
  then show ?thesis using old by (auto simp: list_ex_iff)
next
  case (new r1 c key)
  then show ?thesis
    using findRule_run [OF new(2)] by (auto simp: Let_def list_ex_iff filter_empty_conv split: if_splits)
qed

theorem updateRule_idempotent_witness:
  defines "t \<equiv> \<lparr>tName = FilterTableName, tFamily = 1\<rparr>"
  defines "r \<equiv> newRuleOf t (nilChain t) ''drop-remaining'' [zeroCounter, Verdict VerdictDrop []]"
  defines "n \<equiv> newNftState (newConn emptyRuleset) t t"
  defines "out \<equiv> updateRule (idealEnv (\<lambda>_. [])) r connAddRule False n"
  shows "\<exists>key. nRules (snd out) = [key \<mapsto> r\<lparr>rID := 1\<rparr>]
     \<and> messages (nft (snd out)) = [MsgNewRule OperationAdd (r\<lparr>rID := 1\<rparr>)]"
proof -
  have act: "connAddRule r (nft n) = (Inr (r\<lparr>rID := 1\<rparr>),
      (nft n)\<lparr>messages := [MsgNewRule OperationAdd (r\<lparr>rID := 1\<rparr>)], lastID := 1\<rparr>)"
    by (simp add: connAddRule_def connNewRule_def allocateTransactionID_def run_simps queueMsg_apply
        n_def newNftState_def newConn_def r_def newRuleOf_def)
  have facts: "ksRules (kernel (nft n)) = []"
    "udGetString (rUserData r) TypeComment = Inr (Some (take 254 ''drop-remaining''))"
    "hashRule (idealEnv (\<lambda>_. [])) (r\<lparr>rID := 1\<rparr>) = Inr (hashBytes [])"
    by (simp_all add: n_def newNftState_def newConn_def emptyRuleset_def r_def newRuleOf_def hashRule_def
        newRuleData_def hashVal_def)
  obtain n' where run: "out = (Inr True, n')"
    by (simp add: out_def updateRule_def findRule_def GetRules_def readM_apply run_simps onConn_apply act
        facts recordRule_def)
  have "nRules n = Map.empty" by (simp add: n_def newNftState_def)
  then show ?thesis
    using updateRule_idempotent [OF run [unfolded out_def]] act
    by (auto simp: run dest: sym [of "_\<lparr>lastID := 1\<rparr>"])
qed

end
