(* ===== verification/Nft_Cleanup.thy ===== *)
theory Nft_Cleanup
  imports Nft_Sync
begin

text \<open>
  The removal of stale objects at the end of a run: \<^verbatim>\<open>cleanupRules\<close>, \<^verbatim>\<open>cleanupChains\<close> and \<^verbatim>\<open>cleanup\<close>.
  On a kernel that answers its reads and commits the queued transactions they delete exactly the
  rules, sets and chains of the two managed tables that the run did not record, and nothing else.
\<close>

section \<open>Which objects are stale\<close>

definition keyRecorded :: "nft_env \<Rightarrow> (string \<Rightarrow> rule option) \<Rightarrow> rule \<Rightarrow> bool" where
  "keyRecorded E m r = (case hashRule E r of Inl _ \<Rightarrow> False | Inr key \<Rightarrow> m key \<noteq> None)"

definition staleSet :: "(string \<Rightarrow> nft_set option) \<Rightarrow> nft_set \<Rightarrow> bool" where
  "staleSet m s \<longleftrightarrow> m (setKey (sTable s) (sName s)) = None \<and> \<not> sAnonymous s"

text \<open>What the program relies on in a ruleset it reads: one set per table and name, real handles, unique per table and chain,
  rules only in chains that exist, and comments that parse.\<close>

definition wfRules :: "ruleset \<Rightarrow> bool" where
  "wfRules rs \<longleftrightarrow>
     (\<forall>s \<in> set (ksSets rs). \<forall>s' \<in> set (ksSets rs).
        sameTable (sTable (fst s)) (sTable (fst s')) \<longrightarrow> sName (fst s) = sName (fst s') \<longrightarrow> s = s') \<and>
     (\<forall>r \<in> set (ksRules rs). rHandle r \<noteq> 0 \<and> \<not> is_err (udGetString (rUserData r) TypeComment)
        \<and> list_ex (isChain (rTable r) (rChain r)) (ksChains rs))
     \<and> (\<forall>r \<in> set (ksRules rs). \<forall>r' \<in> set (ksRules rs).
          sameTable (rTable r) (rTable r') \<longrightarrow> rChain r = rChain r' \<longrightarrow> rHandle r = rHandle r' \<longrightarrow> r = r')"

lemma wfRules_rule:
  "wfRules rs \<Longrightarrow> r \<in> set (ksRules rs) \<Longrightarrow> r' \<in> set (ksRules rs) \<Longrightarrow> sameTable (rTable r) (rTable r') \<Longrightarrow>
   rChain r = rChain r' \<Longrightarrow> rHandle r = rHandle r' \<Longrightarrow> r = r'"
  unfolding wfRules_def by simp

lemma wfRules_set:
  "wfRules rs \<Longrightarrow> s \<in> set (ksSets rs) \<Longrightarrow> s' \<in> set (ksSets rs) \<Longrightarrow>
   sameTable (sTable (fst s)) (sTable (fst s')) \<Longrightarrow> sName (fst s) = sName (fst s') \<Longrightarrow> s = s'"
  unfolding wfRules_def by blast

definition reliable :: "nft_env \<Rightarrow> bool" where
  "reliable E \<longleftrightarrow> (\<forall>q rs. envFault E q rs = None)
     \<and> (\<forall>rs ms. envCommit E rs ms = Inr (applyMsgs rs ms) \<and> envLate E rs ms = None)"

lemma reliableD:
  assumes "reliable E"
  shows "envFault E q rs = None" "envCommit E rs ms = Inr (applyMsgs rs ms)" "envLate E rs ms = None"
  using assms by (auto simp: reliable_def)

definition addMsgs :: "nl_msg list \<Rightarrow> nftState \<Rightarrow> nftState" where
  "addMsgs ms n = n\<lparr>nft := nft n\<lparr>messages := messages (nft n) @ ms\<rparr>\<rparr>"

lemma addMsgs_simps [simp]:
  "nRules (addMsgs ms n) = nRules n" "nSets (addMsgs ms n) = nSets n" "nChains (addMsgs ms n) = nChains n"
  "nFilter (addMsgs ms n) = nFilter n" "nNat (addMsgs ms n) = nNat n"
  "kernel (nft (addMsgs ms n)) = kernel (nft n)" "addMsgs [] n = n"
  "addMsgs ms' (addMsgs ms n) = addMsgs (ms @ ms') n"
  by (simp_all add: addMsgs_def)

lemma addMsgs_fold: "n\<lparr>nft := nft n\<lparr>messages := messages (nft n) @ ms\<rparr>\<rparr> = addMsgs ms n"
  by (simp add: addMsgs_def)

text \<open>The stale rules of a table, in the order of its chains.\<close>

definition staleRules :: "nft_env \<Rightarrow> nftState \<Rightarrow> table \<Rightarrow> chain list \<Rightarrow> rule list" where
  "staleRules E n t cs =
     concat (map (\<lambda>c. if tName (cTable c) = tName t then
         filter (\<lambda>r. \<not> keyRecorded E (nRules n) r) (filter (inChain t (cName c)) (ksRules (kernel (nft n))))
       else []) cs)"

section \<open>The loops\<close>

lemma cleanupRule_run:
  assumes "rHandle r \<noteq> 0" and "\<not> is_err (udGetString (rUserData r) TypeComment)"
  shows "cleanupRule E acc r n =
     (if keyRecorded E (nRules n) r then (Inr acc, n)
      else (Inr (True, snd acc), addMsgs [MsgDelRule r] n))"
  using assms
  by (auto simp: cleanupRule_def tryDelRule_def keyRecorded_def run_simps onConn_apply conn_run addMsgs_fold is_err_def
      split: sum.splits option.splits)

lemma cleanupRule_fold:
  assumes "\<forall>r \<in> set rules. rHandle r \<noteq> 0 \<and> \<not> is_err (udGetString (rUserData r) TypeComment)"
  shows "foldM (cleanupRule E) acc rules n =
     (let stale = filter (\<lambda>r. \<not> keyRecorded E (nRules n) r) rules in
      (Inr (fst acc \<or> stale \<noteq> [], snd acc), addMsgs (map MsgDelRule stale) n))"
  using assms
proof (induction rules arbitrary: acc n)
  case Nil
  then show ?case by (simp add: em_apply)
next
  case (Cons r rules)
  then show ?case by (simp add: bindM_apply cleanupRule_run Let_def)
qed

lemma cleanupChainRules_run:
  assumes "reliable E"
    and "\<forall>r \<in> set (ksRules (kernel (nft n))). rHandle r \<noteq> 0 \<and> \<not> is_err (udGetString (rUserData r) TypeComment)"
  shows "cleanupChainRules E t acc c n =
     (Inr (fst acc \<or> staleRules E n t [c] \<noteq> [], snd acc),
      addMsgs (map MsgDelRule (staleRules E n t [c])) n)"
  using assms(2)
  by (simp add: cleanupChainRules_def run_simps onConn_apply GetRules_def readM_apply staleRules_def
      reliableD [OF assms(1)] cleanupRule_fold Let_def)

lemma staleRules_Cons: "staleRules E n t (c # cs) = staleRules E n t [c] @ staleRules E n t cs"
  by (simp add: staleRules_def cong: if_cong)

lemma staleRules_addMsgs [simp]: "staleRules E (addMsgs ms n) t cs = staleRules E n t cs"
  by (simp add: staleRules_def cong: if_cong)

lemma cleanupChainRules_fold:
  assumes "reliable E"
    and "\<forall>r \<in> set (ksRules (kernel (nft n))). rHandle r \<noteq> 0 \<and> \<not> is_err (udGetString (rUserData r) TypeComment)"
  shows "foldM (cleanupChainRules E t) acc cs n =
     (Inr (fst acc \<or> staleRules E n t cs \<noteq> [], snd acc), addMsgs (map MsgDelRule (staleRules E n t cs)) n)"
  using assms(2)
proof (induction cs arbitrary: acc n)
  case Nil
  then show ?case by (simp add: em_apply staleRules_def)
next
  case (Cons c cs)
  then show ?case
    by (simp add: bindM_apply cleanupChainRules_run [OF assms(1)] staleRules_Cons [of E n t c cs])
qed

lemma cleanupSet_fold:
  "foldM cleanupSet b sets n =
     (let stale = filter (staleSet (nSets n)) sets in
      (Inr (b \<or> stale \<noteq> []), addMsgs (map MsgDelSet stale) n))"
proof (induction sets arbitrary: b n)
  case Nil
  then show ?case by (simp add: em_apply)
next
  case (Cons s sets)
  then show ?case
    by (simp add: bindM_apply cleanupSet_def staleSet_def run_simps onConn_apply conn_run addMsgs_fold Let_def)
qed

lemma cleanupChain_fold:
  assumes "reliable E"
  shows "foldM (cleanupChain E) b cs n =
     (let stale = filter (\<lambda>c. (tName (cTable c) = tName (nFilter n) \<or> tName (cTable c) = tName (nNat n))
            \<and> nChains n (chainID c) = None
            \<and> filter (inChain (cTable c) (cName c)) (ksRules (kernel (nft n))) = []) cs in
      (Inr (b \<or> stale \<noteq> []), addMsgs (map MsgDelChain stale) n))"
proof (induction cs arbitrary: b n)
  case Nil
  then show ?case by (simp add: em_apply)
next
  case (Cons c cs)
  then show ?case
    by (simp add: bindM_apply cleanupChain_def run_simps onConn_apply conn_run addMsgs_fold GetRules_def readM_apply
        reliableD [OF assms] Let_def)
qed

section \<open>Their effect on the kernel\<close>

lemma applyMsgs_DelRule:
  "applyMsgs rs (map MsgDelRule rl) =
     rs\<lparr>ksRules := filter (\<lambda>x. \<not> (\<exists>r \<in> set rl. inChain (rTable r) (rChain r) x \<and> rHandle x = rHandle r))
                   (ksRules rs)\<rparr>"
  by (induction rl arbitrary: rs) (auto intro: filter_cong)

lemma applyMsgs_DelSet:
  "applyMsgs rs (map MsgDelSet sl) =
     rs\<lparr>ksSets := filter (\<lambda>x. \<not> (\<exists>s \<in> set sl. isSet (sTable s) (sName s) x)) (ksSets rs)\<rparr>"
  by (induction sl arbitrary: rs) (auto intro: filter_cong)

lemma applyMsgs_DelChain:
  "applyMsgs rs (map MsgDelChain cl) =
     rs\<lparr>ksChains := filter (\<lambda>x. \<not> (\<exists>c \<in> set cl. isChain (cTable c) (cName c) x)) (ksChains rs)\<rparr>"
  by (induction cl arbitrary: rs) (auto intro: filter_cong)

text \<open>The specification: what is left of a ruleset.\<close>

definition sweepRules :: "nft_env \<Rightarrow> nftState \<Rightarrow> table \<Rightarrow> ruleset \<Rightarrow> ruleset" where
  "sweepRules E n t rs =
     rs\<lparr>ksRules := filter (\<lambda>r. \<not> sameTable (rTable r) t \<or> keyRecorded E (nRules n) r) (ksRules rs),
        ksSets := filter (\<lambda>se. \<not> sameTable (sTable (fst se)) t \<or> \<not> staleSet (nSets n) (fst se)) (ksSets rs)\<rparr>"

definition managedChain :: "nftState \<Rightarrow> chain \<Rightarrow> bool" where
  "managedChain n c \<longleftrightarrow> tFamily (cTable c) = TableFamilyINet
     \<and> (tName (cTable c) = tName (nFilter n) \<or> tName (cTable c) = tName (nNat n))"

definition sweepChains :: "nftState \<Rightarrow> ruleset \<Rightarrow> ruleset" where
  "sweepChains n rs =
     rs\<lparr>ksChains := filter (\<lambda>c. \<not> managedChain n c \<or> nChains n (chainID c) \<noteq> None
          \<or> list_ex (inChain (cTable c) (cName c)) (ksRules rs)) (ksChains rs)\<rparr>"

lemma flush_run:
  assumes "reliable E" and "connErr c = None"
  shows "connFlush E c = (Inr (), c\<lparr>messages := [], kernel := applyMsgs (kernel c) (messages c)\<rparr>)"
  using assms by (simp add: connFlush_def Let_def reliableD)

lemma delRules_exact:
  assumes "wfRules rs" and "set rl = {r \<in> set (ksRules rs). P r}"
  shows "filter (\<lambda>x. \<not> (\<exists>r \<in> set rl. inChain (rTable r) (rChain r) x \<and> rHandle x = rHandle r)) (ksRules rs)
     = filter (\<lambda>x. \<not> P x) (ksRules rs)"
proof (rule filter_cong [OF refl])
  fix x assume x: "x \<in> set (ksRules rs)"
  have "r = x" if "r \<in> set rl" "inChain (rTable r) (rChain r) x" "rHandle x = rHandle r" for r
  proof -
    have "r \<in> set (ksRules rs)" "sameTable (rTable r) (rTable x)" "rChain r = rChain x"
      using assms(2) that by (auto simp: inChain_def sameTable_def)
    then show ?thesis using wfRules_rule [OF assms(1) _ x] that(3) by simp
  qed
  moreover have "P x \<longleftrightarrow> x \<in> set rl" using assms(2) x by simp
  moreover have "inChain (rTable x) (rChain x) x" by (simp add: inChain_def sameTable_def)
  ultimately show "\<not> (\<exists>r \<in> set rl. inChain (rTable r) (rChain r) x \<and> rHandle x = rHandle r) \<longleftrightarrow> \<not> P x"
    by blast
qed

lemma delSets_exact:
  assumes "wfRules rs" and "set sl = {s \<in> fst ` set (ksSets rs). P s}"
  shows "filter (\<lambda>x. \<not> (\<exists>s \<in> set sl. isSet (sTable s) (sName s) x)) (ksSets rs)
     = filter (\<lambda>x. \<not> P (fst x)) (ksSets rs)"
proof (rule filter_cong [OF refl])
  fix x assume x: "x \<in> set (ksSets rs)"
  have "s = fst x" if s: "s \<in> set sl" "isSet (sTable s) (sName s) x" for s
  proof -
    from s(1) assms(2) obtain y where y: "y \<in> set (ksSets rs)" "fst y = s" by auto
    from s(2) y(2) have "sameTable (sTable (fst x)) (sTable (fst y))" "sName (fst x) = sName (fst y)"
      by (auto simp: isSet_def)
    then have "x = y" by (rule wfRules_set [OF assms(1) x y(1)])
    then show ?thesis using y(2) by simp
  qed
  moreover have "P (fst x) \<longleftrightarrow> fst x \<in> set sl" using assms(2) x by simp
  moreover have "isSet (sTable (fst x)) (sName (fst x)) x" by (simp add: isSet_def sameTable_def)
  ultimately show "\<not> (\<exists>s \<in> set sl. isSet (sTable s) (sName s) x) \<longleftrightarrow> \<not> P (fst x)"
    by blast
qed

lemma set_staleRules:
  assumes "wfRules (kernel (nft n))"
  shows "set (staleRules E n t (filter (\<lambda>c. tFamily (cTable c) = tFamily t) (ksChains (kernel (nft n)))))
     = {r \<in> set (ksRules (kernel (nft n))). sameTable (rTable r) t \<and> \<not> keyRecorded E (nRules n) r}"
    (is "?L = ?R")
proof
  show "?L \<subseteq> ?R"
    by (auto simp: staleRules_def inChain_def split: if_splits)
  show "?R \<subseteq> ?L"
  proof
    fix r assume r: "r \<in> ?R"
    then obtain c where c: "c \<in> set (ksChains (kernel (nft n)))" "isChain (rTable r) (rChain r) c"
      using assms unfolding wfRules_def list_ex_iff by blast
    with r show "r \<in> ?L"
      by (auto simp: staleRules_def isChain_def inChain_def sameTable_def intro!: bexI [of _ c])
  qed
qed

lemma wfRules_handles:
  "wfRules rs \<Longrightarrow> \<forall>r \<in> set (ksRules rs). rHandle r \<noteq> 0 \<and> \<not> is_err (udGetString (rUserData r) TypeComment)"
  by (simp add: wfRules_def)

definition onKernel :: "(ruleset \<Rightarrow> ruleset) \<Rightarrow> nftState \<Rightarrow> nftState" where
  "onKernel f n = n\<lparr>nft := nft n\<lparr>kernel := f (kernel (nft n))\<rparr>\<rparr>"

lemma onKernel_simps [simp]:
  "nRules (onKernel f n) = nRules n" "nSets (onKernel f n) = nSets n" "nChains (onKernel f n) = nChains n"
  "nFilter (onKernel f n) = nFilter n" "nNat (onKernel f n) = nNat n"
  "kernel (nft (onKernel f n)) = f (kernel (nft n))" "messages (nft (onKernel f n)) = messages (nft n)"
  "connErr (nft (onKernel f n)) = connErr (nft n)"
  by (simp_all add: onKernel_def)

lemma addMsgs_flush:
  assumes "reliable E" "connErr (nft n) = None" "messages (nft n) = []"
  shows "whenM (ms \<noteq> []) (wrapM w (onConn (connFlush E))) (addMsgs ms n) = (Inr (), onKernel (\<lambda>rs. applyMsgs rs ms) n)"
  using assms
  by (cases "ms = []")
    (auto simp: run_simps onConn_apply flush_run addMsgs_def onKernel_def)

lemma cleanupRules_queue:
  assumes "reliable E" "wfRules (kernel (nft n))" "messages (nft n) = []" "connErr (nft n) = None"
  shows "cleanupRules E t n =
     (let k = kernel (nft n);
          rl = staleRules E n t (filter (\<lambda>c. tFamily (cTable c) = tFamily t) (ksChains k));
          sl = filter (staleSet (nSets n)) (map fst (filter (\<lambda>s. sameTable (sTable (fst s)) t) (ksSets k)))
      in (Inr (), onKernel (\<lambda>rs. applyMsgs rs (map MsgDelRule rl @ map MsgDelSet sl)) n))"
proof -
  define rl where "rl = staleRules E n t (filter (\<lambda>c. tFamily (cTable c) = tFamily t) (ksChains (kernel (nft n))))"
  define sets where "sets = map fst (filter (\<lambda>s. sameTable (sTable (fst s)) t) (ksSets (kernel (nft n))))"
  define sl where "sl = filter (staleSet (nSets n)) sets"
  let ?ms = "map MsgDelRule rl @ map MsgDelSet sl"
  have flush: "whenM (rl \<noteq> [] \<or> sl \<noteq> []) (wrapM w (onConn (connFlush E))) (addMsgs ?ms n)
     = (Inr (), onKernel (\<lambda>rs. applyMsgs rs ?ms) n)" for w
    using addMsgs_flush [OF assms(1,4,3), of ?ms w] by (cases "rl = []"; cases "sl = []") simp_all
  have chains: "onConn (ListChainsOfTableFamily E (tFamily t)) n
     = (Inr (filter (\<lambda>c. tFamily (cTable c) = tFamily t) (ksChains (kernel (nft n)))), n)"
    by (simp add: onConn_apply ListChainsOfTableFamily_def readM_apply reliableD [OF assms(1)])
  have sets: "onConn (GetSets E t) (addMsgs ms n) = (Inr sets, addMsgs ms n)" for ms
    by (simp add: onConn_apply GetSets_def readM_apply reliableD [OF assms(1)] sets_def)
  have "cleanupRules E t n = (Inr (), onKernel (\<lambda>rs. applyMsgs rs ?ms) n)"
    unfolding cleanupRules_def
    using flush
    by (simp add: bindM_apply wrapM_apply chains sets rl_def [symmetric] sl_def [symmetric]
        cleanupChainRules_fold [OF assms(1) wfRules_handles [OF assms(2)]] cleanupSet_fold thenM_apply em_apply
        Let_def del: filter_empty_conv)
  then show ?thesis by (simp add: Let_def rl_def sl_def sets_def)
qed

lemma cleanupRules_exact:
  assumes "reliable E" "wfRules (kernel (nft n))" "messages (nft n) = []" "connErr (nft n) = None"
  shows "cleanupRules E t n = (Inr (), onKernel (sweepRules E n t) n)"
proof -
  let ?k = "kernel (nft n)"
  let ?sl = "filter (staleSet (nSets n)) (map fst (filter (\<lambda>s. sameTable (sTable (fst s)) t) (ksSets ?k)))"
  have "filter (\<lambda>x. \<not> (\<exists>s \<in> set ?sl. isSet (sTable s) (sName s) x)) (ksSets ?k)
      = filter (\<lambda>x. \<not> (sameTable (sTable (fst x)) t \<and> staleSet (nSets n) (fst x))) (ksSets ?k)"
    by (rule delSets_exact [OF assms(2)]) auto
  then show ?thesis
    using delRules_exact [OF assms(2) set_staleRules [OF assms(2), of E t]]
    unfolding cleanupRules_queue [OF assms] Let_def
    by (simp add: applyMsgs_append applyMsgs_DelRule applyMsgs_DelSet sweepRules_def onKernel_def)
qed

lemma wfRules_sweepRules: "wfRules rs \<Longrightarrow> wfRules (sweepRules E n t rs)"
  unfolding wfRules_def sweepRules_def by simp

lemma cleanupChains_exact:
  assumes "reliable E" "messages (nft n) = []" "connErr (nft n) = None"
  shows "cleanupChains E n = (Inr (), onKernel (sweepChains n) n)"
proof -
  let ?k = "kernel (nft n)"
  define P where "P c \<longleftrightarrow> (tName (cTable c) = tName (nFilter n) \<or> tName (cTable c) = tName (nNat n))
      \<and> nChains n (chainID c) = None
      \<and> filter (inChain (cTable c) (cName c)) (ksRules ?k) = []" for c
  define cl where "cl = filter P (filter (\<lambda>c. tFamily (cTable c) = TableFamilyINet) (ksChains ?k))"
  have chains: "onConn (ListChainsOfTableFamily E TableFamilyINet) n
     = (Inr (filter (\<lambda>c. tFamily (cTable c) = TableFamilyINet) (ksChains ?k)), n)"
    by (simp add: onConn_apply ListChainsOfTableFamily_def readM_apply reliableD [OF assms(1)])
  have "cleanupChains E n = (Inr (), onKernel (\<lambda>rs. applyMsgs rs (map MsgDelChain cl)) n)"
    unfolding cleanupChains_def
    using addMsgs_flush [OF assms(1,3,2), of "map MsgDelChain cl"]
    by (simp add: bindM_apply wrapM_apply chains cleanupChain_fold [OF assms(1)] P_def [symmetric]
        cl_def [symmetric] Let_def del: filter_filter filter_empty_conv)
  moreover have "filter (\<lambda>x. \<not> (\<exists>c \<in> set cl. isChain (cTable c) (cName c) x)) (ksChains ?k)
     = filter (\<lambda>c. \<not> managedChain n c \<or> nChains n (chainID c) \<noteq> None
          \<or> list_ex (inChain (cTable c) (cName c)) (ksRules ?k)) (ksChains ?k)"
  proof (rule filter_cong [OF refl])
    fix x assume x: "x \<in> set (ksChains ?k)"
    have cong: "P c \<and> tFamily (cTable c) = TableFamilyINet \<longleftrightarrow> P x \<and> tFamily (cTable x) = TableFamilyINet"
      if "isChain (cTable c) (cName c) x" for c
    proof -
      have "inChain (cTable c) (cName c) = inChain (cTable x) (cName x)"
        using that by (auto simp: isChain_def sameTable_def inChain_def fun_eq_iff)
      then show ?thesis using that by (auto simp: P_def isChain_def sameTable_def chainID_def)
    qed
    have self: "isChain (cTable x) (cName x) x" by (simp add: isChain_def sameTable_def)
    have mem: "c \<in> set cl \<longleftrightarrow> c \<in> set (ksChains ?k) \<and> P c \<and> tFamily (cTable c) = TableFamilyINet" for c
      unfolding cl_def by auto
    have "(\<exists>c \<in> set cl. isChain (cTable c) (cName c) x) \<longleftrightarrow> P x \<and> tFamily (cTable x) = TableFamilyINet"
      using x cong self mem by blast
    then show "\<not> (\<exists>c \<in> set cl. isChain (cTable c) (cName c) x) \<longleftrightarrow> \<not> managedChain n x
        \<or> nChains n (chainID x) \<noteq> None \<or> list_ex (inChain (cTable x) (cName x)) (ksRules ?k)"
      by (auto simp: P_def managedChain_def list_ex_iff filter_empty_conv)
  qed
  ultimately show ?thesis
    by (simp add: applyMsgs_DelChain sweepChains_def onKernel_def)
qed

text \<open>(C8)
  The complete cleanup, on a well-formed ruleset and a kernel that answers and commits: it succeeds,
  and the kernel is left with exactly the rules and sets that are outside the two managed tables or
  were recorded by this run, in their old order, and without the chains of the managed tables that
  were neither recorded nor still hold a rule.  The bookkeeping maps are empty afterwards.
\<close>

theorem cleanup_exact:
  assumes "reliable E" "wfRules (kernel (nft n))" "messages (nft n) = []" "connErr (nft n) = None"
  shows "cleanup E n =
    (Inr (), forgetAll (onKernel (\<lambda>rs. sweepChains n (sweepRules E n (nNat n) (sweepRules E n (nFilter n) rs))) n))"
proof -
  let ?n1 = "onKernel (sweepRules E n (nFilter n)) n"
  let ?n2 = "onKernel (sweepRules E n (nNat n)) ?n1"
  have 1: "cleanupRules E (nFilter n) n = (Inr (), ?n1)"
    by (rule cleanupRules_exact [OF assms])
  have "sweepRules E ?n1 (nNat n) = sweepRules E n (nNat n)" by (simp add: sweepRules_def fun_eq_iff)
  then have 2: "cleanupRules E (nNat n) ?n1 = (Inr (), ?n2)"
    using cleanupRules_exact [OF assms(1), of ?n1 "nNat n"] assms(2-4) by (simp add: wfRules_sweepRules)
  have "sweepChains ?n2 = sweepChains n" by (simp add: sweepChains_def managedChain_def fun_eq_iff)
  then have 3: "cleanupChains E ?n2 = (Inr (), onKernel (sweepChains n) ?n2)"
    using cleanupChains_exact [OF assms(1), of ?n2] assms(3,4) by simp
  show ?thesis
    unfolding cleanup_def by (simp add: run_simps 1 2 3) (simp add: onKernel_def)
qed

theorem cleanup_exact_witness:
  defines "t \<equiv> \<lparr>tName = FilterTableName, tFamily = TableFamilyINet\<rparr>"
  defines "u \<equiv> \<lparr>tName = ''firewall'', tFamily = TableFamilyINet\<rparr>"
  defines "mk \<equiv> \<lambda>t h. (newRuleOf t (nilChain t) ''drop-remaining'' [Verdict VerdictDrop []])\<lparr>rHandle := h\<rparr>"
  defines "n \<equiv> newNftState (newConn (emptyRuleset\<lparr>ksChains := [nilChain t, nilChain u],
       ksRules := [mk t 1, mk u 2]\<rparr>)) t (t\<lparr>tName := NatTableName\<rparr>)"
  shows "ksRules (kernel (nft (snd (cleanup (idealEnv (\<lambda>_. [])) n)))) = [mk u 2]
    \<and> ksChains (kernel (nft (snd (cleanup (idealEnv (\<lambda>_. [])) n)))) = [nilChain u]"
proof -
  let ?E = "idealEnv (\<lambda>_. [])"
  have "reliable ?E" by (simp add: reliable_def)
  moreover have "wfRules (kernel (nft n))"
    by (simp add: n_def newNftState_def newConn_def emptyRuleset_def wfRules_def mk_def newRuleOf_def
        isChain_def nilChain_def sameTable_def t_def u_def name_consts)
  moreover have "messages (nft n) = []" "connErr (nft n) = None"
    by (simp_all add: n_def newNftState_def newConn_def)
  ultimately have run: "cleanup ?E n = (Inr (), forgetAll (onKernel (\<lambda>rs. sweepChains n
      (sweepRules ?E n (nNat n) (sweepRules ?E n (nFilter n) rs))) n))"
    by (rule cleanup_exact)
  have "keyRecorded ?E (nRules n) r = False" for r
    by (auto simp: n_def newNftState_def keyRecorded_def split: sum.splits)
  then show ?thesis
    unfolding run
    by (simp add: forgetAll_def sweepChains_def sweepRules_def n_def newNftState_def newConn_def emptyRuleset_def
        managedChain_def mk_def newRuleOf_def nilChain_def sameTable_def inChain_def t_def u_def name_consts)
qed

end
