(* ===== verification/Legacy.thy ===== *)
theory Legacy
  imports Nft_Cleanup
begin

text \<open>
  \<^verbatim>\<open>CleanupLegacyTables\<close> of \<^verbatim>\<open>netfilterrules.go\<close>: removal of what older versions of the daemon left in
  the shared inet tables \<^verbatim>\<open>filter\<close> and \<^verbatim>\<open>nat\<close>.  The properties say that nothing else is touched.
\<close>

section \<open>What belongs to the daemon\<close>

definition legacyNames :: "string list" where
  "legacyNames = [legacyFilterTableName, legacyNatTableName]"

definition legacyDaemonChainNames :: "string list" where
  "legacyDaemonChainNames =
     [ingressChainName, egressChainName, ingressChainName @ ''-'' @ commonName,
      egressChainName @ ''-'' @ commonName]"

definition legacyDaemonBaseChainNames :: "string list" where
  "legacyDaemonBaseChainNames = [''input'', ''output'', ''prerouting'']"

definition legacyDaemonRuleComments :: "string list" where
  "legacyDaemonRuleComments =
     [inputInterfaceFilterComment, outputInterfaceFilterComment, natFilterRuleComment]"

definition legacyDaemonSetComments :: "string list" where
  "legacyDaemonSetComments = [''Pod interfaces'', ''Pod interfaces NAT'']"

definition legacyDaemonRule :: "rule \<Rightarrow> bool res" where
  "legacyDaemonRule r =
     bindR (udGetString (rUserData r) TypeComment) (\<lambda>c.
       Inr (case c of None \<Rightarrow> False | Some comment \<Rightarrow> comment \<in> set legacyDaemonRuleComments))"

definition legacyDaemonSet :: "nft_set \<Rightarrow> bool" where
  "legacyDaemonSet s \<longleftrightarrow> sName s = podInterfacesName \<and> sComment s \<in> set legacyDaemonSetComments"

definition legacyDaemonChainRule :: "rule \<Rightarrow> bool res" where
  "legacyDaemonChainRule r =
     bindR (udGetString (rUserData r) TypeComment) (\<lambda>c.
       Inr (case c of
              None \<Rightarrow> False
            | Some comment \<Rightarrow>
                (if comment \<in> set legacyDaemonRuleComments then True
                 else if comment = ''common-ingress-chain'' \<or> comment = ''common-egress-chain''
                   \<or> comment = ''allow-ipv6-ndp-discovery'' \<or> comment = allowConntrackRuleName
                   \<or> comment = ''drop-remaining'' then True
                 else hasPrefix comment ''policy:'' \<or> hasPrefix comment ''common rule:''
                   \<or> hasPrefix comment ''allow_icmp_'')))"

definition exprReferencesChain :: "string \<Rightarrow> nft_expr \<Rightarrow> bool" where
  "exprReferencesChain name e =
     (case e of Verdict k c \<Rightarrow> c = name \<and> (k = VerdictJump \<or> k = VerdictGoto) | _ \<Rightarrow> False)"

definition ruleReferencesChain :: "rule \<Rightarrow> string \<Rightarrow> bool" where
  "ruleReferencesChain r chainName = list_ex (exprReferencesChain chainName) (rev (rExprs r))"

section \<open>The cleanup\<close>

fun anyChainReferences :: "nft_env \<Rightarrow> table \<Rightarrow> string \<Rightarrow> chain list \<Rightarrow> (conn, bool) em" where
  "anyChainReferences E t name [] = retM False"
| "anyChainReferences E t name (c # cs) =
     (if tName (cTable c) \<noteq> tName t then anyChainReferences E t name cs
      else bindM (wrapM ''cleanup legacy tables: list rules for chain'' (GetRules E t (cName c))) (\<lambda>rules.
        if list_ex (\<lambda>r. ruleReferencesChain r name) rules then retM True
        else anyChainReferences E t name cs))"

definition legacyChainReferenced :: "nft_env \<Rightarrow> table \<Rightarrow> string \<Rightarrow> (conn, bool) em" where
  "legacyChainReferenced E t chainName =
     bindM (wrapM ''cleanup legacy tables: list chains for table'' (ListChainsOfTableFamily E (tFamily t)))
       (anyChainReferences E t chainName)"

definition delLegacyChainRule :: "bool \<Rightarrow> rule \<Rightarrow> (conn, bool) em" where
  "delLegacyChainRule deleted r =
     bindM (liftR (legacyDaemonChainRule r)) (\<lambda>own.
       if \<not> own then retM deleted
       else bindM (liftR (udGetString (rUserData r) TypeComment)) (\<lambda>comment.
         thenM (wrapM ''cleanup legacy tables: delete daemon-owned rule'' (connDelRule r)) (retM True)))"

definition cleanupLegacyDaemonChainRules :: "nft_env \<Rightarrow> table \<Rightarrow> chain \<Rightarrow> (conn, bool) em" where
  "cleanupLegacyDaemonChainRules E t c =
     bindM (wrapM ''cleanup legacy tables: list rules for daemon chain'' (GetRules E t (cName c))) (\<lambda>rules.
     bindM (foldM delLegacyChainRule False rules) (\<lambda>deleted.
       if deleted then
         thenM (wrapM ''cleanup legacy tables: flush daemon-owned rule deletes'' (connFlush E))
           (bindM (wrapM ''cleanup legacy tables: list remaining rules'' (GetRules E t (cName c)))
              (\<lambda>rules'. retM (rules' \<noteq> [])))
       else retM (rules \<noteq> [])))"

definition delLegacyBaseRule :: "bool \<Rightarrow> rule \<Rightarrow> (conn, bool) em" where
  "delLegacyBaseRule deleted r =
     bindM (liftR (legacyDaemonRule r)) (\<lambda>own.
       if \<not> own then retM deleted
       else bindM (liftR (udGetString (rUserData r) TypeComment)) (\<lambda>comment.
         bindM (tryM (connDelRule r)) (\<lambda>d. retM (case d of Inl _ \<Rightarrow> deleted | Inr _ \<Rightarrow> True))))"

definition cleanupLegacyBaseChain :: "nft_env \<Rightarrow> table \<Rightarrow> chain \<Rightarrow> (conn, unit) em" where
  "cleanupLegacyBaseChain E t c =
     (if tName (cTable c) \<noteq> tName t \<or> cName c \<notin> set legacyDaemonBaseChainNames then retM ()
      else
        bindM (wrapM ''cleanup legacy tables: list rules for chain'' (GetRules E t (cName c))) (\<lambda>rules.
        bindM (foldM delLegacyBaseRule False rules) (\<lambda>deleted.
          whenM deleted (wrapM ''cleanup legacy tables: flush daemon-owned rule deletes'' (connFlush E)))))"

definition cleanupLegacyDaemonChain :: "nft_env \<Rightarrow> table \<Rightarrow> bool \<Rightarrow> chain \<Rightarrow> (conn, bool) em" where
  "cleanupLegacyDaemonChain E t flushed c =
     (if tName (cTable c) \<noteq> tName t \<or> cName c \<notin> set legacyDaemonChainNames then retM flushed
      else
        bindM (cleanupLegacyDaemonChainRules E t c) (\<lambda>hasRemainingRules.
        bindM (legacyChainReferenced E t (cName c)) (\<lambda>referenced.
          if referenced then retM flushed
          else if hasRemainingRules then retM flushed
          else thenM (connDelChain c) (retM True))))"

definition delLegacySet :: "bool \<Rightarrow> nft_set \<Rightarrow> (conn, bool) em" where
  "delLegacySet flushed s =
     (if \<not> legacyDaemonSet s then retM flushed else thenM (connDelSet s) (retM True))"

definition cleanupLegacyTable :: "nft_env \<Rightarrow> table \<Rightarrow> (conn, unit) em" where
  "cleanupLegacyTable E t =
     (if tName t \<notin> set legacyNames then retM ()
      else
        bindM (wrapM ''cleanup legacy tables: list chains for table'' (ListChainsOfTableFamily E TableFamilyINet))
          (\<lambda>cs.
        thenM (forM cs (cleanupLegacyBaseChain E t))
        (bindM (foldM (cleanupLegacyDaemonChain E t) False cs) (\<lambda>flushed.
         bindM (wrapM ''cleanup legacy tables: list sets for table'' (GetSets E t)) (\<lambda>sets.
         bindM (foldM delLegacySet flushed sets) (\<lambda>flushed'.
           whenM flushed' (wrapM ''cleanup legacy tables: flush'' (connFlush E))))))))"

definition CleanupLegacyTables :: "nft_env \<Rightarrow> (conn, unit) em" where
  "CleanupLegacyTables E =
     bindM (wrapM ''cleanup legacy tables: list inet tables'' (ListTablesOfFamily E TableFamilyINet))
       (\<lambda>allTables. forM allTables (cleanupLegacyTable E))"

section \<open>The invariant of the cleanup\<close>

definition legacyTable :: "table \<Rightarrow> bool" where
  "legacyTable t \<longleftrightarrow> tName t \<in> set legacyNames \<and> tFamily t = TableFamilyINet"

definition ownedRule :: "rule \<Rightarrow> bool" where
  "ownedRule r \<longleftrightarrow> legacyTable (rTable r)
     \<and> (rChain r \<in> set legacyDaemonBaseChainNames \<and> legacyDaemonRule r = Inr True
        \<or> rChain r \<in> set legacyDaemonChainNames \<and> legacyDaemonChainRule r = Inr True)"

definition ownedChain :: "chain \<Rightarrow> bool" where
  "ownedChain c \<longleftrightarrow> legacyTable (cTable c) \<and> cName c \<in> set legacyDaemonChainNames"

definition ownedSet :: "nft_set \<Rightarrow> bool" where
  "ownedSet s \<longleftrightarrow> legacyTable (sTable s) \<and> legacyDaemonSet s"

fun allowedDel :: "ruleset \<Rightarrow> nl_msg \<Rightarrow> bool" where
  "allowedDel K (MsgDelRule r) \<longleftrightarrow> r \<in> set (ksRules K) \<and> ownedRule r"
| "allowedDel K (MsgDelChain c) \<longleftrightarrow> ownedChain c"
| "allowedDel K (MsgDelSet s) \<longleftrightarrow> s \<in> fst ` set (ksSets K) \<and> ownedSet s"
| "allowedDel K _ \<longleftrightarrow> False"

text \<open>A chain that holds no rule and that no rule of its table jumps to.\<close>

definition lonely :: "ruleset \<Rightarrow> chain \<Rightarrow> bool" where
  "lonely rs c \<longleftrightarrow> (\<forall>r \<in> set (ksRules rs). sameTable (rTable r) (cTable c) \<longrightarrow>
     rChain r \<noteq> cName c \<and> \<not> ruleReferencesChain r (cName c))"

definition legacyInv :: "ruleset \<Rightarrow> conn \<Rightarrow> bool" where
  "legacyInv K c \<longleftrightarrow>
     list_all (allowedDel K) (messages c)
     \<and> (\<exists>ms. list_all (allowedDel K) ms \<and> kernel c = applyMsgs K ms)
     \<and> (\<forall>ch. MsgDelChain ch \<in> set (messages c) \<longrightarrow> lonely (kernel c) ch)
     \<and> (\<forall>ch \<in> set (ksChains K). ch \<notin> set (ksChains (kernel c)) \<longrightarrow> lonely (kernel c) ch)"

lemma applyMsg_del_subset:
  "allowedDel K m \<Longrightarrow> set (ksRules (applyMsg rs m)) \<subseteq> set (ksRules rs)
     \<and> set (ksChains (applyMsg rs m)) \<subseteq> set (ksChains rs) \<and> set (ksSets (applyMsg rs m)) \<subseteq> set (ksSets rs)
     \<and> ksTables (applyMsg rs m) = ksTables rs"
  by (cases m) auto

lemma applyMsgs_del_subset:
  "list_all (allowedDel K) ms \<Longrightarrow> set (ksRules (applyMsgs rs ms)) \<subseteq> set (ksRules rs)
     \<and> set (ksChains (applyMsgs rs ms)) \<subseteq> set (ksChains rs) \<and> set (ksSets (applyMsgs rs ms)) \<subseteq> set (ksSets rs)
     \<and> ksTables (applyMsgs rs ms) = ksTables rs"
proof (induction ms arbitrary: rs)
  case (Cons m ms)
  then have "allowedDel K m" "list_all (allowedDel K) ms" by simp_all
  from applyMsg_del_subset [OF this(1), of rs] Cons.IH [OF this(2), of "applyMsg rs m"]
  show ?case by (simp only: applyMsgs_simps) (blast intro: subset_trans)
qed simp

lemma applyMsgs_del_chain:
  assumes "list_all (allowedDel K) ms" "ch \<in> set (ksChains rs)" "ch \<notin> set (ksChains (applyMsgs rs ms))"
  shows "\<exists>c. MsgDelChain c \<in> set ms \<and> isChain (cTable c) (cName c) ch"
  using assms
proof (induction ms arbitrary: rs)
  case (Cons m ms)
  show ?case
  proof (cases "ch \<in> set (ksChains (applyMsg rs m))")
    case True
    with Cons show ?thesis by fastforce
  next
    case False
    with Cons.prems show ?thesis by (cases m) auto
  qed
qed simp

lemma lonely_anti: "lonely rs c \<Longrightarrow> set (ksRules rs') \<subseteq> set (ksRules rs) \<Longrightarrow> lonely rs' c"
  by (auto simp: lonely_def)

lemma lonely_isChain: "lonely rs c \<Longrightarrow> isChain (cTable c) (cName c) ch \<Longrightarrow> lonely rs ch"
  by (auto simp: lonely_def isChain_def sameTable_def)

lemma legacyInv_rules:
  "legacyInv K c \<Longrightarrow> set (ksRules (kernel c)) \<subseteq> set (ksRules K) \<and> set (ksSets (kernel c)) \<subseteq> set (ksSets K)"
  unfolding legacyInv_def using applyMsgs_del_subset by metis

lemma legacyInv_ruleD: "legacyInv K c \<Longrightarrow> r \<in> set (ksRules (kernel c)) \<Longrightarrow> r \<in> set (ksRules K)"
  using legacyInv_rules by blast

lemma legacyInv_start: "messages c = [] \<Longrightarrow> legacyInv (kernel c) c"
  by (auto simp: legacyInv_def intro!: exI [of _ "[]"])

lemma legacyInv_commit:
  assumes "legacyInv K c"
  shows "legacyInv K (c\<lparr>messages := [], connErr := None, kernel := applyMsgs (kernel c) (messages c)\<rparr>)"
proof -
  let ?k = "applyMsgs (kernel c) (messages c)"
  from assms obtain ms where ms: "list_all (allowedDel K) ms" "kernel c = applyMsgs K ms"
    and q: "list_all (allowedDel K) (messages c)" unfolding legacyInv_def by blast
  have sub: "set (ksRules ?k) \<subseteq> set (ksRules (kernel c))" using applyMsgs_del_subset [OF q] by blast
  have "lonely ?k ch" if gone: "ch \<in> set (ksChains K)" "ch \<notin> set (ksChains ?k)" for ch
  proof (cases "ch \<in> set (ksChains (kernel c))")
    case True
    then obtain d where "MsgDelChain d \<in> set (messages c)" "isChain (cTable d) (cName d) ch"
      using applyMsgs_del_chain [OF q _ gone(2)] by blast
    then show ?thesis using assms lonely_isChain lonely_anti [OF _ sub] unfolding legacyInv_def by blast
  qed (use assms gone lonely_anti [OF _ sub] in \<open>unfold legacyInv_def, blast\<close>)
  moreover have "\<exists>ms'. list_all (allowedDel K) ms' \<and> ?k = applyMsgs K ms'"
    using ms q by (intro exI [of _ "ms @ messages c"]) (simp add: applyMsgs_append)
  ultimately show ?thesis by (simp add: legacyInv_def)
qed

lemma legacyInv_drop: "legacyInv K c \<Longrightarrow> legacyInv K (c\<lparr>messages := [], connErr := None\<rparr>)"
  by (simp add: legacyInv_def)

lemma legacyInv_queue:
  assumes "legacyInv K c" "allowedDel K m" "\<And>ch. m = MsgDelChain ch \<Longrightarrow> lonely (kernel c) ch"
  shows "legacyInv K (c\<lparr>messages := messages c @ [m]\<rparr>)"
  using assms by (auto simp: legacyInv_def)

section \<open>Every operation keeps it\<close>

lemma triple_read:
  "(\<And>c x. I c \<Longrightarrow> P c \<Longrightarrow> f (kernel c) = Inr x \<Longrightarrow> Q x c) \<Longrightarrow> triple I P (readM E q f) Q"
  by (auto simp: triple_def readM_apply split: option.splits)

lemma triple_queue:
  assumes "allowedDel K m" "\<And>c ch. P c \<Longrightarrow> m = MsgDelChain ch \<Longrightarrow> lonely (kernel c) ch"
    and "\<And>c. P c \<Longrightarrow> Q () (c\<lparr>messages := messages c @ [m]\<rparr>)"
  shows "triple (legacyInv K) P (queueMsg m) Q"
  using assms by (auto simp: triple_def queueMsg_apply intro!: legacyInv_queue)

lemma triple_flush: "kernelOK E \<Longrightarrow> triple (legacyInv K) P (connFlush E) anyR"
  using legacyInv_commit [of K] legacyInv_drop [of K]
  by (auto simp: triple_def connFlush_def Let_def kernelOK_def split: option.splits sum.splits)

lemma legacyInv_DelRule:
  assumes "legacyInv K c" "r \<in> set (ksRules K)" "ownedRule r"
  shows "legacyInv K (snd (connDelRule r c))"
  using assms legacyInv_queue [of K c "MsgDelRule r"]
  by (auto simp: connDelRule_def run_simps queueMsg_apply setErr_def Let_def legacyInv_def)

text \<open>An operation that only queues leaves facts about the kernel alone.\<close>

lemma triple_quiet:
  assumes "keeps quietC m" "triple I anyS m anyR"
  shows "triple I (\<lambda>c. P (kernel c)) m (\<lambda>_ c. P (kernel c))"
  using assms unfolding triple_def keeps_def quietC_def by metis

lemma triple_GetRules:
  "triple (legacyInv K) anyS (GetRules E t c)
     (\<lambda>rules s. (\<forall>r \<in> set rules. r \<in> set (ksRules K) \<and> inChain t c r)
        \<and> rules = filter (inChain t c) (ksRules (kernel s)))"
  unfolding GetRules_def by (rule triple_read) (auto dest: legacyInv_ruleD)

lemma keeps_delLegacy: "keeps quietC (delLegacyBaseRule d r)" "keeps quietC (delLegacyChainRule d r)"
  unfolding delLegacyBaseRule_def delLegacyChainRule_def by (auto intro!: frame_intros keeps_conn)

lemma triple_delLegacyBaseRule:
  assumes "r \<in> set (ksRules K)" "legacyTable (rTable r)" "rChain r \<in> set legacyDaemonBaseChainNames"
  shows "triple (legacyInv K) anyS (delLegacyBaseRule d r) anyR"
  using assms legacyInv_DelRule [of K _ r]
  by (auto simp: delLegacyBaseRule_def triple_def run_simps ownedRule_def split: sum.splits)

lemma triple_delLegacyChainRule:
  assumes "r \<in> set (ksRules K)" "legacyTable (rTable r)" "rChain r \<in> set legacyDaemonChainNames"
  shows "triple (legacyInv K) anyS (delLegacyChainRule d r) anyR"
  using assms legacyInv_DelRule [of K _ r]
  by (auto simp: delLegacyChainRule_def triple_def run_simps ownedRule_def split: sum.splits)

lemma legacyTable_inChain: "inChain t c r \<Longrightarrow> legacyTable t \<Longrightarrow> legacyTable (rTable r) \<and> rChain r = c"
  by (auto simp: inChain_def sameTable_def legacyTable_def)

lemma triple_cleanupLegacyBaseChain:
  assumes "kernelOK E" "legacyTable t"
  shows "triple (legacyInv K) anyS (cleanupLegacyBaseChain E t c) anyR"
proof (cases "tName (cTable c) \<noteq> tName t \<or> cName c \<notin> set legacyDaemonBaseChainNames")
  case False
  have loop: "triple (legacyInv K) (\<lambda>s. (\<forall>r \<in> set rules. r \<in> set (ksRules K) \<and> inChain t (cName c) r) \<and> Q s)
     (bindM (foldM delLegacyBaseRule False rules) (\<lambda>deleted.
        whenM deleted (wrapM w (connFlush E)))) anyR" for rules Q w
  proof (rule triple_pure)
    assume "\<forall>r \<in> set rules. r \<in> set (ksRules K) \<and> inChain t (cName c) r"
    then have mem: "r \<in> set (ksRules K) \<and> legacyTable (rTable r) \<and> rChain r = cName c" if "r \<in> set rules" for r
      using that legacyTable_inChain [OF _ assms(2)] by blast
    have "triple (legacyInv K) anyS (foldM delLegacyBaseRule False rules) anyR"
      by (rule triple_fold, rule triple_delLegacyBaseRule) (use mem False in simp_all)
    then show "triple (legacyInv K) Q (bindM (foldM delLegacyBaseRule False rules) (\<lambda>deleted.
        whenM deleted (wrapM w (connFlush E)))) anyR"
      by (intro triple_bind [where Q = anyR] triple_when triple_wrap triple_flush assms(1))
        (auto elim: triple_conseq)
  qed
  show ?thesis
    unfolding cleanupLegacyBaseChain_def using False loop
    by (auto intro!: triple_bind [OF triple_wrap [OF triple_GetRules]])
qed (simp add: cleanupLegacyBaseChain_def triple_ret)

lemma triple_cleanupLegacyDaemonChainRules:
  assumes "kernelOK E" "legacyTable t" "cName c \<in> set legacyDaemonChainNames"
  shows "triple (legacyInv K) anyS (cleanupLegacyDaemonChainRules E t c)
     (\<lambda>rem s. rem \<or> filter (inChain t (cName c)) (ksRules (kernel s)) = [])"
proof -
  have loop: "triple (legacyInv K) (\<lambda>s. rules = filter (inChain t (cName c)) (ksRules (kernel s)))
     (foldM delLegacyChainRule False rules) (\<lambda>_ s. rules = filter (inChain t (cName c)) (ksRules (kernel s)))"
    if all: "\<forall>r \<in> set rules. r \<in> set (ksRules K) \<and> inChain t (cName c) r" for rules
  proof (rule triple_fold)
    fix a r assume "r \<in> set rules"
    then have "r \<in> set (ksRules K) \<and> legacyTable (rTable r) \<and> rChain r = cName c"
      using all legacyTable_inChain [OF _ assms(2)] by blast
    then have "triple (legacyInv K) anyS (delLegacyChainRule a r) anyR"
      using assms(3) by (intro triple_delLegacyChainRule) simp_all
    with keeps_delLegacy(2) show "triple (legacyInv K) (\<lambda>s. rules = filter (inChain t (cName c)) (ksRules (kernel s)))
       (delLegacyChainRule a r) (\<lambda>_ s. rules = filter (inChain t (cName c)) (ksRules (kernel s)))"
      by (rule triple_quiet)
  qed
  show ?thesis
    unfolding cleanupLegacyDaemonChainRules_def
    by (intro triple_bind [OF triple_wrap [OF triple_GetRules]] triple_pure triple_bind [OF loop])
      (auto intro!: triple_ret triple_then [OF triple_wrap [OF triple_flush [OF assms(1)]]]
        triple_bind [OF triple_wrap [OF triple_GetRules]])
qed

lemma anyChainReferences_run:
  "snd (anyChainReferences E t name cs s) = s
   \<and> (fst (anyChainReferences E t name cs s) = Inr False \<longrightarrow>
      (\<forall>c \<in> set cs. tName (cTable c) = tName t \<longrightarrow>
         (\<forall>r \<in> set (ksRules (kernel s)). inChain t (cName c) r \<longrightarrow> \<not> ruleReferencesChain r name)))"
proof (induction cs)
  case (Cons c cs)
  then show ?case
    by (auto simp: run_simps GetRules_def readM_apply list_ex_iff split: option.splits sum.splits)
qed (simp add: em_apply)

text \<open>While the invariant holds every rule sits in a chain that still exists.\<close>

lemma legacyInv_chain:
  assumes "legacyInv K s" "wfRules K" "r \<in> set (ksRules (kernel s))"
  shows "\<exists>c \<in> set (ksChains (kernel s)). isChain (rTable r) (rChain r) c"
proof -
  have "r \<in> set (ksRules K)" using assms(1,3) by (rule legacyInv_ruleD)
  then obtain c where c: "c \<in> set (ksChains K)" "isChain (rTable r) (rChain r) c"
    using assms(2) unfolding wfRules_def list_ex_iff by blast
  have "\<not> lonely (kernel s) c"
    using assms(3) c(2) by (auto simp: lonely_def isChain_def sameTable_def)
  then show ?thesis using assms(1) c unfolding legacyInv_def by blast
qed

lemma triple_legacyChainReferenced:
  assumes "wfRules K"
  shows "triple (legacyInv K) P (legacyChainReferenced E t name)
     (\<lambda>b s. P s \<and> (b \<or> (\<forall>r \<in> set (ksRules (kernel s)). sameTable (rTable r) t \<longrightarrow> \<not> ruleReferencesChain r name)))"
proof -
  have "\<not> ruleReferencesChain r name"
    if s: "legacyInv K s" and r: "r \<in> set (ksRules (kernel s))" "sameTable (rTable r) t"
      and ans: "fst (anyChainReferences E t name
        (filter (\<lambda>c. tFamily (cTable c) = tFamily t) (ksChains (kernel s))) s) = Inr False" for s r
  proof -
    obtain c where "c \<in> set (ksChains (kernel s))" "isChain (rTable r) (rChain r) c"
      using legacyInv_chain [OF s assms r(1)] by blast
    then show ?thesis
      using anyChainReferences_run ans r by (fastforce simp: isChain_def inChain_def sameTable_def)
  qed
  then show ?thesis
    unfolding triple_def legacyChainReferenced_def
    using anyChainReferences_run
    by (auto simp: run_simps ListChainsOfTableFamily_def readM_apply split: option.splits)
qed

lemma triple_cleanupLegacyDaemonChain:
  assumes "kernelOK E" "wfRules K" "legacyTable t" "tFamily (cTable c) = TableFamilyINet"
  shows "triple (legacyInv K) anyS (cleanupLegacyDaemonChain E t flushed c) anyR"
proof (cases "tName (cTable c) \<noteq> tName t \<or> cName c \<notin> set legacyDaemonChainNames")
  case False
  then have own: "ownedChain c" "cName c \<in> set legacyDaemonChainNames" and same: "sameTable (cTable c) t"
    using assms(3,4) by (auto simp: ownedChain_def legacyTable_def sameTable_def)
  have lonely: "lonely (kernel s) c"
    if "filter (inChain t (cName c)) (ksRules (kernel s)) = []"
      "\<forall>r \<in> set (ksRules (kernel s)). sameTable (rTable r) t \<longrightarrow> \<not> ruleReferencesChain r (cName c)" for s
    using that same by (auto simp: lonely_def filter_empty_conv inChain_def sameTable_def)
  have del: "triple (legacyInv K) (\<lambda>s. lonely (kernel s) c) (connDelChain c) anyR"
    unfolding connDelChain_def using own by (intro triple_queue) auto
  have "triple (legacyInv K) (\<lambda>s. (rem \<or> filter (inChain t (cName c)) (ksRules (kernel s)) = [])
      \<and> (ref \<or> (\<forall>r \<in> set (ksRules (kernel s)). sameTable (rTable r) t \<longrightarrow> \<not> ruleReferencesChain r (cName c))))
     (if ref then retM flushed else if rem then retM flushed else thenM (connDelChain c) (retM True)) anyR" for rem ref
    using lonely
    by (auto intro!: triple_ret triple_then [OF triple_conseq [OF del]])
  then show ?thesis
    unfolding cleanupLegacyDaemonChain_def using False
    by (auto intro!: triple_bind [OF triple_cleanupLegacyDaemonChainRules [OF assms(1,3) own(2)]]
        triple_bind [OF triple_legacyChainReferenced [OF assms(2)]])
qed (simp add: cleanupLegacyDaemonChain_def triple_ret)

lemma triple_delLegacySet:
  assumes "s \<in> fst ` set (ksSets K)" "legacyTable (sTable s)"
  shows "triple (legacyInv K) anyS (delLegacySet f s) anyR"
proof -
  have "allowedDel K (MsgDelSet s)" if "legacyDaemonSet s"
    using assms that by (simp add: ownedSet_def)
  then show ?thesis
    unfolding delLegacySet_def connDelSet_def
    by (auto intro!: triple_ret triple_then [where Q = anyS] triple_queue simp del: allowedDel.simps)
qed

lemma triple_GetSets:
  "triple (legacyInv K) anyS (GetSets E t) (\<lambda>sets _. \<forall>s \<in> set sets. s \<in> fst ` set (ksSets K) \<and> sameTable (sTable s) t)"
  unfolding GetSets_def
  by (rule triple_read) (use legacyInv_rules in \<open>fastforce\<close>)

lemma triple_cleanupLegacyTable:
  assumes "kernelOK E" "wfRules K" "tFamily t = TableFamilyINet"
  shows "triple (legacyInv K) anyS (cleanupLegacyTable E t) anyR"
proof (cases "tName t \<in> set legacyNames")
  case True
  then have t: "legacyTable t" using assms(3) by (simp add: legacyTable_def)
  have chains: "triple (legacyInv K) anyS (ListChainsOfTableFamily E TableFamilyINet)
     (\<lambda>cs s. (\<forall>c \<in> set cs. tFamily (cTable c) = TableFamilyINet) \<and> True)"
    unfolding ListChainsOfTableFamily_def by (rule triple_read) auto
  have daemon: "triple (legacyInv K) anyS (foldM (cleanupLegacyDaemonChain E t) False cs) anyR"
    if "\<forall>c \<in> set cs. tFamily (cTable c) = TableFamilyINet" for cs
    by (rule triple_fold, rule triple_cleanupLegacyDaemonChain [OF assms(1,2) t]) (use that in blast)
  have base: "triple (legacyInv K) anyS (forM cs (cleanupLegacyBaseChain E t)) anyR" for cs
    by (rule triple_for, rule triple_cleanupLegacyBaseChain [OF assms(1) t])
  have sets: "triple (legacyInv K) anyS (GetSets E t)
     (\<lambda>sets s. (\<forall>s \<in> set sets. s \<in> fst ` set (ksSets K) \<and> legacyTable (sTable s)) \<and> True)"
    by (rule triple_conseq [OF triple_GetSets]) (use t in \<open>auto simp: sameTable_def legacyTable_def\<close>)
  have dels: "triple (legacyInv K) anyS (foldM delLegacySet f sets) anyR"
    if "\<forall>s \<in> set sets. s \<in> fst ` set (ksSets K) \<and> legacyTable (sTable s)" for f sets
    by (rule triple_fold, rule triple_delLegacySet) (use that in blast)+
  show ?thesis
    unfolding cleanupLegacyTable_def using True
    by simp (intro triple_bind [OF triple_wrap [OF chains]] triple_pure triple_then [OF base]
        triple_bind [OF daemon] triple_bind [OF triple_wrap [OF sets]] triple_bind [OF dels]
        triple_when triple_wrap triple_flush assms(1), assumption+)
qed (simp add: cleanupLegacyTable_def triple_ret)

lemma triple_CleanupLegacyTables:
  assumes "kernelOK E" "wfRules K"
  shows "triple (legacyInv K) anyS (CleanupLegacyTables E) anyR"
proof -
  have tables: "triple (legacyInv K) anyS (ListTablesOfFamily E TableFamilyINet)
     (\<lambda>ts s. (\<forall>t \<in> set ts. tFamily t = TableFamilyINet) \<and> True)"
    unfolding ListTablesOfFamily_def by (rule triple_read) auto
  have loop: "triple (legacyInv K) anyS (forM ts (cleanupLegacyTable E)) anyR"
    if "\<forall>t \<in> set ts. tFamily t = TableFamilyINet" for ts
    by (rule triple_for, rule triple_cleanupLegacyTable [OF assms]) (use that in blast)
  show ?thesis
    unfolding CleanupLegacyTables_def
    by (rule triple_bind [OF triple_wrap [OF tables]], rule triple_pure, rule loop)
qed

section \<open>What it leaves behind\<close>

lemma filter_filter_absorb: "(\<And>x. x \<in> set xs \<Longrightarrow> P x \<Longrightarrow> Q x) \<Longrightarrow> filter P (filter Q xs) = filter P xs"
  by (induction xs) auto

lemma applyMsg_foreign:
  assumes "allowedDel K m" "wfRules K" "set (ksRules rs) \<subseteq> set (ksRules K)" "set (ksSets rs) \<subseteq> set (ksSets K)"
  shows "filter (\<lambda>r. \<not> ownedRule r) (ksRules (applyMsg rs m)) = filter (\<lambda>r. \<not> ownedRule r) (ksRules rs)"
    and "filter (\<lambda>c. \<not> ownedChain c) (ksChains (applyMsg rs m)) = filter (\<lambda>c. \<not> ownedChain c) (ksChains rs)"
    and "filter (\<lambda>s. \<not> ownedSet (fst s)) (ksSets (applyMsg rs m)) = filter (\<lambda>s. \<not> ownedSet (fst s)) (ksSets rs)"
proof -
  have rule: "x = r" if "x \<in> set (ksRules rs)" "r \<in> set (ksRules K)" "inChain (rTable r) (rChain r) x"
    "rHandle x = rHandle r" for x r
    using wfRules_rule [OF assms(2), of x r] that assms(3) by (auto simp: inChain_def)
  show "filter (\<lambda>r. \<not> ownedRule r) (ksRules (applyMsg rs m)) = filter (\<lambda>r. \<not> ownedRule r) (ksRules rs)"
  proof (cases m)
    case (MsgDelRule r)
    then show ?thesis
      using assms(1) rule by (simp add: filter_filter_absorb del: filter_filter)
        (rule filter_filter_absorb, blast)
  qed (use assms(1) in auto)
  show "filter (\<lambda>c. \<not> ownedChain c) (ksChains (applyMsg rs m)) = filter (\<lambda>c. \<not> ownedChain c) (ksChains rs)"
  proof (cases m)
    case (MsgDelChain c)
    have "ownedChain x" if "isChain (cTable c) (cName c) x" for x
      using assms(1) that MsgDelChain by (auto simp: ownedChain_def isChain_def sameTable_def legacyTable_def)
    then show ?thesis
      by (simp add: MsgDelChain del: filter_filter) (rule filter_filter_absorb, blast)
  qed (use assms(1) in auto)
  show "filter (\<lambda>s. \<not> ownedSet (fst s)) (ksSets (applyMsg rs m)) = filter (\<lambda>s. \<not> ownedSet (fst s)) (ksSets rs)"
  proof (cases m)
    case (MsgDelSet s)
    have "ownedSet (fst x)" if x: "x \<in> set (ksSets rs)" "isSet (sTable s) (sName s) x" for x
    proof -
      obtain y where y: "y \<in> set (ksSets K)" "fst y = s" using assms(1) MsgDelSet by auto
      have "x = y"
        using wfRules_set [OF assms(2) _ y(1), of x] x assms(4) y(2) by (auto simp: isSet_def)
      then show ?thesis using assms(1) MsgDelSet y by simp
    qed
    then show ?thesis
      by (simp add: MsgDelSet del: filter_filter) (rule filter_filter_absorb, blast)
  qed (use assms(1) in auto)
qed

lemma applyMsgs_foreign:
  assumes "list_all (allowedDel K) ms" "wfRules K" "set (ksRules rs) \<subseteq> set (ksRules K)" "set (ksSets rs) \<subseteq> set (ksSets K)"
  shows "filter (\<lambda>r. \<not> ownedRule r) (ksRules (applyMsgs rs ms)) = filter (\<lambda>r. \<not> ownedRule r) (ksRules rs)
    \<and> filter (\<lambda>c. \<not> ownedChain c) (ksChains (applyMsgs rs ms)) = filter (\<lambda>c. \<not> ownedChain c) (ksChains rs)
    \<and> filter (\<lambda>s. \<not> ownedSet (fst s)) (ksSets (applyMsgs rs ms)) = filter (\<lambda>s. \<not> ownedSet (fst s)) (ksSets rs)"
  using assms(1,3,4)
proof (induction ms arbitrary: rs)
  case (Cons m ms)
  then have m: "allowedDel K m" and ms: "list_all (allowedDel K) ms" by simp_all
  have "set (ksRules (applyMsg rs m)) \<subseteq> set (ksRules K)" "set (ksSets (applyMsg rs m)) \<subseteq> set (ksSets K)"
    using applyMsg_del_subset [OF m, of rs] Cons.prems by blast+
  from Cons.IH [OF ms this] applyMsg_foreign [OF m assms(2) Cons.prems(2,3)]
  show ?case by simp
qed simp

text \<open>(C15)
  \<^verbatim>\<open>CleanupLegacyTables\<close> touches only what the daemon owns, on every path, failures included: no table
  is deleted, and the rules, chains and sets that are not daemon-owned objects of the two legacy
  tables are all still there, unchanged and in their order.
\<close>

theorem CleanupLegacyTables_safe:
  assumes "kernelOK E" "wfRules (kernel c)" "messages c = []"
  shows "let K = kernel c; K' = kernel (snd (CleanupLegacyTables E c)) in
      ksTables K' = ksTables K
    \<and> filter (\<lambda>r. \<not> ownedRule r) (ksRules K') = filter (\<lambda>r. \<not> ownedRule r) (ksRules K)
    \<and> filter (\<lambda>c. \<not> ownedChain c) (ksChains K') = filter (\<lambda>c. \<not> ownedChain c) (ksChains K)
    \<and> filter (\<lambda>s. \<not> ownedSet (fst s)) (ksSets K') = filter (\<lambda>s. \<not> ownedSet (fst s)) (ksSets K)"
proof -
  let ?c = "snd (CleanupLegacyTables E c)"
  have "legacyInv (kernel c) ?c"
    using triple_CleanupLegacyTables [OF assms(1,2)] legacyInv_start [OF assms(3)]
    unfolding triple_def by blast
  then obtain ms where ms: "list_all (allowedDel (kernel c)) ms" "kernel ?c = applyMsgs (kernel c) ms"
    unfolding legacyInv_def by blast
  then show ?thesis
    using applyMsgs_foreign [OF ms(1) assms(2), of "kernel c"] applyMsgs_del_subset [OF ms(1), of "kernel c"]
    by (simp add: Let_def)
qed

text \<open>An example: the shared table \<^verbatim>\<open>filter\<close> with an abandoned daemon chain and a foreign rule.\<close>

definition exLegacyTable :: table where
  "exLegacyTable = \<lparr>tName = ''filter'', tFamily = TableFamilyINet\<rparr>"

definition exLegacyChain :: "string \<Rightarrow> chain" where
  "exLegacyChain name = (nilChain exLegacyTable)\<lparr>cName := name\<rparr>"

definition exLegacyRule :: "string \<Rightarrow> nat \<Rightarrow> rule" where
  "exLegacyRule comment h =
     (newRuleOf exLegacyTable (exLegacyChain ''input'') comment [Verdict VerdictAccept []])\<lparr>rHandle := h\<rparr>"

definition exLegacyConn :: conn where
  "exLegacyConn = newConn (emptyRuleset\<lparr>ksTables := [exLegacyTable],
     ksChains := [exLegacyChain ''input'', exLegacyChain ''multi-ingress''],
     ksRules := [exLegacyRule ''foreign'' 2]\<rparr>)"

lemmas exLegacy_defs = exLegacyTable_def exLegacyChain_def exLegacyRule_def exLegacyConn_def newConn_def
  emptyRuleset_def nilChain_def newRuleOf_def

lemma exLegacy_ok:
  "kernelOK (idealEnv (\<lambda>_. []))" "wfRules (kernel exLegacyConn)" "messages exLegacyConn = []"
  by (simp_all add: exLegacy_defs wfRules_def isChain_def sameTable_def)

lemma exLegacy_run:
  "kernel (snd (CleanupLegacyTables (idealEnv (\<lambda>_. [])) exLegacyConn)) =
     (kernel exLegacyConn)\<lparr>ksChains := [exLegacyChain ''input'']\<rparr>"
  by (simp add: CleanupLegacyTables_def cleanupLegacyTable_def cleanupLegacyBaseChain_def
      cleanupLegacyDaemonChain_def cleanupLegacyDaemonChainRules_def legacyChainReferenced_def
      delLegacyBaseRule_def legacyDaemonRule_def run_simps readM_apply exLegacy_defs
      ListTablesOfFamily_def ListChainsOfTableFamily_def GetRules_def GetSets_def legacyNames_def
      legacyDaemonBaseChainNames_def legacyDaemonChainNames_def legacyDaemonRuleComments_def name_consts
      inChain_def sameTable_def ruleReferencesChain_def exprReferencesChain_def conn_run connFlush_def isChain_def)

theorem CleanupLegacyTables_safe_witness:
  "exLegacyRule ''foreign'' 2 \<in> set (ksRules (kernel (snd (CleanupLegacyTables (idealEnv (\<lambda>_. [])) exLegacyConn))))"
proof -
  have "\<not> ownedRule (exLegacyRule ''foreign'' 2)"
    by (simp add: exLegacy_defs ownedRule_def legacyDaemonRule_def legacyDaemonRuleComments_def
        legacyDaemonBaseChainNames_def legacyDaemonChainNames_def name_consts)
  then have "exLegacyRule ''foreign'' 2 \<in> set (filter (\<lambda>r. \<not> ownedRule r) (ksRules (kernel exLegacyConn)))"
    by (simp add: exLegacy_defs)
  also have "filter (\<lambda>r. \<not> ownedRule r) (ksRules (kernel exLegacyConn)) =
      filter (\<lambda>r. \<not> ownedRule r) (ksRules (kernel (snd (CleanupLegacyTables (idealEnv (\<lambda>_. [])) exLegacyConn))))"
    using CleanupLegacyTables_safe [OF exLegacy_ok] unfolding Let_def by simp
  finally show ?thesis by simp
qed

text \<open>(C16)
  \<^verbatim>\<open>CleanupLegacyTables\<close> leaves no dangling jump: a chain it removed holds no remaining rule, and no
  remaining rule of that table jumps or goes to it.
\<close>

theorem CleanupLegacyTables_no_dangling:
  assumes "kernelOK E" "wfRules (kernel c)" "messages c = []"
    and "ch \<in> set (ksChains (kernel c))" "ch \<notin> set (ksChains (kernel (snd (CleanupLegacyTables E c))))"
    and "r \<in> set (ksRules (kernel (snd (CleanupLegacyTables E c))))" "sameTable (rTable r) (cTable ch)"
  shows "ownedChain ch \<and> rChain r \<noteq> cName ch \<and> \<not> ruleReferencesChain r (cName ch)"
proof -
  let ?c = "snd (CleanupLegacyTables E c)"
  have inv: "legacyInv (kernel c) ?c"
    using triple_CleanupLegacyTables [OF assms(1,2)] legacyInv_start [OF assms(3)]
    unfolding triple_def by blast
  then have "lonely (kernel ?c) ch" using assms(4,5) unfolding legacyInv_def by blast
  moreover obtain ms where ms: "list_all (allowedDel (kernel c)) ms" "kernel ?c = applyMsgs (kernel c) ms"
    using inv unfolding legacyInv_def by blast
  obtain d where "MsgDelChain d \<in> set ms" "isChain (cTable d) (cName d) ch"
    using applyMsgs_del_chain [OF ms(1) assms(4)] assms(5) ms(2) by auto
  then have "ownedChain ch"
    using ms(1) by (auto simp: list_all_iff ownedChain_def isChain_def sameTable_def legacyTable_def)
  ultimately show ?thesis using assms(6,7) by (simp add: lonely_def)
qed

theorem CleanupLegacyTables_no_dangling_witness:
  "ownedChain (exLegacyChain ''multi-ingress'') \<and> ''input'' \<noteq> ''multi-ingress''
   \<and> \<not> ruleReferencesChain (exLegacyRule ''foreign'' 2) ''multi-ingress''"
proof -
  have "ownedChain (exLegacyChain ''multi-ingress'')
     \<and> rChain (exLegacyRule ''foreign'' 2) \<noteq> cName (exLegacyChain ''multi-ingress'')
     \<and> \<not> ruleReferencesChain (exLegacyRule ''foreign'' 2) (cName (exLegacyChain ''multi-ingress''))"
    by (rule CleanupLegacyTables_no_dangling [OF exLegacy_ok])
      (unfold exLegacy_run, simp_all add: exLegacy_defs sameTable_def)
  then show ?thesis by (simp add: exLegacy_defs)
qed

end
