(* ===== verification/Generator.thy ===== *)
theory Generator
  imports Policy_Types Legacy
begin

text \<open>
  The rule generator of \<^verbatim>\<open>netfilterrules.go\<close>: the tables, chains and entry rules every pod gets, the
  rules shared by all policies, and for each policy its chain with the port and peer sub-chains.
  Every function is the one of the source with the same name, in the state-and-error monad over
  \<open>nftState\<close>.
\<close>

section \<open>Constants of the kernel interface\<close>

definition IPPROTO_ICMP :: byte where "IPPROTO_ICMP = 1"
definition IPPROTO_ICMPV6 :: byte where "IPPROTO_ICMPV6 = 58"
definition NFPROTO_IPV4 :: byte where "NFPROTO_IPV4 = 2"
definition NFPROTO_IPV6 :: byte where "NFPROTO_IPV6 = 10"
definition IPv4OffSet :: "32 word" where "IPv4OffSet = 12"
definition IPv6OffSet :: "32 word" where "IPv6OffSet = 8"
definition IPv4len :: "32 word" where "IPv4len = 4"
definition IPv6len :: "32 word" where "IPv6len = 16"
definition CtStateBitESTABLISHED :: "32 word" where "CtStateBitESTABLISHED = 2"
definition CtStateBitRELATED :: "32 word" where "CtStateBitRELATED = 4"

lemmas kernel_consts = IPPROTO_ICMP_def IPPROTO_ICMPV6_def NFPROTO_IPV4_def NFPROTO_IPV6_def
  IPv4OffSet_def IPv6OffSet_def IPv4len_def IPv6len_def CtStateBitESTABLISHED_def CtStateBitRELATED_def

section \<open>Expression groups\<close>

text \<open>Runs of expressions that the source spells out again in every rule.\<close>

definition cmpEq :: "byte list \<Rightarrow> nft_expr" where
  "cmpEq data = Cmp CmpOpEq 1 data"

text \<open>\<^verbatim>\<open>mark = (mark & keep) ^ bits\<close>, stored back.\<close>

definition maskMark :: "nft_env \<Rightarrow> 32 word \<Rightarrow> 32 word \<Rightarrow> nft_expr" where
  "maskMark E keep bits = Bitwise 1 1 4 (nativePutUint32 (envLittle E) keep) (nativePutUint32 (envLittle E) bits)"

definition setMarkExprs :: "nft_env \<Rightarrow> 32 word \<Rightarrow> nft_expr list" where
  "setMarkExprs E m = [metaLoad MetaKeyMARK, maskMark E (NOT m) m, metaStore MetaKeyMARK]"

definition checkMarkExprs :: "nft_env \<Rightarrow> nft_expr list" where
  "checkMarkExprs E =
     [metaLoad MetaKeyMARK, maskMark E matchRuleMark zeroRuleMark,
      cmpEq (nativePutUint32 (envLittle E) matchRuleMark), zeroCounter, Verdict VerdictReturn []]"

definition matchProto :: "byte \<Rightarrow> nft_expr list" where
  "matchProto p = [metaLoad MetaKeyNFPROTO, cmpEq [p]]"

definition jumpTo :: "string \<Rightarrow> nft_expr list" where
  "jumpTo name = [zeroCounter, Verdict VerdictJump name]"

section \<open>Adding rules\<close>

definition addRule ::
  "nft_env \<Rightarrow> table \<Rightarrow> chain \<Rightarrow> string \<Rightarrow> nft_expr list \<Rightarrow> (nftState, unit) em" where
  "addRule E t c comment es = thenM (updateRule E (newRuleOf t c comment es) connAddRule False) (retM ())"

definition insertRule ::
  "nft_env \<Rightarrow> table \<Rightarrow> chain \<Rightarrow> string \<Rightarrow> nft_expr list \<Rightarrow> (nftState, unit) em" where
  "insertRule E t c comment es = thenM (updateRule E (newRuleOf t c comment es) connInsertRule False) (retM ())"

section \<open>Bootstrap\<close>

definition addTable :: "nft_env \<Rightarrow> table \<Rightarrow> (conn, table) em" where
  "addTable E t =
     bindM (tryM (ListTableOfFamily E (tName t) (tFamily t))) (\<lambda>got.
       case got of
         Inl e \<Rightarrow> (if \<not> errorsIs e ErrNotExist then throwM (ErrWrap ''failed to check existence of table'' e)
                   else connAddTable t)
       | Inr t0 \<Rightarrow> retM t0)"

definition baseChain :: "table \<Rightarrow> string \<Rightarrow> nat \<Rightarrow> int \<Rightarrow> string \<Rightarrow> chain" where
  "baseChain t name hook prio typ =
     \<lparr>cName = name, cTable = t, cHook = Some hook, cPriority = Some prio, cType = typ\<rparr>"

definition regularChain :: "table \<Rightarrow> string \<Rightarrow> chain" where
  "regularChain t name = \<lparr>cName = name, cTable = t, cHook = None, cPriority = None, cType = []\<rparr>"

definition bootstrapNetfilterChains :: "nft_env \<Rightarrow> (nftState, unit) em" where
  "bootstrapNetfilterChains E =
     bindM getM (\<lambda>n0. let f = nFilter n0; t = nNat n0 in
     bindM (wrapM ''failed to create input chain'' (addChain E (baseChain f ''input'' 1 0 ''filter''))) (\<lambda>c.
     thenM (modifyM (\<lambda>n. n\<lparr>nInput := c\<rparr>)) (
     bindM (wrapM ''failed to create output chain'' (addChain E (baseChain f ''output'' 3 0 ''filter''))) (\<lambda>c.
     thenM (modifyM (\<lambda>n. n\<lparr>nOutput := c\<rparr>)) (
     bindM (wrapM ''failed to create prerouting chain''
              (addChain E (baseChain t ''prerouting'' 0 (-100) ''nat''))) (\<lambda>c.
     thenM (modifyM (\<lambda>n. n\<lparr>nPrerouting := c\<rparr>)) (
     bindM (wrapM ''failed to create chain'' (addChain E (regularChain f ingressChainName))) (\<lambda>c.
     thenM (modifyM (\<lambda>n. n\<lparr>nIngressChain := c\<rparr>)) (
     bindM (wrapM ''failed to create chain'' (addChain E (regularChain f egressChainName))) (\<lambda>c.
     thenM (modifyM (\<lambda>n. n\<lparr>nEgressChain := c\<rparr>)) (
     bindM (wrapM ''failed to create chain''
              (addChain E (regularChain f (ingressChainName @ ''-'' @ commonName)))) (\<lambda>c.
     thenM (modifyM (\<lambda>n. n\<lparr>commonIngressChain := c\<rparr>)) (
     bindM (wrapM ''failed to create chain''
              (addChain E (regularChain f (egressChainName @ ''-'' @ commonName)))) (\<lambda>c.
     modifyM (\<lambda>n. n\<lparr>commonEgressChain := c\<rparr>)))))))))))))))"

definition ifaceSet :: "table \<Rightarrow> string \<Rightarrow> nft_set" where
  "ifaceSet t comment =
     (nilSet t)\<lparr>sName := podInterfacesName, sKeyType := TypeIFName, sKeyNative := True, sCounter := True,
                sComment := comment\<rparr>"

definition interfaceSetElements :: "interface_info list \<Rightarrow> set_element list" where
  "interfaceSetElements ifs =
     map (\<lambda>(i, x). \<lparr>eKey = ifname (interfaceName x), eIntervalEnd = False,
            eComment = ''pod interface ['' @ itoa i @ '']: '' @ interfaceName x\<rparr>) (enumerate 0 ifs)"

text \<open>The entry rules: jump to the policy chains for the pod's secondary interfaces.\<close>

definition entryExprs :: "meta_key \<Rightarrow> nft_set \<Rightarrow> nft_expr \<Rightarrow> nft_expr list" where
  "entryExprs key s verdict = [metaLoad key, lookupSet (sName s) (sID s), zeroCounter, verdict]"

definition bootstrapInterfaceRules :: "nft_env \<Rightarrow> interface_info list \<Rightarrow> (nftState, unit) em" where
  "bootstrapInterfaceRules E ifs =
     (let els = interfaceSetElements ifs in
     bindM getM (\<lambda>n.
     bindM (wrapM ''failed to update set'' (updateSet E (ifaceSet (nFilter n) ''Pod interfaces'') els)) (\<lambda>fs.
     thenM (modifyM (\<lambda>n. n\<lparr>interfaceFilterSet := fs\<rparr>)) (
     thenM (wrapM ''failed to install rule''
       (insertRule E (nFilter n) (nInput n) inputInterfaceFilterComment
          (entryExprs MetaKeyIIFNAME fs (Verdict VerdictJump (cName (nIngressChain n)))))) (
     thenM (wrapM ''failed to install rule''
       (insertRule E (nFilter n) (nOutput n) outputInterfaceFilterComment
          (entryExprs MetaKeyOIFNAME fs (Verdict VerdictJump (cName (nEgressChain n)))))) (
     bindM (wrapM ''failed to update set'' (updateSet E (ifaceSet (nNat n) ''Pod interfaces NAT'') els)) (\<lambda>ns.
     thenM (modifyM (\<lambda>n. n\<lparr>interfaceNatSet := ns\<rparr>)) (
     thenM (insertRule E (nNat n) (nPrerouting n) natFilterRuleComment
          (entryExprs MetaKeyIIFNAME ns (Verdict VerdictReturn []))) (
     thenM (insertRule E (nFilter n) (nIngressChain n) ''common-ingress-chain'' (jumpTo (cName (commonIngressChain n)))) (
     insertRule E (nFilter n) (nEgressChain n) ''common-egress-chain'' (jumpTo (cName (commonEgressChain n)))))))))))))"

text \<open>Runs the part of a function that works on a fresh \<^verbatim>\<open>nftState\<close>.\<close>

definition withState :: "nftState \<Rightarrow> (nftState, 'a) em \<Rightarrow> (conn, 'a \<times> nftState) em" where
  "withState n m =
     (\<lambda>c. case m (n\<lparr>nft := c\<rparr>) of (Inl e, n') \<Rightarrow> (Inl e, nft n') | (Inr x, n') \<Rightarrow> (Inr (x, n'), nft n'))"

text \<open>
  The interfaces are sorted in place, through the pointer to the pod's info: the sorted list is
  part of the result.
\<close>

definition sortInterfaces :: "interface_info list \<Rightarrow> interface_info list" where
  "sortInterfaces ifs = sort_key interfaceName ifs"

definition bootstrapNetfilterRules ::
  "nft_env \<Rightarrow> pod_info option \<Rightarrow> (conn, pod_info \<times> nftState) em" where
  "bootstrapNetfilterRules E podInfo =
     (case podInfo of
        None \<Rightarrow> throwM (ErrText ''podInfo or podInfo.Interfaces is nil/empty'')
      | Some pi \<Rightarrow>
          if piInterfaces pi = [] then throwM (ErrText ''podInfo or podInfo.Interfaces is nil/empty'')
          else
            thenM (CleanupLegacyTables E) (
            bindM (wrapM ''failed to add table''
                     (addTable E \<lparr>tName = FilterTableName, tFamily = TableFamilyINet\<rparr>)) (\<lambda>filterTable.
            bindM (wrapM ''failed to add table''
                     (addTable E \<lparr>tName = NatTableName, tFamily = TableFamilyINet\<rparr>)) (\<lambda>natTable.
            bindM getM (\<lambda>c.
            let ifs = sortInterfaces (piInterfaces pi) in
            bindM (withState (newNftState c filterTable natTable)
                     (thenM (bootstrapNetfilterChains E) (bootstrapInterfaceRules E ifs))) (\<lambda>(_, n).
              retM (pi\<lparr>piInterfaces := ifs\<rparr>, n)))))))"

section \<open>Rules shared by all policies\<close>

definition allowICMP :: "nft_env \<Rightarrow> chain \<Rightarrow> bool \<Rightarrow> (nftState, unit) em" where
  "allowICMP E chain icmpv6 =
     (let data = (if icmpv6 then [IPPROTO_ICMPV6] else [IPPROTO_ICMP]);
          proto = (if icmpv6 then protoIPv6 else protoIPv4) in
      bindM getM (\<lambda>n.
        addRule E (nFilter n) chain (''allow_icmp_'' @ proto)
          [metaLoad MetaKeyL4PROTO, cmpEq data, zeroCounter, Verdict VerdictAccept []]))"

definition ndpElements :: "set_element list" where
  "ndpElements = map (\<lambda>k. startAt [k]) [133, 134, 135, 136]"

definition allowNeighborDiscovery :: "nft_env \<Rightarrow> chain \<Rightarrow> (nftState, unit) em" where
  "allowNeighborDiscovery E chain =
     bindM getM (\<lambda>n.
     bindM (wrapM ''failed to update NDP set''
       (updateSet E ((nilSet (nFilter n))\<lparr>sName := ''ndp_set'', sKeyType := TypeICMP6Type, sCounter := True\<rparr>)
          ndpElements)) (\<lambda>ndpSet.
     wrapM ''failed to add IPv6 NDP discovery rule''
       (insertRule E (nFilter n) chain ''allow-ipv6-ndp-discovery''
          (matchProto NFPROTO_IPV6
           @ [metaLoad MetaKeyL4PROTO, cmpEq [IPPROTO_ICMPV6], payloadLoad PayloadBaseTransportHeader 0 1,
              lookupSet (sName ndpSet) (sID ndpSet), zeroCounter, Verdict VerdictAccept []]))))"

text \<open>The address the chain filters on: the source for ingress, the destination for egress.\<close>

definition addrOffset :: "string \<Rightarrow> bool \<Rightarrow> 32 word" where
  "addrOffset chainName isV6 =
     (let base = (if isV6 then IPv6OffSet else IPv4OffSet); len = (if isV6 then IPv6len else IPv4len) in
      if isIngressChain chainName then base else base + len)"

definition addrLen :: "bool \<Rightarrow> 32 word" where
  "addrLen isV6 = (if isV6 then IPv6len else IPv4len)"

definition nfProtocolOf :: "bool \<Rightarrow> byte" where
  "nfProtocolOf isV6 = (if isV6 then NFPROTO_IPV6 else NFPROTO_IPV4)"

definition protocolOf :: "bool \<Rightarrow> string" where
  "protocolOf isV6 = (if isV6 then protoIPv6 else protoIPv4)"

definition keyTypeOf :: "bool \<Rightarrow> set_datatype" where
  "keyTypeOf isV6 = (if isV6 then TypeIP6Addr else TypeIPAddr)"

definition addrLookup :: "string \<Rightarrow> bool \<Rightarrow> nft_set \<Rightarrow> nft_expr list" where
  "addrLookup chainName isV6 s =
     matchProto (nfProtocolOf isV6)
     @ [payloadLoad PayloadBaseNetworkHeader (addrOffset chainName isV6) (addrLen isV6),
        lookupSet (sName s) (sID s)]"

definition commonPrefixRule ::
  "nft_env \<Rightarrow> chain \<Rightarrow> string \<Rightarrow> bool \<Rightarrow> set_element list \<Rightarrow> (nftState, unit) em" where
  "commonPrefixRule E chain prefix isV6 els =
     bindM getM (\<lambda>n.
     bindM (wrapM ''failed to update set''
       (updateSet E ((nilSet (nFilter n))\<lparr>
            sName := prefix @ ''_'' @ protocolOf isV6 @ ''_'' @ getAddressSuffix (cName chain),
            sKeyType := keyTypeOf isV6, sInterval := True\<rparr>) els)) (\<lambda>s.
     addRule E (nFilter n) chain (''common rule:'' @ sName s)
       (addrLookup (cName chain) isV6 s @ [zeroCounter, Verdict VerdictAccept []])))"

definition applyCommonPrefixRules ::
  "nft_env \<Rightarrow> chain \<Rightarrow> string list \<Rightarrow> string \<Rightarrow> (nftState, unit) em" where
  "applyCommonPrefixRules E chain prefixes prefix =
     bindM (wrapM ''failed to get prefix sets of prefixes'' (liftR (getPrefixesAsSetInterval prefixes)))
       (\<lambda>(v4Prefixes, v6Prefixes).
     thenM (whenM (v4Prefixes \<noteq> []) (commonPrefixRule E chain prefix False v4Prefixes))
           (whenM (v6Prefixes \<noteq> []) (commonPrefixRule E chain prefix True v6Prefixes)))"

definition allowConntracked :: "nft_env \<Rightarrow> chain \<Rightarrow> (nftState, unit) em" where
  "allowConntracked E chain =
     bindM getM (\<lambda>n.
       addRule E (nFilter n) chain allowConntrackRuleName
         [Ct 1 False CtKeySTATE 0 False,
          Bitwise 1 1 4 (nativePutUint32 (envLittle E) (CtStateBitESTABLISHED OR CtStateBitRELATED))
            (nativePutUint32 (envLittle E) zeroRuleMark),
          Cmp CmpOpNeq 1 [0, 0, 0, 0], zeroCounter, Verdict VerdictAccept []])"

definition applyCommonChainRules :: "nft_env \<Rightarrow> common_rule_config \<Rightarrow> (nftState, unit) em" where
  "applyCommonChainRules E cfg =
     bindM getM (\<lambda>n. let ic = commonIngressChain n; ec = commonEgressChain n in
     thenM (if acceptICMPv6 cfg then
              thenM (wrapM ''failed to allow ICMPv6 in common ingress chain'' (allowICMP E ic True))
                    (wrapM ''failed to allow ICMPv6 in common egress chain'' (allowICMP E ec True))
            else
              thenM (wrapM ''failed to allow ICMPv6 neighbor discovery in common ingress chain''
                       (allowNeighborDiscovery E ic))
                    (wrapM ''failed to allow ICMPv6 neighbor discovery in common egress chain''
                       (allowNeighborDiscovery E ec))) (
     thenM (whenM (acceptICMP cfg)
              (thenM (wrapM ''failed to allow ICMP in common ingress chain'' (allowICMP E ic False))
                     (wrapM ''failed to allow ICMP in common egress chain'' (allowICMP E ec False)))) (
     thenM (whenM (allowSrcPrefix cfg \<noteq> [])
              (wrapM ''failed to apply common ingress rules''
                 (applyCommonPrefixRules E ic (allowSrcPrefix cfg) commonName))) (
     thenM (whenM (allowDstPrefix cfg \<noteq> [])
              (wrapM ''failed to apply common egress rules''
                 (applyCommonPrefixRules E ec (allowDstPrefix cfg) commonName))) (
     thenM (wrapM ''failed to apply common ingress conntrack rules'' (allowConntracked E ic))
           (wrapM ''failed to apply common egress conntrack rules'' (allowConntracked E ec)))))))"

section \<open>Entry of a policy\<close>

definition policyNamespacedName :: "policy \<Rightarrow> string" where
  "policyNamespacedName p = polNamespace p @ ''/'' @ polName p"

definition policyRuleNamespacedName :: "policy \<Rightarrow> string" where
  "policyRuleNamespacedName p = polNamespace p @ ''-'' @ polName p"

definition getMetaKeyInterface :: "string \<Rightarrow> meta_key" where
  "getMetaKeyInterface chainName = (if isIngressChain chainName then MetaKeyIIFNAME else MetaKeyOIFNAME)"

definition applyPodInterfaceRules ::
  "nft_env \<Rightarrow> chain \<Rightarrow> chain \<Rightarrow> policy \<Rightarrow> interface_info \<Rightarrow> (nftState, bool) em" where
  "applyPodInterfaceRules E chain policyChain policy podInterface =
     bindM getM (\<lambda>n.
       updateRule E (newRuleOf (nFilter n) chain
         (''policy:'' @ policyNamespacedName policy @ '', name:'' @ cName chain
          @ '', net-attach-def:'' @ netattachName podInterface @ '', interface:'' @ interfaceName podInterface
          @ '', cni:'' @ interfaceType podInterface @ '', jump:'' @ cName policyChain)
         ([metaLoad (getMetaKeyInterface (cName chain)), cmpEq (ifname (interfaceName podInterface))]
          @ jumpTo (cName policyChain))) connAddRule False)"

definition applyGeneralMarkCheck :: "nft_env \<Rightarrow> chain \<Rightarrow> policy \<Rightarrow> (nftState, unit) em" where
  "applyGeneralMarkCheck E chain policy =
     bindM getM (\<lambda>n.
       addRule E (nFilter n) chain (''policy:'' @ policyNamespacedName policy @ '', check mark 0x30000'')
         (checkMarkExprs E))"

definition applyMarkReset :: "nft_env \<Rightarrow> string \<Rightarrow> chain \<Rightarrow> string \<Rightarrow> nat \<Rightarrow> (nftState, unit) em" where
  "applyMarkReset E policyChainName policyChain policyName index =
     bindM getM (\<lambda>n.
       addRule E (nFilter n) policyChain
         (''policy:'' @ policyName @ '', name:'' @ policyChainName @ '' ingress:'' @ itoa index @ '': reset'')
         [metaLoad MetaKeyMARK, maskMark E (NOT matchRuleMark) zeroRuleMark, metaStore MetaKeyMARK, zeroCounter])"

definition applyMarkCheck :: "nft_env \<Rightarrow> string \<Rightarrow> chain \<Rightarrow> string \<Rightarrow> nat \<Rightarrow> (nftState, unit) em" where
  "applyMarkCheck E policyChainName policyChain policyName index =
     addRule E (cTable policyChain) policyChain
       (''policy:'' @ policyName @ '', name:'' @ policyChainName @ '' ingress:'' @ itoa index @ '' return'')
       (checkMarkExprs E)"

definition applyDropRemaining :: "nft_env \<Rightarrow> chain \<Rightarrow> bool \<Rightarrow> (nftState, unit) em" where
  "applyDropRemaining E chain force =
     thenM (updateRule E (newRuleOf (cTable chain) chain ''drop-remaining''
              [zeroCounter, Verdict VerdictDrop []]) connAddRule force) (retM ())"

section \<open>Peers\<close>

definition ipBlockSetName :: "string \<Rightarrow> string \<Rightarrow> bool \<Rightarrow> nat \<Rightarrow> string" where
  "ipBlockSetName chainName kind isV6 peerIndex =
     chainName @ ''_'' @ kind @ ''_'' @ protocolOf isV6 @ ''_'' @ getAddressSuffix chainName @ ''_'' @ itoa peerIndex"

definition applyExceptPrefixes ::
  "nft_env \<Rightarrow> string \<Rightarrow> chain \<Rightarrow> string \<Rightarrow> string \<Rightarrow> nat \<Rightarrow> set_element list \<Rightarrow> bool \<Rightarrow> (nftState, unit) em" where
  "applyExceptPrefixes E chainName chain policyName cidr peerIndex exceptPrefixes isV6 =
     bindM (wrapM ''failed to update set''
       (updateSet E ((nilSet (cTable chain))\<lparr>sName := ipBlockSetName chainName peerIPBlockExceptPrefix isV6 peerIndex,
            sCounter := True, sKeyType := keyTypeOf isV6, sInterval := True\<rparr>) exceptPrefixes)) (\<lambda>exceptSet.
     addRule E (cTable chain) chain
       (''policy:'' @ policyName @ '', name:'' @ chainName @ '', cidr:'' @ cidr @ '', deny'')
       (addrLookup chainName isV6 exceptSet @ [zeroCounter, Verdict VerdictDrop []]))"

definition applyPrefixes ::
  "nft_env \<Rightarrow> string \<Rightarrow> chain \<Rightarrow> string \<Rightarrow> string \<Rightarrow> nat \<Rightarrow> set_element list \<Rightarrow> set_element list \<Rightarrow> bool
   \<Rightarrow> (nftState, unit) em" where
  "applyPrefixes E chainName chain policyName cidr peerIndex prefixes exceptPrefixes isV6 =
     (if prefixes = [] then retM ()
      else
        thenM (whenM (exceptPrefixes \<noteq> [])
                 (applyExceptPrefixes E chainName chain policyName cidr peerIndex exceptPrefixes isV6)) (
        bindM (wrapM ''failed to update set''
          (updateSet E ((nilSet (cTable chain))\<lparr>sName := ipBlockSetName chainName peerIPBlockPrefix isV6 peerIndex,
               sConstant := True, sCounter := True, sKeyType := keyTypeOf isV6, sInterval := True\<rparr>) prefixes))
          (\<lambda>prefixesSet.
        addRule E (cTable chain) chain
          (''policy:'' @ policyName @ '', name:'' @ chainName @ '', cidr:'' @ cidr @ '', accept'')
          (addrLookup chainName isV6 prefixesSet @ setMarkExprs E peerRuleMark
           @ [zeroCounter, Verdict VerdictReturn []]))))"

definition applyPolicyPeersRulesIPBlock ::
  "nft_env \<Rightarrow> string \<Rightarrow> chain \<Rightarrow> string \<Rightarrow> ip_block \<Rightarrow> nat \<Rightarrow> (nftState, unit) em" where
  "applyPolicyPeersRulesIPBlock E chainName chain policyName block peerIndex =
     bindM (wrapM ''failed to get except prefix sets of prefixes'' (liftR (getPrefixesAsSetInterval (ibExcept block))))
       (\<lambda>(v4Except, v6Except).
     bindM (wrapM ''failed to get prefix sets of prefixes'' (liftR (getPrefixesAsSetInterval [ibCIDR block])))
       (\<lambda>(v4, v6).
     thenM (wrapM ''failed to apply prefixes for policy''
              (applyPrefixes E chainName chain policyName (ibCIDR block) peerIndex v4 v4Except False))
           (wrapM ''failed to apply prefixes for policy''
              (applyPrefixes E chainName chain policyName (ibCIDR block) peerIndex v6 v6Except True))))"

text \<open>The set key of an address; \<^verbatim>\<open>net.ParseIP\<close> returning nil gives the empty key.\<close>

definition addrKey :: "string \<Rightarrow> byte list" where
  "addrKey addr =
     (case to4 (netParseIP addr) of
        Some k \<Rightarrow> k
      | None \<Rightarrow> (case to16 (netParseIP addr) of Some k \<Rightarrow> k | None \<Rightarrow> []))"

definition addIPRule ::
  "nft_env \<Rightarrow> string \<Rightarrow> string list \<Rightarrow> chain \<Rightarrow> string \<Rightarrow> policy_peer \<Rightarrow> nat \<Rightarrow> (nftState, unit) em" where
  "addIPRule E chainName addrs chain policyName peer peerIndex =
     (case addrs of
        [] \<Rightarrow> retM ()
      | a # _ \<Rightarrow>
          let isV6 = (to4 (netParseIP a) = None);
              selectorStr = (case peerPodSelector peer of Some s \<Rightarrow> selectorString s | None \<Rightarrow> ''<all>'');
              selectorHash = hashString selectorStr in
          bindM (updateSet E ((nilSet (cTable chain))\<lparr>
                   sName := chainName @ ''_'' @ getAddressSuffix chainName @ ''_'' @ itoa peerIndex @ ''_''
                     @ protocolOf isV6 @ ''_'' @ selectorHash,
                   sKeyType := keyTypeOf isV6\<rparr>) (map (\<lambda>x. startAt (addrKey x)) addrs)) (\<lambda>ipSet.
          addRule E (cTable chain) chain
            (''policy:'' @ policyName @ '', name:'' @ chainName @ '', selector-for:'' @ selectorHash
             @ '', protocol:'' @ protocolOf isV6)
            (addrLookup chainName isV6 ipSet @ setMarkExprs E peerRuleMark
             @ [zeroCounter, Verdict VerdictReturn []])))"

fun splitFamilies :: "string list \<Rightarrow> string list \<Rightarrow> string list \<Rightarrow> (string list \<times> string list) res" where
  "splitFamilies [] v4 v6 = Inr (v4, v6)"
| "splitFamilies (a # as) v4 v6 =
     (case ParseAddr a of
        Inl _ \<Rightarrow> Inl (ErrText ''failed to parse address'')
      | Inr ip \<Rightarrow> if is6 ip then splitFamilies as v4 (v6 @ [a]) else splitFamilies as (v4 @ [a]) v6)"

definition addIPRules ::
  "nft_env \<Rightarrow> string \<Rightarrow> string list \<Rightarrow> chain \<Rightarrow> string \<Rightarrow> policy_peer \<Rightarrow> nat \<Rightarrow> (nftState, unit) em" where
  "addIPRules E chainName addrs chain policyName peer peerIndex =
     bindM (liftR (splitFamilies addrs [] [])) (\<lambda>(v4Addrs, v6Addrs).
     thenM (wrapM ''failed to add IPv4 rules'' (addIPRule E chainName v4Addrs chain policyName peer peerIndex))
           (wrapM ''failed to add IPv6 rules'' (addIPRule E chainName v6Addrs chain policyName peer peerIndex)))"

text \<open>
  The addresses of the selected pods.  The accumulator is \<^verbatim>\<open>podIntfIPs\<close> and the keys of
  \<^verbatim>\<open>podIntfsIPsMap\<close>, which is never reset: each pair of matching interfaces appends the whole map again.
\<close>

type_synonym ip_acc = "string list \<times> string list"

definition addKeys :: "string list \<Rightarrow> string list \<Rightarrow> string list" where
  "addKeys ks new = foldl (\<lambda>acc k. if k \<in> set acc then acc else acc @ [k]) ks new"

definition collectPair :: "policy_deps \<Rightarrow> ip_acc \<Rightarrow> interface_info \<Rightarrow> interface_info \<Rightarrow> ip_acc" where
  "collectPair D acc podIntf sPodIntf =
     (let ks = addKeys (addKeys (snd acc) (ifIPs podIntf)) (ifIPs sPodIntf) in
      (fst acc @ depMapOrder D (length (fst acc)) ks, ks))"

definition collectPod ::
  "policy_deps \<Rightarrow> pod_info \<Rightarrow> string list \<Rightarrow> selector option \<Rightarrow> ip_acc \<Rightarrow> pod \<Rightarrow> ip_acc" where
  "collectPod D podInfo policyNetworks nsSelector acc sPod =
     (case depGetNamespaceInfo D (podNamespace sPod) of
        Inl _ \<Rightarrow> acc
      | Inr nsLabels \<Rightarrow>
          if (case nsSelector of None \<Rightarrow> False | Some s \<Rightarrow> \<not> selMatches s nsLabels) then acc
          else
            (case depGetPodInfo D sPod of
               Inl _ \<Rightarrow> acc
             | Inr sPodinfo \<Rightarrow>
                 foldl (\<lambda>a podIntf.
                   if \<not> ifCheckPolicyNetwork podIntf policyNetworks then a
                   else foldl (\<lambda>b sPodIntf.
                          if \<not> ifCheckPolicyNetwork sPodIntf policyNetworks then b
                          else collectPair D b podIntf sPodIntf) a (piInterfaces sPodinfo))
                   acc (piInterfaces podInfo)))"

definition applyPolicyPeersRulesSelector ::
  "nft_env \<Rightarrow> policy_deps \<Rightarrow> string \<Rightarrow> chain \<Rightarrow> string \<Rightarrow> policy_peer \<Rightarrow> pod_info \<Rightarrow> string list \<Rightarrow> nat
   \<Rightarrow> (nftState, unit) em" where
  "applyPolicyPeersRulesSelector E D chainName chain policyName peer podInfo policyNetworks peerIndex =
     bindM (liftR (case peerPodSelector peer of
                     Some ps \<Rightarrow> wrapR ''pod selector'' (LabelSelectorAsSelector ps)
                   | None \<Rightarrow> Inr (SelAll []))) (\<lambda>podSelector.
     bindM (wrapM ''pod list failed'' (liftR (depListPods D podSelector))) (\<lambda>pods.
     bindM (liftR (case peerNamespaceSelector peer of
                     Some ns \<Rightarrow> bindR (wrapR ''namespace selector'' (LabelSelectorAsSelector ns)) (\<lambda>s. Inr (Some s))
                   | None \<Rightarrow> Inr None)) (\<lambda>nsSelector.
     wrapM ''add selector IP rules''
       (addIPRules E chainName
          (fst (foldl (collectPod D podInfo policyNetworks nsSelector) ([], []) pods))
          chain policyName peer peerIndex))))"

definition applyPeer ::
  "nft_env \<Rightarrow> policy_deps \<Rightarrow> string \<Rightarrow> chain \<Rightarrow> string \<Rightarrow> pod_info \<Rightarrow> string list \<Rightarrow> nat \<times> policy_peer
   \<Rightarrow> (nftState, unit) em" where
  "applyPeer E D peersName peersChain policyName podInfo policyNetworks ip =
     (case ip of (index, peer) \<Rightarrow>
        case peerIPBlock peer of
          Some block \<Rightarrow>
            wrapM ''apply IPBlock peer rules'' (applyPolicyPeersRulesIPBlock E peersName peersChain policyName block index)
        | None \<Rightarrow>
            (if peerPodSelector peer \<noteq> None \<or> peerNamespaceSelector peer \<noteq> None then
               wrapM ''apply selector peer rules''
                 (applyPolicyPeersRulesSelector E D peersName peersChain policyName peer podInfo policyNetworks index)
             else throwM (ErrText ''unknown peer rule'')))"

definition applyPolicyPeersRules ::
  "nft_env \<Rightarrow> policy_deps \<Rightarrow> string \<Rightarrow> chain \<Rightarrow> string \<Rightarrow> policy_peer list \<Rightarrow> pod_info \<Rightarrow> string list \<Rightarrow> nat
   \<Rightarrow> (nftState, unit) em" where
  "applyPolicyPeersRules E D chainName chain policyName peers podInfo policyNetworks peerIndex =
     (let peersName = nftNameWithSuffix chainName ''-'' (peersChainSuffix @ ''-'' @ itoa peerIndex) in
     bindM (wrapM ''failed to create peers chain'' (addChain E (regularChain (cTable chain) peersName))) (\<lambda>peersChain.
     thenM (addRule E (cTable chain) chain
              (''policy:'' @ policyName @ '', name:'' @ chainName @ '', jump:'' @ cName peersChain)
              (jumpTo (cName peersChain))) (
     thenM (forM (enumerate 0 peers) (applyPeer E D peersName peersChain policyName podInfo policyNetworks)) (
     whenM (peers = [])
       (addRule E (cTable chain) peersChain
          (''policy:'' @ policyName @ '', name:'' @ peersName @ '', no peers skipped accept all'')
          (zeroCounter # setMarkExprs E peerRuleMark))))))"

section \<open>Ports\<close>

definition getInetSet :: "chain \<Rightarrow> string \<Rightarrow> string \<Rightarrow> nft_set" where
  "getInetSet chain portsName suffix =
     (let setName = nftNameWithSuffix (getSetName portsName) ''_'' suffix in
      (nilSet (cTable chain))\<lparr>sName := setName, sComment := setName, sConstant := True, sCounter := True,
         sKeyType := TypeInetService, sInterval := True\<rparr>)"

definition applyProtoPortsRules ::
  "nft_env \<Rightarrow> string \<Rightarrow> chain \<Rightarrow> string \<Rightarrow> nft_set \<Rightarrow> byte list \<Rightarrow> (nftState, unit) em" where
  "applyProtoPortsRules E chainName chain policyName s unixProto =
     addRule E (cTable chain) chain
       (''policy:'' @ policyName @ '', name:'' @ chainName @ '', set:'' @ sName s)
       ([metaLoad MetaKeyL4PROTO, cmpEq unixProto, payloadLoad PayloadBaseTransportHeader 2 2,
         lookupSet (sName s) (sID s), zeroCounter] @ setMarkExprs E portRuleMark)"

text \<open>A protocol without a port means all its ports.\<close>

definition defaultPort :: "policy_port \<Rightarrow> policy_port" where
  "defaultPort port =
     (if ppPort port = None \<and> ppProtocol port \<noteq> None
      then port\<lparr>ppPort := Some (IntVal 1), ppEndPort := Some 65535\<rparr> else port)"

record port_acc =
  portsTCP :: "set_element list"
  portsUDP :: "set_element list"
  portsSCTP :: "set_element list"

fun collectPorts :: "policy_port list \<Rightarrow> port_acc \<Rightarrow> port_acc res" where
  "collectPorts [] acc = Inr acc"
| "collectPorts (p # ps) acc =
     (let port = defaultPort p in
      bindR (validatePortSpec port) (\<lambda>els.
        collectPorts ps
          (case ppProtocol port of
             Some proto \<Rightarrow>
               (if proto = ''UDP'' then acc\<lparr>portsUDP := portsUDP acc @ els\<rparr>
                else if proto = ''SCTP'' then acc\<lparr>portsSCTP := portsSCTP acc @ els\<rparr>
                else acc\<lparr>portsTCP := portsTCP acc @ els\<rparr>)
           | None \<Rightarrow> acc\<lparr>portsTCP := portsTCP acc @ els\<rparr>)))"

definition applyPortSet ::
  "nft_env \<Rightarrow> string \<Rightarrow> chain \<Rightarrow> chain \<Rightarrow> string \<Rightarrow> string \<Rightarrow> set_element list \<Rightarrow> (nftState, unit) em" where
  "applyPortSet E portsName chain portChain policyName protocol els =
     whenM (els \<noteq> [])
       (case getProtocolInfo protocol of (suffix, unixFlag) \<Rightarrow>
          bindM (updateSet E (getInetSet chain portsName suffix) els) (\<lambda>s.
            wrapM ''failed to apply port rules for set''
              (applyProtoPortsRules E portsName portChain policyName s unixFlag)))"

definition applyPolicyPortsRules ::
  "nft_env \<Rightarrow> string \<Rightarrow> chain \<Rightarrow> string \<Rightarrow> policy_port list \<Rightarrow> nat \<Rightarrow> (nftState, unit) em" where
  "applyPolicyPortsRules E chainName chain policyName ports portIndex =
     (let portsName = nftNameWithSuffix chainName ''-'' (portsChainSuffix @ ''-'' @ itoa portIndex) in
     bindM (wrapM ''failed to create ports chain'' (addChain E (regularChain (cTable chain) portsName))) (\<lambda>portChain.
     thenM (addRule E (cTable chain) chain
              (''policy:'' @ policyName @ '', name:'' @ chainName @ '', jump:'' @ cName portChain)
              (jumpTo (cName portChain))) (
     bindM (liftR (collectPorts ports \<lparr>portsTCP = [], portsUDP = [], portsSCTP = []\<rparr>)) (\<lambda>acc.
     thenM (applyPortSet E portsName chain portChain policyName ''TCP'' (portsTCP acc)) (
     thenM (applyPortSet E portsName chain portChain policyName ''UDP'' (portsUDP acc)) (
     thenM (applyPortSet E portsName chain portChain policyName ''SCTP'' (portsSCTP acc)) (
     whenM (ports = [] \<or> (portsTCP acc = [] \<and> portsUDP acc = [] \<and> portsSCTP acc = []))
       (addRule E (cTable chain) portChain
          (''policy:'' @ policyName @ '', name:'' @ portsName @ '', no ports skipped accept all'')
          (zeroCounter # setMarkExprs E portRuleMark)))))))))"

section \<open>One policy\<close>

definition applyPolicyRule ::
  "nft_env \<Rightarrow> policy_deps \<Rightarrow> string \<Rightarrow> chain \<Rightarrow> string \<Rightarrow> policy \<Rightarrow> pod_info \<Rightarrow> string list \<Rightarrow> nat \<times> policy_rule
   \<Rightarrow> (nftState, unit) em" where
  "applyPolicyRule E D policyChainName policyChain resetName policy podInfo policyNetworks ir =
     (case ir of (index, r) \<Rightarrow>
        thenM (wrapM ''failed to apply mark reset for policy''
                 (applyMarkReset E policyChainName policyChain resetName index)) (
        thenM (wrapM ''failed to apply ports for policy''
                 (applyPolicyPortsRules E policyChainName policyChain (policyNamespacedName policy) (prPorts r) index)) (
        thenM (wrapM ''failed to apply address rules for policy''
                 (applyPolicyPeersRules E D policyChainName policyChain (policyNamespacedName policy) (prPeers r)
                    podInfo policyNetworks index))
              (wrapM ''failed to apply mark check for policy''
                 (applyMarkCheck E policyChainName policyChain (policyNamespacedName policy) index)))))"

definition podInterfaceStep ::
  "nft_env \<Rightarrow> chain \<Rightarrow> chain \<Rightarrow> policy \<Rightarrow> string list \<Rightarrow> bool \<Rightarrow> interface_info \<Rightarrow> (nftState, bool) em" where
  "podInterfaceStep E chain policyChain policy policyNetworks newRules podIntf =
     (if ifCheckPolicyNetwork podIntf policyNetworks then
        bindM (wrapM ''failed to apply pod interface rules for policy''
                 (applyPodInterfaceRules E chain policyChain policy podIntf))
          (\<lambda>newRule. retM (newRule \<or> newRules))
      else retM newRules)"

definition applyPodRules ::
  "nft_env \<Rightarrow> policy_deps \<Rightarrow> chain \<Rightarrow> pod_info \<Rightarrow> policy \<Rightarrow> string list \<Rightarrow> (nftState, bool) em" where
  "applyPodRules E D chain podInfo policy policyNetworks =
     (let entryChainName = cName chain;
          policyPart = truncateNftName (policyRuleNamespacedName policy)
                         (nftNameMaxLen - int (length entryChainName) - 1);
          policyChainName = entryChainName @ ''-'' @ policyPart in
     bindM getM (\<lambda>n.
     bindM (wrapM ''failed to create policy chain'' (addChain E (regularChain (nFilter n) policyChainName))) (\<lambda>policyChain.
     bindM (foldM (podInterfaceStep E chain policyChain policy policyNetworks) False (piInterfaces podInfo)) (\<lambda>newRules.
     thenM (if isIngressChain policyChainName then
              forM (enumerate 0 (rulesOf (polIngress policy)))
                (applyPolicyRule E D policyChainName policyChain (policyNamespacedName policy) policy podInfo policyNetworks)
            else
              forM (enumerate 0 (rulesOf (polEgress policy)))
                (applyPolicyRule E D policyChainName policyChain (polName policy) policy podInfo policyNetworks))
       (retM newRules)))))"

section \<open>Generating rules only queues messages\<close>

text \<open>A frame intro rule for functions that read the state first.\<close>

lemma keeps_splits:
  "(\<And>a b. p = (a, b) \<Longrightarrow> keeps R (f a b)) \<Longrightarrow> keeps R (case p of (a, b) \<Rightarrow> f a b)"
  "(b \<Longrightarrow> keeps R m) \<Longrightarrow> (\<not> b \<Longrightarrow> keeps R m') \<Longrightarrow> keeps R (if b then m else m')"
  "(\<And>x. z = Some x \<Longrightarrow> keeps R (g x)) \<Longrightarrow> (z = None \<Longrightarrow> keeps R h) \<Longrightarrow>
   keeps R (case z of None \<Rightarrow> h | Some x \<Rightarrow> g x)"
  by (auto split: prod.splits option.splits)

lemma keeps_addRules: "keeps quietN (addRule E t c cm es)" "keeps quietN (insertRule E t c cm es)"
  unfolding addRule_def insertRule_def by (intro frame_intros keeps_state keeps_conn)+

lemmas keeps_gen = keeps_addRules keeps_state keeps_splits

lemma keeps_bootstrapChains: "keeps quietN (bootstrapNetfilterChains E)"
  unfolding bootstrapNetfilterChains_def Let_def
  by (intro frame_intros keeps_addChain keeps_modifyN) simp_all

lemma keeps_bootstrapRules: "keeps quietN (bootstrapInterfaceRules E ifs)"
  unfolding bootstrapInterfaceRules_def Let_def
  by (intro frame_intros keeps_gen keeps_modifyN) simp_all

lemma keeps_common:
  "keeps quietN (allowICMP E c b)" "keeps quietN (allowNeighborDiscovery E c)" "keeps quietN (allowConntracked E c)"
  "keeps quietN (commonPrefixRule E c s b els)"
  unfolding allowICMP_def allowNeighborDiscovery_def allowConntracked_def commonPrefixRule_def Let_def
  by (intro frame_intros keeps_addRules keeps_updateSet)+

lemma keeps_applyCommonPrefixRules: "keeps quietN (applyCommonPrefixRules E c ps s)"
  unfolding applyCommonPrefixRules_def by (intro frame_intros keeps_common keeps_splits)

lemma keeps_applyCommonChainRules: "keeps quietN (applyCommonChainRules E cfg)"
  unfolding applyCommonChainRules_def Let_def
  by (intro frame_intros keeps_common keeps_applyCommonPrefixRules keeps_splits)

lemma keeps_marks:
  "keeps quietN (applyGeneralMarkCheck E c p)" "keeps quietN (applyMarkReset E s c s' i)"
  "keeps quietN (applyMarkCheck E s c s' i)" "keeps quietN (applyDropRemaining E c b)"
  "keeps quietN (applyPodInterfaceRules E c c' p ifc)"
  unfolding applyGeneralMarkCheck_def applyMarkReset_def applyMarkCheck_def applyDropRemaining_def
    applyPodInterfaceRules_def
  by (intro frame_intros keeps_addRules keeps_updateRule keeps_conn)+

lemma keeps_ipBlock: "keeps quietN (applyPolicyPeersRulesIPBlock E s c s' b i)"
  unfolding applyPolicyPeersRulesIPBlock_def applyPrefixes_def applyExceptPrefixes_def
  by (intro frame_intros keeps_addRules keeps_updateSet keeps_splits)

lemma keeps_addIPRule: "keeps quietN (addIPRule E s as c s' p i)"
  unfolding addIPRule_def Let_def
  by (cases as) (simp_all, (intro frame_intros keeps_addRules keeps_updateSet)+)

lemma keeps_selector: "keeps quietN (applyPolicyPeersRulesSelector E D s c s' p pi nets i)"
  unfolding applyPolicyPeersRulesSelector_def addIPRules_def
  by (intro frame_intros keeps_addIPRule keeps_splits)

lemma keeps_peers: "keeps quietN (applyPolicyPeersRules E D s c s' ps pi nets i)"
  unfolding applyPolicyPeersRules_def applyPeer_def Let_def
  by (intro frame_intros keeps_addRules keeps_addChain keeps_ipBlock keeps_selector keeps_splits)

lemma keeps_ports: "keeps quietN (applyPolicyPortsRules E s c s' ps i)"
  unfolding applyPolicyPortsRules_def applyPortSet_def applyProtoPortsRules_def Let_def
  by (intro frame_intros keeps_addRules keeps_addChain keeps_updateSet keeps_splits)

lemma keeps_applyPodRules: "keeps quietN (applyPodRules E D c pi p nets)"
  unfolding applyPodRules_def applyPolicyRule_def podInterfaceStep_def Let_def
  by (intro frame_intros keeps_addChain keeps_marks keeps_ports keeps_peers keeps_splits)

end
