(* ===== verification/Server.thy ===== *)
theory Server
  imports Generator "HOL-Library.Multiset"
begin

text \<open>
  \<^verbatim>\<open>pkg/server/server.go\<close>: which policies concern a pod, in which order, and the whole run for one
  pod: bootstrap, common rules, the ingress and egress policies, one flush, cleanup.
\<close>

section \<open>Selecting the policies\<close>

record internal_policy =
  ipPolicy :: policy
  ipNetworks :: "string list"

definition policyKey :: "internal_policy \<Rightarrow> string" where
  "policyKey p = polNamespace (ipPolicy p) @ ''/'' @ polName (ipPolicy p)"

definition CompareInternalPolicy :: "internal_policy \<Rightarrow> internal_policy \<Rightarrow> int" where
  "CompareInternalPolicy a b =
     (if policyKey a = policyKey b then 0 else if policyKey a < policyKey b then -1 else 1)"

fun enabledTypes :: "string list \<Rightarrow> bool \<times> bool \<Rightarrow> bool \<times> bool" where
  "enabledTypes [] acc = acc"
| "enabledTypes (v # vs) acc =
     enabledTypes vs
       (if equalFoldASCII v ''Ingress'' then (True, snd acc)
        else if equalFoldASCII v ''Egress'' then (fst acc, True)
        else acc)"

definition getEnabledPolicyTypes :: "policy \<Rightarrow> bool \<times> bool" where
  "getEnabledPolicyTypes p =
     (if polPolicyTypes p \<noteq> [] then enabledTypes (polPolicyTypes p) (False, False)
      else (polIngress p \<noteq> None, polEgress p \<noteq> None))"

definition policyNetworksOf :: "policy \<Rightarrow> string \<Rightarrow> string list" where
  "policyNetworksOf policy annot =
     sort (map (\<lambda>networkName. if CHR ''/'' \<in> set networkName then networkName
                                 else polNamespace policy @ ''/'' @ networkName)
            (splitOn (CHR '','') (replaceByte (CHR '' '') [] annot)))"

definition podSelected :: "policy \<Rightarrow> pod \<Rightarrow> bool" where
  "podSelected policy pod =
     (if \<not> selectorEmpty (polPodSelector policy) then
        (case LabelSelectorAsSelector (polPodSelector policy) of
           Inl _ \<Rightarrow> False
         | Inr s \<Rightarrow> selMatches s (podLabels pod))
      else True)"

definition policyNetworksFor :: "pod \<Rightarrow> pod_info \<Rightarrow> policy \<Rightarrow> string list option" where
  "policyNetworksFor pod podInfo policy =
     (if polNamespace policy \<noteq> podNamespace pod then None
      else if \<not> podSelected policy pod then None
      else
        (case map_of (polAnnotations policy) PolicyNetworkAnnotation of
           None \<Rightarrow> None
         | Some annot \<Rightarrow>
             let nets = policyNetworksOf policy annot in
             if piCheckPolicyNetwork podInfo nets then Some nets else None))"

text \<open>The loop over the policy map, in an arbitrary order of the map.\<close>

fun collectPolicies ::
  "pod \<Rightarrow> pod_info \<Rightarrow> policy list \<Rightarrow> internal_policy list \<times> internal_policy list
   \<Rightarrow> internal_policy list \<times> internal_policy list" where
  "collectPolicies pod podInfo [] acc = acc"
| "collectPolicies pod podInfo (p # ps) acc =
     collectPolicies pod podInfo ps
       (case policyNetworksFor pod podInfo p of
          None \<Rightarrow> acc
        | Some nets \<Rightarrow>
            let ip = \<lparr>ipPolicy = p, ipNetworks = nets\<rparr>; (ingressEnable, egressEnable) = getEnabledPolicyTypes p in
            (if ingressEnable then fst acc @ [ip] else fst acc,
             if egressEnable then snd acc @ [ip] else snd acc))"

definition sortPolicies :: "internal_policy list \<Rightarrow> internal_policy list" where
  "sortPolicies ps = sort_key policyKey ps"

section \<open>The run for one pod\<close>

definition policyStep ::
  "nft_env \<Rightarrow> policy_deps \<Rightarrow> chain \<Rightarrow> pod_info \<Rightarrow> bool \<Rightarrow> internal_policy \<Rightarrow> (nftState, bool) em" where
  "policyStep E D chain podInfo forceUpdate ip =
     bindM (wrapM ''failed to apply pod rules for policy''
              (applyPodRules E D chain podInfo (ipPolicy ip) (ipNetworks ip))) (\<lambda>newRules.
     thenM (wrapM ''failed to apply mark check rule in chain'' (applyGeneralMarkCheck E chain (ipPolicy ip)))
       (retM (newRules \<or> forceUpdate)))"

definition applyDirection ::
  "nft_env \<Rightarrow> policy_deps \<Rightarrow> chain \<Rightarrow> pod_info \<Rightarrow> internal_policy list \<Rightarrow> (nftState, unit) em" where
  "applyDirection E D chain podInfo policies =
     whenM (policies \<noteq> [])
       (bindM (foldM (policyStep E D chain podInfo) False policies) (\<lambda>forceUpdate.
          wrapM ''failed to apply drop-remaining rules'' (applyDropRemaining E chain forceUpdate)))"

definition renderPolicies ::
  "nft_env \<Rightarrow> policy_deps \<Rightarrow> common_rule_config \<Rightarrow> policy list \<Rightarrow> pod \<Rightarrow> pod_info \<Rightarrow> (nftState, unit) em" where
  "renderPolicies E D cfg policyMap pod podInfo =
     (let (ingressPolicies, egressPolicies) = collectPolicies pod podInfo policyMap ([], []) in
     thenM (wrapM ''failed to apply common chain rules'' (applyCommonChainRules E cfg)) (
     bindM getM (\<lambda>n.
     thenM (applyDirection E D (nIngressChain n) podInfo (sortPolicies ingressPolicies))
           (applyDirection E D (nEgressChain n) podInfo (sortPolicies egressPolicies)))))"

definition ApplyPolicyRulesForPodAndFamily ::
  "nft_env \<Rightarrow> policy_deps \<Rightarrow> common_rule_config \<Rightarrow> policy list \<Rightarrow> pod \<Rightarrow> pod_info option \<Rightarrow> (conn, unit) em" where
  "ApplyPolicyRulesForPodAndFamily E D cfg policyMap pod podInfo0 =
     bindM (wrapM ''bootstrap netfilter rules failed'' (bootstrapNetfilterRules E podInfo0)) (\<lambda>(podInfo, n).
     thenM (withState n
       (thenM (renderPolicies E D cfg policyMap pod podInfo) (
        thenM (wrapM ''nft flush failed'' (onConn (connFlush E)))
              (wrapM ''failed to cleanup nft'' (cleanup E)))))
       (retM ()))"

section \<open>The order of the policy map does not matter\<close>

definition selectFor :: "pod \<Rightarrow> pod_info \<Rightarrow> (bool \<times> bool \<Rightarrow> bool) \<Rightarrow> policy list \<Rightarrow> internal_policy list" where
  "selectFor pod podInfo dir ps =
     concat (map (\<lambda>p. case policyNetworksFor pod podInfo p of
                        None \<Rightarrow> []
                      | Some nets \<Rightarrow> if dir (getEnabledPolicyTypes p) then [\<lparr>ipPolicy = p, ipNetworks = nets\<rparr>] else []) ps)"

lemma collectPolicies_select:
  "collectPolicies pod podInfo ps acc =
     (fst acc @ selectFor pod podInfo fst ps, snd acc @ selectFor pod podInfo snd ps)"
proof (induction ps arbitrary: acc)
  case (Cons p ps)
  then show ?case
    by (cases "policyNetworksFor pod podInfo p"; cases "getEnabledPolicyTypes p")
      (simp_all add: selectFor_def Let_def)
qed (simp add: selectFor_def)

lemma set_selectFor:
  "ip \<in> set (selectFor pod podInfo dir ps) \<longleftrightarrow>
     ipPolicy ip \<in> set ps \<and> policyNetworksFor pod podInfo (ipPolicy ip) = Some (ipNetworks ip)
     \<and> dir (getEnabledPolicyTypes (ipPolicy ip))"
  by (cases ip) (auto simp: selectFor_def split: option.splits if_splits)

lemma distinct_selectFor: "distinct ps \<Longrightarrow> distinct (selectFor pod podInfo dir ps)"
  by (induction ps) (auto simp: selectFor_def split: option.splits)

lemma mset_selectFor:
  assumes "mset ps = mset ps'"
  shows "mset (selectFor pod podInfo dir ps) = mset (selectFor pod podInfo dir ps')"
proof -
  have "mset (concat (map g xs)) = (\<Sum>x \<in># mset xs. mset (g x))" for g :: "policy \<Rightarrow> internal_policy list" and xs
    by (induction xs) auto
  then show ?thesis using assms by (simp add: selectFor_def)
qed

lemma filter_eq_one: "distinct zs \<Longrightarrow> k \<in> set zs \<Longrightarrow> filter (\<lambda>x. k = x) zs = [k]"
  by (induction zs) (auto simp: filter_empty_conv)

text \<open>A list with distinct keys has one sorted order, whatever order it comes in.\<close>

lemma sort_key_unique:
  fixes f :: "'a \<Rightarrow> 'b::linorder"
  assumes "mset xs = mset ys" "distinct xs" "inj_on f (set xs)"
  shows "sort_key f xs = sort_key f ys"
proof (rule properties_for_sort_key)
  have set: "set (sort_key f ys) = set xs" using mset_eq_setD [OF assms(1)] by simp
  have "distinct ys" using assms(1,2) by (metis distinct_card card_distinct mset_eq_setD size_mset)
  then have d: "distinct (sort_key f ys)" by simp
  show "mset (sort_key f ys) = mset xs" using assms(1) by simp
  show "filter (\<lambda>x. f k = f x) (sort_key f ys) = filter (\<lambda>x. f k = f x) xs" if "k \<in> set (sort_key f ys)" for k
  proof -
    have one: "filter (\<lambda>x. f k = f x) zs = [k]" if "distinct zs" "set zs = set xs" for zs
    proof -
      have "filter (\<lambda>x. f k = f x) zs = filter (\<lambda>x. k = x) zs"
        using assms(3) \<open>k \<in> set (sort_key f ys)\<close> that(2) set by (intro filter_cong refl) (auto dest: inj_onD)
      also have "\<dots> = [k]"
        by (rule filter_eq_one) (use that \<open>k \<in> set (sort_key f ys)\<close> set in simp_all)
      finally show ?thesis .
    qed
    show ?thesis using one [OF d set] one [OF assms(2)] by simp
  qed
  show "sorted (map f (sort_key f ys))" by simp
qed

lemma apply_any_order:
  assumes "mset ps = mset ps'" "distinct ps" "inj_on policyNamespacedName (set ps)"
  shows "ApplyPolicyRulesForPodAndFamily E D cfg ps pod podInfo = ApplyPolicyRulesForPodAndFamily E D cfg ps' pod podInfo"
proof -
  have "sortPolicies (selectFor pod pi dir ps) = sortPolicies (selectFor pod pi dir ps')" for pi dir
    unfolding sortPolicies_def
  proof (rule sort_key_unique)
    show "mset (selectFor pod pi dir ps) = mset (selectFor pod pi dir ps')" by (rule mset_selectFor [OF assms(1)])
    show "distinct (selectFor pod pi dir ps)" by (rule distinct_selectFor [OF assms(2)])
    show "inj_on policyKey (set (selectFor pod pi dir ps))"
    proof (rule inj_onI)
      fix a b
      assume ab: "a \<in> set (selectFor pod pi dir ps)" "b \<in> set (selectFor pod pi dir ps)" and "policyKey a = policyKey b"
      then have "policyNamespacedName (ipPolicy a) = policyNamespacedName (ipPolicy b)"
        by (simp add: policyKey_def policyNamespacedName_def)
      then have "ipPolicy a = ipPolicy b"
        using inj_onD [OF assms(3)] ab by (simp add: set_selectFor)
      moreover from this have "ipNetworks a = ipNetworks b" using ab by (auto simp: set_selectFor)
      ultimately show "a = b" by simp
    qed
  qed
  then show ?thesis
    by (simp add: ApplyPolicyRulesForPodAndFamily_def renderPolicies_def collectPolicies_select)
qed

text \<open>(C12)
  The result of the whole run does not depend on the order in which Go iterates over the policy
  map: for any two orders of the same policies (no two with the same namespace and name) the run
  does exactly the same to the connection and returns the same error.
\<close>

theorem policy_order_irrelevant:
  assumes "mset ps = mset ps'" "distinct ps" "inj_on policyNamespacedName (set ps)"
  shows "ApplyPolicyRulesForPodAndFamily E D cfg ps pod podInfo = ApplyPolicyRulesForPodAndFamily E D cfg ps' pod podInfo"
  using assms by (rule apply_any_order)

theorem policy_order_irrelevant_witness:
  defines "p \<equiv> \<lambda>name. \<lparr>polName = name, polNamespace = ''ns'', polAnnotations = [(PolicyNetworkAnnotation, ''net1'')],
     polPodSelector = \<lparr>matchLabels = [], matchExpressions = []\<rparr>, polIngress = Some [], polEgress = None,
     polPolicyTypes = []\<rparr>"
  shows "\<forall>E D cfg pod podInfo. ApplyPolicyRulesForPodAndFamily E D cfg [p ''a'', p ''b''] pod podInfo
     = ApplyPolicyRulesForPodAndFamily E D cfg [p ''b'', p ''a''] pod podInfo"
  by (intro allI policy_order_irrelevant) (simp_all add: p_def policyNamespacedName_def add_mset_commute)

lemma podSelected_iff:
  "podSelected policy pod \<longleftrightarrow> selectorEmpty (polPodSelector policy)
     \<or> \<not> is_err (LabelSelectorAsSelector (polPodSelector policy)) \<and> selectorHolds (polPodSelector policy) (podLabels pod)"
  using selector_matches [of "polPodSelector policy"]
  by (cases "LabelSelectorAsSelector (polPodSelector policy)") (auto simp: podSelected_def)

lemma policyNetworksFor_iff:
  "policyNetworksFor pod podInfo policy = Some nets \<longleftrightarrow>
     polNamespace policy = podNamespace pod
   \<and> (selectorEmpty (polPodSelector policy)
      \<or> \<not> is_err (LabelSelectorAsSelector (polPodSelector policy)) \<and> selectorHolds (polPodSelector policy) (podLabels pod))
   \<and> (\<exists>annot. map_of (polAnnotations policy) PolicyNetworkAnnotation = Some annot \<and> nets = policyNetworksOf policy annot)
   \<and> (\<exists>i \<in> set (piInterfaces podInfo). netattachName i \<in> set nets)"
  unfolding policyNetworksFor_def podSelected_iff [symmetric]
  by (auto simp: piCheckPolicyNetwork_def list_ex_iff Let_def split: option.splits)

text \<open>
  When a policy concerns a pod, and when it is about a direction: its types name the direction, in any
  case of the letters, or it has no types and has rules for the direction.
\<close>

definition concernsPod :: "pod \<Rightarrow> pod_info \<Rightarrow> internal_policy \<Rightarrow> bool" where
  "concernsPod pod podInfo ip \<longleftrightarrow>
     polNamespace (ipPolicy ip) = podNamespace pod
   \<and> (selectorEmpty (polPodSelector (ipPolicy ip))
      \<or> \<not> is_err (LabelSelectorAsSelector (polPodSelector (ipPolicy ip)))
        \<and> selectorHolds (polPodSelector (ipPolicy ip)) (podLabels pod))
   \<and> (\<exists>annot. map_of (polAnnotations (ipPolicy ip)) PolicyNetworkAnnotation = Some annot
        \<and> ipNetworks ip = policyNetworksOf (ipPolicy ip) annot)
   \<and> (\<exists>i \<in> set (piInterfaces podInfo). netattachName i \<in> set (ipNetworks ip))"

definition aboutDirection :: "string \<Rightarrow> policy_rule list option \<Rightarrow> policy \<Rightarrow> bool" where
  "aboutDirection d rules p \<longleftrightarrow>
     (if polPolicyTypes p = [] then rules \<noteq> None else \<exists>v \<in> set (polPolicyTypes p). equalFoldASCII v d)"

lemma enabledTypes_acc:
  "enabledTypes vs acc = (fst acc \<or> (\<exists>v \<in> set vs. equalFoldASCII v ''Ingress''), snd acc \<or> (\<exists>v \<in> set vs. equalFoldASCII v ''Egress''))"
proof (induction vs arbitrary: acc)
  case (Cons v vs)
  have "\<not> (equalFoldASCII v ''Ingress'' \<and> equalFoldASCII v ''Egress'')"
    by (auto simp: equalFoldASCII_def)
  with Cons show ?case by auto
qed simp

lemma enabled_directions:
  "getEnabledPolicyTypes p = (aboutDirection ''Ingress'' (polIngress p) p, aboutDirection ''Egress'' (polEgress p) p)"
  by (simp add: getEnabledPolicyTypes_def aboutDirection_def enabledTypes_acc)


section \<open>Nothing reaches the kernel before the flush\<close>

lemma keeps_renderPolicies: "keeps quietN (renderPolicies E D cfg ps pod pi)"
  unfolding renderPolicies_def applyDirection_def policyStep_def Let_def
  by (intro frame_intros keeps_splits keeps_applyCommonChainRules keeps_applyPodRules keeps_marks)

text \<open>(C17)
  Rendering all rules of a pod never touches the kernel, on any path, errors included: messages are
  only appended to the queue, so that the rules become effective in one transaction or not at all.
\<close>

theorem renderPolicies_quiet:
  "kernel (nft (snd (renderPolicies E D cfg ps pod podInfo n))) = kernel (nft n)
   \<and> (\<exists>ms. messages (nft (snd (renderPolicies E D cfg ps pod podInfo n))) = messages (nft n) @ ms)"
  using keeps_renderPolicies [of E D cfg ps pod podInfo] by (simp add: keeps_def quietN_def quietC_def)

end
