(* ===== verification/Applier.thy ===== *)
theory Applier
  imports Server Legacy
begin

text \<open>
  \<^verbatim>\<open>pkg/controller/applier_linux.go\<close> (and the stubs of \<^verbatim>\<open>applier_other.go\<close>): applying the rules of a pod
  and removing them again, in the network namespace of the pod.

  The state is the ruleset of every network namespace, by the path under which it is opened.
  Parameters (\<open>os_env\<close>): opening a namespace (\<^verbatim>\<open>ns.GetNS\<close>, with the file descriptor it gives), switching
  to it (\<^verbatim>\<open>Do\<close>), opening the netlink connection (\<^verbatim>\<open>nftables.New\<close>) and the kernel behind it.
  Errors of \<^verbatim>\<open>Close\<close> are only logged by the code.
\<close>

type_synonym netns_map = "string \<Rightarrow> ruleset"

record os_env =
  osGetNS :: "string \<Rightarrow> nat res"
  osDo :: "string \<Rightarrow> unit res"
  osNewNft :: "string \<Rightarrow> unit res"
  osNft :: "string \<Rightarrow> nft_env"

definition netnsFile :: "string \<Rightarrow> string \<Rightarrow> string" where
  "netnsFile hostPrefix netnsPath = (if hostPrefix \<noteq> [] then hostPrefix @ ''/'' @ netnsPath else netnsPath)"

definition MaxInt :: nat where
  "MaxInt = 2 ^ 63 - 1"

text \<open>Runs an operation on a fresh connection to the namespace.\<close>

definition inNetns :: "string \<Rightarrow> (conn, 'a) em \<Rightarrow> (netns_map, 'a) em" where
  "inNetns path m = (\<lambda>w. case m (newConn (w path)) of (r, c) \<Rightarrow> (r, w(path := kernel c)))"

text \<open>
  \<^verbatim>\<open>nftables.New\<close> with \<^verbatim>\<open>WithNetNSFd\<close> is modelled as the library documents it: the connection works in the
  namespace of the descriptor.  The comment of \<^verbatim>\<open>flushRulesForPod\<close> reports that during shutdown such a
  connection worked in the wrong namespace, which is why the flush enters the namespace with \<^verbatim>\<open>Do\<close>; what is
  proved of \<open>applyRulesForPod\<close> is about the documented behaviour.
\<close>

definition applyRulesForPod ::
  "os_env \<Rightarrow> policy_deps \<Rightarrow> common_rule_config \<Rightarrow> policy list \<Rightarrow> pod \<Rightarrow> pod_info \<Rightarrow> string \<Rightarrow> (netns_map, unit) em" where
  "applyRulesForPod OS deps cfg policyMap pod podInfo hostPrefix =
     (let netnsPath = netnsFile hostPrefix (piNetNSPath podInfo) in
     bindM (wrapM ''cannot get pod netns'' (liftR (osGetNS OS netnsPath))) (\<lambda>fd.
     if fd > MaxInt then throwM (ErrText ''netns fd overflows int'')
     else
       thenM (wrapM ''failed to open nftables for pod'' (liftR (osNewNft OS netnsPath)))
         (inNetns netnsPath
            (ApplyPolicyRulesForPodAndFamily (osNft OS netnsPath) deps cfg policyMap pod (Some podInfo)))))"

definition managedTables :: "table list" where
  "managedTables =
     [\<lparr>tName = FilterTableName, tFamily = TableFamilyINet\<rparr>, \<lparr>tName = NatTableName, tFamily = TableFamilyINet\<rparr>]"

definition delManagedTable :: "nft_env \<Rightarrow> nat \<Rightarrow> table \<Rightarrow> (conn, nat) em" where
  "delManagedTable E deleted t =
     bindM (tryM (ListTableOfFamily E (tName t) (tFamily t))) (\<lambda>got.
       case got of
         Inl listErr \<Rightarrow> (if errorsIs listErr ErrNotExist then retM deleted
                         else throwM (ErrWrap ''failed to list table for pod'' listErr))
       | Inr existing \<Rightarrow> thenM (connDelTable existing) (retM (Suc deleted)))"

text \<open>The errors of an operation that are collected and reported at the end.\<close>

definition errOf :: "string \<Rightarrow> 'a res \<Rightarrow> go_error list" where
  "errOf msg r = (case r of Inl e \<Rightarrow> [ErrWrap msg e] | Inr _ \<Rightarrow> [])"

text \<open>The function run inside the namespace; the listing after the flush is for the log only.\<close>

definition flushTables :: "nft_env \<Rightarrow> (conn, unit) em" where
  "flushTables E =
     bindM (tryM (CleanupLegacyTables E)) (\<lambda>legacy.
     let cleanupErrs = errOf ''failed to clean legacy daemon-owned tables for pod'' legacy in
     bindM (foldM (delManagedTable E) 0 managedTables) (\<lambda>deleted.
     if deleted = 0 then liftR (joinErrs cleanupErrs)
     else bindM (tryM (connFlush E)) (\<lambda>flushed.
       liftR (joinErrs (cleanupErrs @ errOf ''failed to flush table deletions for pod'' flushed)))))"

definition flushRulesForPod :: "os_env \<Rightarrow> string \<Rightarrow> string \<Rightarrow> (netns_map, unit) em" where
  "flushRulesForPod OS path hostPrefix =
     (let netnsPath = netnsFile hostPrefix path in
     bindM (wrapM ''cannot get pod netns'' (liftR (osGetNS OS netnsPath))) (\<lambda>_.
     thenM (liftR (osDo OS netnsPath)) (
     thenM (wrapM ''failed to open nftables for pod'' (liftR (osNewNft OS netnsPath)))
       (inNetns netnsPath (flushTables (osNft OS netnsPath))))))"

text \<open>On other systems nothing can be applied, and there is nothing to flush.\<close>

definition applyRulesForPod_other :: "(netns_map, unit) em" where
  "applyRulesForPod_other = throwM (ErrText ''nftables rule application is unsupported'')"

definition flushRulesForPod_other :: "(netns_map, unit) em" where
  "flushRulesForPod_other = retM ()"

section \<open>What the flush may delete\<close>

definition managedTable :: "table \<Rightarrow> bool" where
  "managedTable t \<longleftrightarrow> tName t \<in> {FilterTableName, NatTableName} \<and> tFamily t = TableFamilyINet"

definition flushMsg :: "ruleset \<Rightarrow> nl_msg \<Rightarrow> bool" where
  "flushMsg K m \<longleftrightarrow> allowedDel K m \<or> (\<exists>t. m = MsgDelTable t \<and> managedTable t)"

definition flushInv :: "ruleset \<Rightarrow> conn \<Rightarrow> bool" where
  "flushInv K c \<longleftrightarrow> list_all (flushMsg K) (messages c)
     \<and> (\<exists>ms. list_all (flushMsg K) ms \<and> kernel c = applyMsgs K ms)"

lemma legacyInv_flushInv: "legacyInv K c \<Longrightarrow> flushInv K c"
  unfolding legacyInv_def flushInv_def flushMsg_def by (metis (no_types, lifting) list.pred_mono_strong)

lemma managedTable_same: "managedTable t \<Longrightarrow> sameTable x t \<Longrightarrow> managedTable x"
  by (simp add: managedTable_def sameTable_def)

lemma flushMsg_subset:
  "flushMsg K m \<Longrightarrow> set (ksRules (applyMsg rs m)) \<subseteq> set (ksRules rs) \<and> set (ksSets (applyMsg rs m)) \<subseteq> set (ksSets rs)"
  using applyMsg_del_subset [of K m rs] by (auto simp: flushMsg_def)

text \<open>What is neither in a managed table nor a daemon-owned object of a legacy table.\<close>

definition foreignParts :: "ruleset \<Rightarrow> table list \<times> chain list \<times> (nft_set \<times> set_element list) list \<times> rule list" where
  "foreignParts rs =
     (filter (\<lambda>t. \<not> managedTable t) (ksTables rs),
      filter (\<lambda>c. \<not> managedTable (cTable c)) (filter (\<lambda>c. \<not> ownedChain c) (ksChains rs)),
      filter (\<lambda>s. \<not> managedTable (sTable (fst s))) (filter (\<lambda>s. \<not> ownedSet (fst s)) (ksSets rs)),
      filter (\<lambda>r. \<not> managedTable (rTable r)) (filter (\<lambda>r. \<not> ownedRule r) (ksRules rs)))"

lemma filter_managed:
  assumes "managedTable t"
  shows "filter (\<lambda>x. \<not> managedTable (g x)) (filter (\<lambda>x. \<not> sameTable (g x) t) xs) = filter (\<lambda>x. \<not> managedTable (g x)) xs"
    and "filter (\<lambda>x. \<not> managedTable (g x)) (filter P (filter (\<lambda>x. \<not> sameTable (g x) t) xs))
      = filter (\<lambda>x. \<not> managedTable (g x)) (filter P xs)"
  using managedTable_same [OF assms] by (induction xs) auto

lemma foreignParts_msg:
  assumes "flushMsg K m" "wfRules K" "set (ksRules rs) \<subseteq> set (ksRules K)" "set (ksSets rs) \<subseteq> set (ksSets K)"
  shows "foreignParts (applyMsg rs m) = foreignParts rs"
proof (cases "allowedDel K m")
  case True
  from applyMsg_foreign [OF this assms(2-4)] applyMsg_del_subset [OF this, of rs]
  show ?thesis unfolding foreignParts_def by simp
next
  case False
  then obtain t where m: "m = MsgDelTable t" and t: "managedTable t" using assms(1) by (auto simp: flushMsg_def)
  show ?thesis
    by (simp add: foreignParts_def m filter_managed [OF t] filter_managed(1) [OF t, where g = "\<lambda>x. x"] del: filter_filter)
qed

lemma foreignParts_msgs:
  assumes "list_all (flushMsg K) ms" "wfRules K" "set (ksRules rs) \<subseteq> set (ksRules K)" "set (ksSets rs) \<subseteq> set (ksSets K)"
  shows "foreignParts (applyMsgs rs ms) = foreignParts rs"
  using assms(1,3,4)
proof (induction ms arbitrary: rs)
  case (Cons m ms)
  then have "flushMsg K m" "list_all (flushMsg K) ms" by simp_all
  with Cons foreignParts_msg [OF _ assms(2)] flushMsg_subset [of K m rs] show ?case
    by (metis applyMsgs_simps(2) subset_trans)
qed simp

section \<open>The flush\<close>

lemma delManagedTable_apply:
  "delManagedTable E k t c =
     (case ListTableOfFamily E (tName t) (tFamily t) c of
        (Inl e, c') \<Rightarrow> (if errorsIs e ErrNotExist then (Inr k, c')
                       else (Inl (ErrWrap ''failed to list table for pod'' e), c'))
      | (Inr d, c') \<Rightarrow> (Inr (Suc k), c'\<lparr>messages := messages c' @ [MsgDelTable d]\<rparr>))"
  by (simp add: delManagedTable_def run_simps connDelTable_def queueMsg_apply split: prod.splits sum.splits)

lemma delManaged_run:
  assumes "\<forall>t \<in> set ts. managedTable t" "foldM (delManagedTable E) k ts c = (r, c')"
  shows "\<exists>ds. list_all managedTable ds \<and> c' = c\<lparr>messages := messages c @ map MsgDelTable ds\<rparr>
     \<and> (\<forall>n. r = Inr n \<longrightarrow> n = k + length ds
          \<and> (honestFaults E \<longrightarrow> (\<forall>t \<in> set ts. \<forall>x \<in> set (ksTables (kernel c)). sameTable x t \<longrightarrow> (\<exists>d \<in> set ds. sameTable d t))))"
  using assms
proof (induction ts arbitrary: k c)
  case Nil
  then show ?case by (intro exI [of _ "[]"]) auto
next
  case (Cons t ts)
  obtain got where got: "ListTableOfFamily E (tName t) (tFamily t) c = (got, c)"
    by (simp add: ListTableOfFamily_def readM_apply)
  show ?case
  proof (cases got)
    case (Inl e)
    show ?thesis
    proof (cases "errorsIs e ErrNotExist")
      case True
      have absent: "\<not> sameTable x t" if "honestFaults E" "x \<in> set (ksTables (kernel c))" for x
        using got Inl True that
        by (auto simp: ListTableOfFamily_def readM_apply honestFaults_def find_None_iff sameTable_def split: option.splits)
      have "delManagedTable E k t c = (Inr k, c)" using got Inl True by (simp add: delManagedTable_apply)
      then have "foldM (delManagedTable E) k ts c = (r, c')" using Cons.prems(2) by (simp add: bindM_apply)
      from Cons.IH [OF _ this] Cons.prems(1) absent show ?thesis by fastforce
    next
      case False
      then have "\<exists>e'. delManagedTable E k t c = (Inl e', c)" using got Inl by (simp add: delManagedTable_apply)
      then show ?thesis using Cons.prems(2) by (intro exI [of _ "[]"]) (auto simp: bindM_apply)
    qed
  next
    case (Inr d)
    then have d: "sameTable d t"
      using got by (auto simp: ListTableOfFamily_def readM_apply find_Some_iff sameTable_def split: option.splits)
    let ?c = "c\<lparr>messages := messages c @ [MsgDelTable d]\<rparr>"
    have "delManagedTable E k t c = (Inr (Suc k), ?c)" using got Inr by (simp add: delManagedTable_apply)
    then have "foldM (delManagedTable E) (Suc k) ts ?c = (r, c')" using Cons.prems(2) by (simp add: bindM_apply)
    from Cons.IH [OF _ this] Cons.prems(1) obtain ds where ds: "list_all managedTable ds"
      "c' = ?c\<lparr>messages := messages ?c @ map MsgDelTable ds\<rparr>"
      "\<forall>n. r = Inr n \<longrightarrow> n = Suc k + length ds \<and> (honestFaults E \<longrightarrow>
         (\<forall>t \<in> set ts. \<forall>x \<in> set (ksTables (kernel ?c)). sameTable x t \<longrightarrow> (\<exists>d \<in> set ds. sameTable d t)))"
      by auto
    show ?thesis
      using ds d Cons.prems(1) managedTable_same [of t d] by (intro exI [of _ "d # ds"]) auto
  qed
qed

lemma managedTables_managed: "\<forall>t \<in> set managedTables. managedTable t"
  by (simp add: managedTables_def managedTable_def)

text \<open>The stages of a flush, on every path.\<close>

lemma flushTables_stages:
  assumes "kernelOK E" "wfRules (kernel c)" "messages c = []" "flushTables E c = (r, c')"
  obtains r1 c1 r2 ds where "CleanupLegacyTables E c = (r1, c1)" "legacyInv (kernel c) c1" "list_all managedTable ds"
    and "\<forall>n. r2 = Inr n \<longrightarrow> n = length ds \<and> (honestFaults E \<longrightarrow>
        (\<forall>t \<in> set managedTables. \<forall>x \<in> set (ksTables (kernel c1)). sameTable x t \<longrightarrow> (\<exists>d \<in> set ds. sameTable d t)))"
    and "(r = Inr () \<longrightarrow> \<not> is_err r1 \<and> \<not> is_err r2)
       \<and> (c' = c1\<lparr>messages := messages c1 @ map MsgDelTable ds\<rparr> \<and> (r = Inr () \<longrightarrow> ds = [])
          \<or> ds \<noteq> [] \<and> (\<exists>r3. connFlush E (c1\<lparr>messages := messages c1 @ map MsgDelTable ds\<rparr>) = (r3, c') \<and> (r = Inr () \<longrightarrow> r3 = Inr ())))"
proof -
  obtain r1 c1 where leg: "CleanupLegacyTables E c = (r1, c1)" by (cases "CleanupLegacyTables E c")
  have inv: "legacyInv (kernel c) c1"
    using triple_CleanupLegacyTables [OF assms(1,2)] legacyInv_start [OF assms(3)] leg
    unfolding triple_def by (metis snd_conv)
  obtain r2 c2 where del: "foldM (delManagedTable E) 0 managedTables c1 = (r2, c2)"
    by (cases "foldM (delManagedTable E) 0 managedTables c1")
  from delManaged_run [OF managedTables_managed this] obtain ds where ds: "list_all managedTable ds"
    "c2 = c1\<lparr>messages := messages c1 @ map MsgDelTable ds\<rparr>"
    "\<forall>n. r2 = Inr n \<longrightarrow> n = length ds \<and> (honestFaults E \<longrightarrow>
        (\<forall>t \<in> set managedTables. \<forall>x \<in> set (ksTables (kernel c1)). sameTable x t \<longrightarrow> (\<exists>d \<in> set ds. sameTable d t)))"
    by auto
  obtain r3 c3 where fl: "connFlush E c2 = (r3, c3)" by (cases "connFlush E c2")
  have run: "(r, c') = (case r2 of Inl e \<Rightarrow> (Inl e, c2) | Inr n \<Rightarrow>
      if n = 0 then (joinErrs (errOf ''failed to clean legacy daemon-owned tables for pod'' r1), c2)
      else (joinErrs (errOf ''failed to clean legacy daemon-owned tables for pod'' r1
              @ errOf ''failed to flush table deletions for pod'' r3), c3))"
    using assms(4) leg del fl by (cases r2) (auto simp: flushTables_def run_simps Let_def split: if_splits)
  have join: "joinErrs (errOf m r1) = Inr () \<Longrightarrow> \<not> is_err r1"
    "joinErrs (errOf m r1 @ errOf m' r3) = Inr () \<Longrightarrow> \<not> is_err r1 \<and> r3 = Inr ()" for m m'
    by (auto simp: joinErrs_def errOf_def split: sum.splits if_splits)
  have "(r = Inr () \<longrightarrow> \<not> is_err r1 \<and> \<not> is_err r2)
       \<and> (c' = c1\<lparr>messages := messages c1 @ map MsgDelTable ds\<rparr> \<and> (r = Inr () \<longrightarrow> ds = [])
          \<or> ds \<noteq> [] \<and> (\<exists>r3. connFlush E (c1\<lparr>messages := messages c1 @ map MsgDelTable ds\<rparr>) = (r3, c') \<and> (r = Inr () \<longrightarrow> r3 = Inr ())))"
  proof (cases r2)
    case (Inr n)
    then show ?thesis using run ds fl join by (auto split: if_splits)
  qed (use run ds in simp)
  then show thesis using that leg inv ds by blast
qed

lemma connFlush_inv:
  assumes "kernelOK E" "flushInv K c" "connFlush E c = (r, c')"
  shows "flushInv K c'"
proof -
  obtain ms where ms: "list_all (flushMsg K) ms" "kernel c = applyMsgs K ms" "list_all (flushMsg K) (messages c)"
    using assms(2) unfolding flushInv_def by blast
  have "\<exists>ms'. list_all (flushMsg K) ms' \<and> applyMsgs (kernel c) (messages c) = applyMsgs K ms'"
    using ms by (intro exI [of _ "ms @ messages c"]) (simp add: applyMsgs_append)
  then show ?thesis
    using assms(1,3) ms by (auto simp: connFlush_def Let_def kernelOK_def flushInv_def split: if_splits option.splits sum.splits)
qed

lemma flushTables_inv:
  assumes "kernelOK E" "wfRules (kernel c)" "messages c = []" "flushTables E c = (r, c')"
  shows "flushInv (kernel c) c'"
  using assms
proof (rule flushTables_stages)
  fix r1 c1 r2 ds
  assume inv: "legacyInv (kernel c) c1" and ds: "list_all managedTable ds"
    and fin: "(r = Inr () \<longrightarrow> \<not> is_err r1 \<and> \<not> is_err r2)
       \<and> (c' = c1\<lparr>messages := messages c1 @ map MsgDelTable ds\<rparr> \<and> (r = Inr () \<longrightarrow> ds = [])
          \<or> ds \<noteq> [] \<and> (\<exists>r3. connFlush E (c1\<lparr>messages := messages c1 @ map MsgDelTable ds\<rparr>) = (r3, c') \<and> (r = Inr () \<longrightarrow> r3 = Inr ())))"
  have "list_all (flushMsg (kernel c)) (map MsgDelTable ds)"
    using ds by (auto simp: list_all_iff flushMsg_def)
  with legacyInv_flushInv [OF inv]
  have "flushInv (kernel c) (c1\<lparr>messages := messages c1 @ map MsgDelTable ds\<rparr>)"
    by (simp add: flushInv_def)
  with fin connFlush_inv [OF assms(1)] show ?thesis by blast
qed

lemma flushTables_foreign:
  assumes "kernelOK E" "wfRules (kernel c)" "messages c = []"
  shows "foreignParts (kernel (snd (flushTables E c))) = foreignParts (kernel c)"
proof -
  obtain r c' where run: "flushTables E c = (r, c')" by (cases "flushTables E c")
  from flushTables_inv [OF assms run] obtain ms where "list_all (flushMsg (kernel c)) ms" "kernel c' = applyMsgs (kernel c) ms"
    unfolding flushInv_def by blast
  with foreignParts_msgs [OF _ assms(2)] run show ?thesis by simp
qed

definition noManaged :: "ruleset \<Rightarrow> bool" where
  "noManaged rs \<longleftrightarrow> (\<forall>t \<in> set (ksTables rs). \<not> managedTable t) \<and> (\<forall>r \<in> set (ksRules rs). \<not> managedTable (rTable r))"

definition rulesInTables :: "ruleset \<Rightarrow> bool" where
  "rulesInTables rs \<longleftrightarrow> (\<forall>r \<in> set (ksRules rs). \<exists>t \<in> set (ksTables rs). sameTable (rTable r) t)"

lemma applyMsgs_DelTable:
  "ksTables (applyMsgs rs (map MsgDelTable ds)) = filter (\<lambda>x. \<not> (\<exists>d \<in> set ds. sameTable x d)) (ksTables rs)
   \<and> ksRules (applyMsgs rs (map MsgDelTable ds)) = filter (\<lambda>r. \<not> (\<exists>d \<in> set ds. sameTable (rTable r) d)) (ksRules rs)"
  by (induction ds arbitrary: rs) (auto intro!: filter_cong)

lemma managedTable_iff: "managedTable x \<longleftrightarrow> (\<exists>t \<in> set managedTables. sameTable x t)"
  by (auto simp: managedTable_def managedTables_def sameTable_def)

lemma sameTable_trans: "sameTable x t \<Longrightarrow> sameTable d t \<Longrightarrow> sameTable x d"
  by (simp add: sameTable_def)

lemma flushTables_clean:
  assumes "kernelOK E" "wfRules (kernel c)" "messages c = []" "flushTables E c = (Inr (), c')"
    and "honestFaults E" "rulesInTables (kernel c)"
  shows "noManaged (kernel c')"
  using assms(1-4)
proof (rule flushTables_stages)
  fix r1 r2 ds and c1 :: conn
  let ?c2 = "c1\<lparr>messages := messages c1 @ map MsgDelTable ds\<rparr>"
  assume inv: "legacyInv (kernel c) c1"
    and n: "\<forall>n. r2 = Inr n \<longrightarrow> n = length ds \<and> (honestFaults E \<longrightarrow>
        (\<forall>t \<in> set managedTables. \<forall>x \<in> set (ksTables (kernel c1)). sameTable x t \<longrightarrow> (\<exists>d \<in> set ds. sameTable d t)))"
    and fin: "(Inr () = Inr () \<longrightarrow> \<not> is_err r1 \<and> \<not> is_err r2)
       \<and> (c' = ?c2 \<and> (Inr () = Inr () \<longrightarrow> ds = [])
          \<or> ds \<noteq> [] \<and> (\<exists>r3. connFlush E ?c2 = (r3, c') \<and> (Inr () = Inr () \<longrightarrow> r3 = Inr ())))"
  obtain ms where ms: "list_all (allowedDel (kernel c)) ms" "kernel c1 = applyMsgs (kernel c) ms"
    "list_all (allowedDel (kernel c)) (messages c1)"
    using inv unfolding legacyInv_def by blast
  have tables: "ksTables (kernel c1) = ksTables (kernel c)" "set (ksRules (kernel c1)) \<subseteq> set (ksRules (kernel c))"
    using applyMsgs_del_subset [OF ms(1), of "kernel c"] ms(2) by auto
  have covered: "\<exists>d \<in> set ds. sameTable x d" if x: "x \<in> set (ksTables (kernel c))" "managedTable x" for x
  proof -
    obtain k where "r2 = Inr k" using fin by (cases r2) auto
    moreover obtain t where t: "t \<in> set managedTables" "sameTable x t" using x(2) unfolding managedTable_iff by blast
    ultimately obtain d where "d \<in> set ds" "sameTable d t" using n assms(5) x(1) tables(1) by metis
    with t(2) sameTable_trans show ?thesis by blast
  qed
  have rules: "\<exists>d \<in> set ds. sameTable (rTable r) d" if r: "r \<in> set (ksRules (kernel c1))" "managedTable (rTable r)" for r
  proof -
    obtain t where t: "t \<in> set (ksTables (kernel c))" "sameTable (rTable r) t"
      using assms(6) tables(2) r(1) unfolding rulesInTables_def by blast
    then have "managedTable t" using r(2) by (simp add: managedTable_def sameTable_def)
    from covered [OF t(1) this] t(2) show ?thesis by (auto simp: sameTable_def)
  qed
  have commit: "envCommit E k q = Inr k' \<Longrightarrow> k' = applyMsgs k q" for k q k'
    using assms(1) unfolding kernelOK_def by blast
  show ?thesis
  proof (cases "ds = []")
    case True
    with fin have "kernel c' = kernel c1" by auto
    then show ?thesis using covered rules True tables(1) by (auto simp: noManaged_def)
  next
    case False
    then have "connFlush E ?c2 = (Inr (), c')" using fin by auto
    then have k: "kernel c' = applyMsgs (applyMsgs (kernel c1) (messages c1)) (map MsgDelTable ds)"
      using False
      by (auto simp: connFlush_def Let_def applyMsgs_append dest!: commit split: option.splits sum.splits)
    have q: "ksTables (applyMsgs (kernel c1) (messages c1)) = ksTables (kernel c)"
      "set (ksRules (applyMsgs (kernel c1) (messages c1))) \<subseteq> set (ksRules (kernel c1))"
      using applyMsgs_del_subset [OF ms(3), of "kernel c1"] tables(1) by auto
    show ?thesis
      unfolding noManaged_def k using q covered rules by (auto simp: applyMsgs_DelTable)
  qed
qed

lemma newConn_simps [simp]: "kernel (newConn rs) = rs" "messages (newConn rs) = []" "connErr (newConn rs) = None"
  by (simp_all add: newConn_def)

lemma flushRulesForPod_cases:
  assumes "flushRulesForPod OS path hp w = (r, w')"
  shows "(\<exists>e. r = Inl e) \<and> w' = w
    \<or> (\<exists>c. flushTables (osNft OS (netnsFile hp path)) (newConn (w (netnsFile hp path))) = (r, c)
          \<and> w' = w(netnsFile hp path := kernel c))"
  using assms
  by (cases "osGetNS OS (netnsFile hp path)"; cases "osDo OS (netnsFile hp path)"; cases "osNewNft OS (netnsFile hp path)")
    (auto simp: flushRulesForPod_def run_simps inNetns_def Let_def split: prod.splits, metis+)

text \<open>(C11)
  Removing the rules of a pod touches nothing but the daemon's own objects, on every path, failures
  included: other network namespaces are unchanged, and in the pod's namespace every table other than
  the two managed ones survives with all its chains, sets and rules in order, except the
  daemon-owned leftovers in the legacy tables.
\<close>

theorem flushRulesForPod_safe:
  assumes "kernelOK (osNft OS (netnsFile hp path))" "wfRules (w (netnsFile hp path))"
  shows "let w' = snd (flushRulesForPod OS path hp w) in
     foreignParts (w' (netnsFile hp path)) = foreignParts (w (netnsFile hp path))
   \<and> (\<forall>p. p \<noteq> netnsFile hp path \<longrightarrow> w' p = w p)"
proof -
  obtain r w' where run: "flushRulesForPod OS path hp w = (r, w')" by (cases "flushRulesForPod OS path hp w")
  show ?thesis
    using flushRulesForPod_cases [OF run] flushTables_foreign [OF assms(1), of "newConn (w (netnsFile hp path))"] assms(2) run
    by (auto simp: Let_def)
qed

text \<open>(C10)
  When removing the rules of a pod reports success, the pod's network namespace has no managed table
  and no rule in one: the pod is left without enforcement rules.
\<close>

theorem flushRulesForPod_clean:
  assumes "kernelOK (osNft OS (netnsFile hp path))" "honestFaults (osNft OS (netnsFile hp path))"
    and "wfRules (w (netnsFile hp path))" "rulesInTables (w (netnsFile hp path))"
    and "flushRulesForPod OS path hp w = (Inr (), w')"
  shows "noManaged (w' (netnsFile hp path))"
proof -
  obtain c where run: "flushTables (osNft OS (netnsFile hp path)) (newConn (w (netnsFile hp path))) = (Inr (), c)"
    and w': "w' = w(netnsFile hp path := kernel c)"
    using flushRulesForPod_cases [OF assms(5)] by auto
  from flushTables_clean [OF assms(1) _ _ run assms(2)] assms(3,4) show ?thesis by (simp add: w')
qed

text \<open>An example: a namespace with the filter table of the daemon and a table of somebody else.\<close>

definition exManaged :: table where
  "exManaged = \<lparr>tName = FilterTableName, tFamily = TableFamilyINet\<rparr>"

definition exForeign :: table where
  "exForeign = \<lparr>tName = ''cni'', tFamily = TableFamilyINet\<rparr>"

definition exRules :: ruleset where
  "exRules = emptyRuleset\<lparr>ksTables := [exForeign, exManaged],
     ksChains := [(nilChain exManaged)\<lparr>cName := ''input''\<rparr>],
     ksRules := [(newRuleOf exManaged ((nilChain exManaged)\<lparr>cName := ''input''\<rparr>) ''drop-remaining'' [])\<lparr>rHandle := 3\<rparr>]\<rparr>"

definition exOS :: os_env where
  "exOS = \<lparr>osGetNS = (\<lambda>p. Inr 5), osDo = (\<lambda>p. Inr ()), osNewNft = (\<lambda>p. Inr ()), osNft = (\<lambda>p. idealEnv (\<lambda>_. []))\<rparr>"

lemmas exFlush_defs = exManaged_def exForeign_def exRules_def exOS_def nilChain_def newRuleOf_def emptyRuleset_def

lemma exFlush_ok:
  "kernelOK (osNft exOS p)" "honestFaults (osNft exOS p)" "wfRules exRules" "rulesInTables exRules"
  by (simp_all add: exFlush_defs wfRules_def rulesInTables_def honestFaults_def sameTable_def isChain_def)

lemma exFlush_run:
  "flushRulesForPod exOS path hp (\<lambda>_. exRules)
     = (Inr (), (\<lambda>_. exRules)(netnsFile hp path := emptyRuleset\<lparr>ksTables := [exForeign]\<rparr>))"
  by (simp add: flushRulesForPod_def inNetns_def flushTables_def run_simps CleanupLegacyTables_def
      cleanupLegacyTable_def legacyNames_def name_consts ListTablesOfFamily_def ListTableOfFamily_def readM_apply
      managedTables_def delManagedTable_apply connFlush_def Let_def joinErrs_def errOf_def exFlush_defs sameTable_def
      TableFamilyINet_def)

lemma exForeign_kept:
  assumes "foreignParts rs = foreignParts exRules"
  shows "exForeign \<in> set (ksTables rs)"
proof -
  have "exForeign \<in> set (fst (foreignParts exRules))"
    by (simp add: foreignParts_def exFlush_defs managedTable_def name_consts)
  then have "exForeign \<in> set (fst (foreignParts rs))" by (simp add: assms)
  then show ?thesis by (simp add: foreignParts_def)
qed

theorem flushRulesForPod_safe_witness:
  "exForeign \<in> set (ksTables (snd (flushRulesForPod exOS ''/proc/7/ns/net'' ''/host'' (\<lambda>_. exRules)) ''/host//proc/7/ns/net''))"
proof (rule exForeign_kept)
  have path: "netnsFile ''/host'' ''/proc/7/ns/net'' = ''/host//proc/7/ns/net''" by (simp add: netnsFile_def)
  show "foreignParts (snd (flushRulesForPod exOS ''/proc/7/ns/net'' ''/host'' (\<lambda>_. exRules)) ''/host//proc/7/ns/net'')
      = foreignParts exRules"
    using flushRulesForPod_safe [of exOS "''/host''" "''/proc/7/ns/net''" "\<lambda>_. exRules", unfolded path Let_def] exFlush_ok by blast
qed

theorem flushRulesForPod_clean_witness:
  "noManaged (emptyRuleset\<lparr>ksTables := [exForeign]\<rparr>)"
  using flushRulesForPod_clean [OF _ _ _ _ exFlush_run [of "''/proc/7/ns/net''" "''/host''"]] exFlush_ok by simp

end
