(* ===== verification/Reconciler.thy ===== *)
theory Reconciler
  imports Controllers Applier "HOL-Library.AList"
begin

text \<open>
  \<^verbatim>\<open>pkg/controller/reconciler.go\<close>, \<^verbatim>\<open>predicates.go\<close>, \<^verbatim>\<open>mappers.go\<close> and \<^verbatim>\<open>indexes.go\<close>: the reconciler of one
  node, the lookups it offers to the rule generator, the cached connection to the container runtime
  and the filters and maps between watch events and reconcile requests.

  The state of a run is the reconciler itself (its cached runtime client) and the rulesets of the
  network namespaces.  Parameters: the Kubernetes client (\<open>k8s_client\<close>: one function per query the code
  makes, each may fail), the codec of CNI configurations and what the other theories take.
\<close>

section \<open>The Kubernetes client and CNI configurations\<close>

record net_attach_def =
  nadName :: string
  nadConfig :: string

record k8s_client =
  clListPolicies :: "policy list res"
  clListPodsByNode :: "string \<Rightarrow> pod list res"
  clListPodsByLabels :: "selector \<Rightarrow> pod list res"
  clGetNamespace :: "string \<Rightarrow> labels res"
  clGetNetDef :: "ns_name \<Rightarrow> net_attach_def res"

text \<open>
  \<open>cniRaw\<close> decodes into a \<^verbatim>\<open>map[string]interface{}\<close> (\<open>None\<close> for \<^verbatim>\<open>null\<close>), \<open>cniMarshal\<close> encodes one,
  \<open>cniFromFile\<close> reads the configuration directory; \<open>cniConfList\<close> and \<open>cniConf\<close> decode the plugin types
  of a configuration list and the type of a single configuration.
\<close>

record cni_codec =
  cniFromFile :: "string \<Rightarrow> string \<Rightarrow> string res"
  cniRaw :: "string \<Rightarrow> (string \<times> json) list option res"
  cniMarshal :: "(string \<times> json) list \<Rightarrow> string res"
  cniConfList :: "string \<Rightarrow> string list res"
  cniConf :: "string \<Rightarrow> string res"

text \<open>Writing to the nil map that \<^verbatim>\<open>null\<close> decodes to panics.\<close>

definition GetCNIConfigFromSpec :: "cni_codec \<Rightarrow> string \<Rightarrow> string \<Rightarrow> string res" where
  "GetCNIConfigFromSpec N configData netName =
     bindR (wrapR ''failed to unmarshal Spec.Config'' (cniRaw N configData)) (\<lambda>rawConfig.
       case rawConfig of
         None \<Rightarrow> Inl (ErrPanic ''assignment to entry in nil map'')
       | Some members \<Rightarrow>
           (if map_of members ''name'' = None \<or> map_of members ''name'' = Some (JStr [])
            then wrapR ''failed to re-marshal Spec.Config''
                   (cniMarshal N ((''name'', JStr netName) # filter (\<lambda>kv. fst kv \<noteq> ''name'') members))
            else Inr configData))"

definition GetCNIConfig :: "cni_codec \<Rightarrow> net_attach_def \<Rightarrow> string \<Rightarrow> string res" where
  "GetCNIConfig N nad confDir =
     (if nadConfig nad = [] then wrapR ''GetCNIConfig: err in GetCNIConfigFromFile'' (cniFromFile N (nadName nad) confDir)
      else wrapR ''GetCNIConfig: err in getCNIConfigFromSpec'' (GetCNIConfigFromSpec N (nadConfig nad) (nadName nad)))"

definition errsOf :: "'a res \<Rightarrow> go_error list" where
  "errsOf r = (case r of Inl e \<Rightarrow> [e] | Inr _ \<Rightarrow> [])"

definition resolvePluginType :: "cni_codec \<Rightarrow> k8s_client \<Rightarrow> ns_name \<Rightarrow> string res" where
  "resolvePluginType N cl namespacedName =
     bindR (wrapR ''get network attachment definition'' (clGetNetDef cl namespacedName)) (\<lambda>nad.
     bindR (wrapR ''get CNI config'' (GetCNIConfig N nad ''/etc/cni/multus/net.d'')) (\<lambda>confBytes.
     let netconfList = cniConfList N confBytes; netconf = cniConf N confBytes in
     case netconfList of
       Inr (t # _) \<Rightarrow> Inr t
     | _ \<Rightarrow>
         (case netconf of
            Inr t \<Rightarrow>
              (if t \<noteq> [] then Inr t
               else if is_err netconfList
               then Inl (ErrWrap ''parse CNI config for network attachment'' (ErrJoin (errsOf netconfList)))
               else Inl (ErrText ''parse CNI config for network attachment: plugin type is empty''))
          | Inl e \<Rightarrow>
              Inl (ErrWrap ''parse CNI config for network attachment'' (ErrJoin (errsOf netconfList @ [e]))))))"

section \<open>The reconciler\<close>

text \<open>The namespaced names of a policy map are distinct: storing under a key replaces what it held.\<close>

type_synonym policy_map = "(ns_name \<times> policy) list"

definition buildPolicyMap :: "policy list \<Rightarrow> policy_map" where
  "buildPolicyMap policies = foldl (\<lambda>pm p. AList.update (polNamespace p, polName p) p pm) [] policies"

type_synonym apply_func =
  "policy_deps \<Rightarrow> common_rule_config \<Rightarrow> policy list \<Rightarrow> pod \<Rightarrow> pod_info \<Rightarrow> string \<Rightarrow> (netns_map, unit) em"

record node_reconciler =
  rNodeName :: string
  rClient :: k8s_client
  rPolicyDeps :: "policy_deps option"
  rHostPrefix :: string
  rNetworkPlugins :: "string list"
  rCommonCfg :: common_rule_config
  rCriClient :: "cri_client option"
  rCriConn :: "cri_conn option"
  rContainerRuntimeEndpoint :: string
  rApplyRulesForPodFunc :: "apply_func option"

text \<open>What the code is linked against, and the iteration order of maps.\<close>

record sys =
  sysOS :: os_env
  sysJSON :: json_codec
  sysCNI :: cni_codec
  sysDial :: cri_dial
  sysMapOrder :: "nat \<Rightarrow> string list \<Rightarrow> string list"

definition ListPods :: "node_reconciler \<Rightarrow> selector \<Rightarrow> pod list res" where
  "ListPods r sel = clListPodsByLabels (rClient r) sel"

definition GetNamespaceInfo :: "node_reconciler \<Rightarrow> string \<Rightarrow> labels res" where
  "GetNamespaceInfo r namespace = clGetNamespace (rClient r) namespace"

definition GetPluginType :: "sys \<Rightarrow> node_reconciler \<Rightarrow> ns_name \<Rightarrow> string res" where
  "GetPluginType S r namespacedName = resolvePluginType (sysCNI S) (rClient r) namespacedName"

definition criRuntimeClient :: "sys \<Rightarrow> (node_reconciler, cri_client) em" where
  "criRuntimeClient S =
     bindM getM (\<lambda>r.
       case rCriClient r of
         Some c \<Rightarrow> retM c
       | None \<Rightarrow>
           if rContainerRuntimeEndpoint r = [] then throwM (ErrText ''CRI runtime endpoint is empty'')
           else bindM (wrapM ''connect to CRI runtime'' (liftR
                  (GetCriRuntimeClientWithContext (sysDial S) (rContainerRuntimeEndpoint r) (rHostPrefix r)))) (\<lambda>(cl, conn).
                thenM (modifyM (\<lambda>r. r\<lparr>rCriClient := Some cl, rCriConn := Some conn\<rparr>)) (retM cl)))"

definition CloseCRI :: "sys \<Rightarrow> (node_reconciler, unit) em" where
  "CloseCRI S =
     bindM getM (\<lambda>r.
     let err = (case rCriConn r of None \<Rightarrow> None | Some conn \<Rightarrow> dialClose (sysDial S) conn) in
     thenM (modifyM (\<lambda>r. r\<lparr>rCriConn := None, rCriClient := None\<rparr>))
       (case err of None \<Rightarrow> retM () | Some e \<Rightarrow> throwM e))"

definition GetPodInfo :: "sys \<Rightarrow> pod \<Rightarrow> (node_reconciler, pod_info) em" where
  "GetPodInfo S pod =
     bindM getM (\<lambda>r.
     bindM (wrapM ''build pod info'' (liftR
              (NewPodInfoFromPod (sysJSON S) pod None (rNodeName r) (rNetworkPlugins r) (GetPluginType S r)))) (\<lambda>podInfo.
     if piInterfaces podInfo = [] \<or> \<not> CheckNodeNameIdentical (rNodeName r) (podNodeName pod) then retM podInfo
     else
       bindM (criRuntimeClient S) (\<lambda>criClient.
       bindM (wrapM ''resolve pod network namespace'' (liftR
                (GetPodNetNSPathWithContext (sysJSON S) (Some criClient) pod))) (\<lambda>netnsPath.
         if netnsPath = [] then throwM (ErrText ''resolve pod network namespace: empty netns path'')
         else retM (podInfo\<lparr>piNetNSPath := netnsPath\<rparr>)))))"

text \<open>
  The reconciler as the \<^verbatim>\<open>PolicyDeps\<close> of the rule generator.  The generator's calls see the reconciler
  as it is when the rules of a pod are applied; by then the runtime client is cached, and the calls
  leave the reconciler as it is (\<open>GetPodInfo_warm\<close> below).
\<close>

definition reconcilerDeps :: "sys \<Rightarrow> node_reconciler \<Rightarrow> policy_deps" where
  "reconcilerDeps S r =
     \<lparr>depListPods = ListPods r, depGetNamespaceInfo = GetNamespaceInfo r,
      depGetPodInfo = (\<lambda>pod. fst (GetPodInfo S pod r)), depMapOrder = sysMapOrder S\<rparr>"

definition policyDeps :: "sys \<Rightarrow> node_reconciler \<Rightarrow> policy_deps" where
  "policyDeps S r = (case rPolicyDeps r of Some d \<Rightarrow> d | None \<Rightarrow> reconcilerDeps S r)"

definition depsGetPodInfo :: "sys \<Rightarrow> pod \<Rightarrow> (node_reconciler, pod_info) em" where
  "depsGetPodInfo S pod =
     bindM getM (\<lambda>r. case rPolicyDeps r of Some d \<Rightarrow> liftR (depGetPodInfo d pod) | None \<Rightarrow> GetPodInfo S pod)"

record world =
  wRec :: node_reconciler
  wNet :: netns_map

definition onRec :: "(node_reconciler, 'a) em \<Rightarrow> (world, 'a) em" where
  "onRec m = (\<lambda>w. case m (wRec w) of (r, rec) \<Rightarrow> (r, w\<lparr>wRec := rec\<rparr>))"

definition onNet :: "(netns_map, 'a) em \<Rightarrow> (world, 'a) em" where
  "onNet m = (\<lambda>w. case m (wNet w) of (r, net) \<Rightarrow> (r, w\<lparr>wNet := net\<rparr>))"

definition reconcilerApply ::
  "sys \<Rightarrow> policy list \<Rightarrow> pod \<Rightarrow> pod_info \<Rightarrow> (world, unit) em" where
  "reconcilerApply S policyMap pod podInfo =
     bindM getM (\<lambda>w. let r = wRec w; deps = policyDeps S r in
       onNet (case rApplyRulesForPodFunc r of
                Some f \<Rightarrow> f deps (rCommonCfg r) policyMap pod podInfo (rHostPrefix r)
              | None \<Rightarrow> applyRulesForPod (sysOS S) deps (rCommonCfg r) policyMap pod podInfo (rHostPrefix r)))"

text \<open>
  The loop over the pods of the node carries \<^verbatim>\<open>retryNeeded\<close> and \<^verbatim>\<open>retryErrs\<close>.  \<open>order\<close> is the order in which
  the policy map is iterated for a pod, which Go leaves open (that it does not matter is a property
  below).
\<close>

definition reconcilePod ::
  "sys \<Rightarrow> (pod \<Rightarrow> policy_map \<Rightarrow> policy list) \<Rightarrow> policy_map \<Rightarrow> bool \<times> go_error list \<Rightarrow> pod
   \<Rightarrow> (world, bool \<times> go_error list) em" where
  "reconcilePod S order policyMap acc pod =
     (if \<not> IsMultiNetworkpolicyTarget pod then retM acc
      else
        bindM (catchM (onRec (depsGetPodInfo S pod))) (\<lambda>got.
          case got of
            Inl e \<Rightarrow> retM (True, snd acc @ [ErrWrap ''get pod info'' e])
          | Inr podInfo \<Rightarrow>
              if piInterfaces podInfo = [] then retM acc
              else bindM (catchM (reconcilerApply S (order pod policyMap) pod podInfo)) (\<lambda>applied.
                     case applied of
                       Inl e \<Rightarrow> retM (True, snd acc @ [ErrWrap ''apply rules'' e])
                     | Inr _ \<Rightarrow> retM acc)))"

record ctrl_result =
  requeueAfter :: nat

definition Reconcile ::
  "sys \<Rightarrow> (pod \<Rightarrow> policy_map \<Rightarrow> policy list) \<Rightarrow> string \<Rightarrow> (world, ctrl_result) em" where
  "Reconcile S order reqName =
     bindM getM (\<lambda>w. let r = wRec w in
     if reqName \<noteq> rNodeName r then retM \<lparr>requeueAfter = 0\<rparr>
     else
       bindM (wrapM ''list policies'' (liftR (clListPolicies (rClient r)))) (\<lambda>policyList.
       let policyMap = buildPolicyMap policyList in
       bindM (wrapM ''list pods for node'' (liftR (clListPodsByNode (rClient r) (rNodeName r)))) (\<lambda>podList.
       bindM (foldM (reconcilePod S order policyMap) (False, []) podList) (\<lambda>(retryNeeded, retryErrs).
         if retryErrs \<noteq> [] then throwM (ErrJoin retryErrs)
         else if retryNeeded then retM \<lparr>requeueAfter = 2\<rparr>
         else retM \<lparr>requeueAfter = 0\<rparr>))))"

section \<open>Events\<close>

record object_meta =
  metaName :: string
  metaGeneration :: int
  metaAnnotations :: labels

text \<open>The objects the controller watches; the number is \<^verbatim>\<open>metadata.generation\<close>.\<close>

datatype k8s_object =
    PodObject int pod
  | PolicyObject int policy
  | NamespaceObject object_meta
  | NetDefObject object_meta
  | NodeObject object_meta

fun getName :: "k8s_object \<Rightarrow> string" where
  "getName (PodObject g p) = podName p"
| "getName (PolicyObject g p) = polName p"
| "getName (NamespaceObject m) = metaName m"
| "getName (NetDefObject m) = metaName m"
| "getName (NodeObject m) = metaName m"

fun getGeneration :: "k8s_object \<Rightarrow> int" where
  "getGeneration (PodObject g p) = g"
| "getGeneration (PolicyObject g p) = g"
| "getGeneration (NamespaceObject m) = metaGeneration m"
| "getGeneration (NetDefObject m) = metaGeneration m"
| "getGeneration (NodeObject m) = metaGeneration m"

fun getAnnotations :: "k8s_object \<Rightarrow> labels" where
  "getAnnotations (PodObject g p) = podAnnotations p"
| "getAnnotations (PolicyObject g p) = polAnnotations p"
| "getAnnotations (NamespaceObject m) = metaAnnotations m"
| "getAnnotations (NetDefObject m) = metaAnnotations m"
| "getAnnotations (NodeObject m) = metaAnnotations m"

datatype k8s_event =
    CreateEvent k8s_object
  | DeleteEvent k8s_object
  | UpdateEvent k8s_object k8s_object
  | GenericEvent k8s_object

definition labelsChanged :: "labels \<Rightarrow> labels \<Rightarrow> bool" where
  "labelsChanged oldLabels newLabels =
     (if length oldLabels \<noteq> length newLabels then True
      else list_ex (\<lambda>(key, oldVal). map_of newLabels key \<noteq> Some oldVal) oldLabels)"

definition containerStatusesChanged :: "container_status list \<Rightarrow> container_status list \<Rightarrow> bool" where
  "containerStatusesChanged oldStatuses newStatuses =
     (if length oldStatuses \<noteq> length newStatuses then True
      else
        let oldByName = foldl (\<lambda>m s. m(csName s \<mapsto> csContainerID s)) Map.empty oldStatuses in
        list_ex (\<lambda>s. oldByName (csName s) \<noteq> Some (csContainerID s)) newStatuses)"

definition networkAnnotationKeys :: "string list" where
  "networkAnnotationKeys = [''k8s.v1.cni.cncf.io/network-status'', ''k8s.v1.cni.cncf.io/networks'']"

definition networkAnnotationsChanged :: "labels \<Rightarrow> labels \<Rightarrow> bool" where
  "networkAnnotationsChanged oldAnnotations newAnnotations =
     list_ex (\<lambda>key. lookupStr oldAnnotations key \<noteq> lookupStr newAnnotations key) networkAnnotationKeys"

definition policyNetworkAnnotation :: string where
  "policyNetworkAnnotation = ''k8s.v1.cni.cncf.io/policy-for''"

definition policyNetworkAnnotationChanged :: "labels \<Rightarrow> labels \<Rightarrow> bool" where
  "policyNetworkAnnotationChanged oldAnnotations newAnnotations =
     (lookupStr oldAnnotations policyNetworkAnnotation \<noteq> lookupStr newAnnotations policyNetworkAnnotation)"

definition podUpdated :: "pod \<Rightarrow> pod \<Rightarrow> bool" where
  "podUpdated oldPod newPod =
     (if podPhase oldPod \<noteq> podPhase newPod then True
      else if podNodeName oldPod \<noteq> podNodeName newPod then True
      else if labelsChanged (podLabels oldPod) (podLabels newPod) then True
      else if containerStatusesChanged (podContainerStatuses oldPod) (podContainerStatuses newPod) then True
      else networkAnnotationsChanged (podAnnotations oldPod) (podAnnotations newPod))"

fun PodPredicate :: "k8s_event \<Rightarrow> bool" where
  "PodPredicate (CreateEvent ob) = True"
| "PodPredicate (DeleteEvent ob) = True"
| "PodPredicate (UpdateEvent (PodObject g oldPod) (PodObject g' newPod)) = podUpdated oldPod newPod"
| "PodPredicate (UpdateEvent old new) = False"
| "PodPredicate (GenericEvent ob) = False"

fun PolicyPredicate :: "k8s_event \<Rightarrow> bool" where
  "PolicyPredicate (CreateEvent ob) = True"
| "PolicyPredicate (DeleteEvent ob) = True"
| "PolicyPredicate (UpdateEvent old new) =
     (if getGeneration old \<noteq> getGeneration new then True
      else policyNetworkAnnotationChanged (getAnnotations old) (getAnnotations new))"
| "PolicyPredicate (GenericEvent ob) = False"

fun NodePredicate :: "string \<Rightarrow> k8s_event \<Rightarrow> bool" where
  "NodePredicate nodeName (CreateEvent ob) = (getName ob = nodeName)"
| "NodePredicate nodeName (DeleteEvent ob) = (getName ob = nodeName)"
| "NodePredicate nodeName (UpdateEvent old new) = (getName new = nodeName)"
| "NodePredicate nodeName (GenericEvent ob) = (getName ob = nodeName)"

text \<open>A reconcile request is the name of a node.\<close>

definition mapPodToNode :: "k8s_object \<Rightarrow> string list" where
  "mapPodToNode ob =
     (case ob of PodObject g pod \<Rightarrow> (if podNodeName pod = [] then [] else [podNodeName pod]) | _ \<Rightarrow> [])"

definition mapPolicyToNode :: "string \<Rightarrow> k8s_object \<Rightarrow> string list" where
  "mapPolicyToNode nodeName ob = (case ob of PolicyObject g p \<Rightarrow> [nodeName] | _ \<Rightarrow> [])"

definition mapNamespaceToNode :: "string \<Rightarrow> k8s_object \<Rightarrow> string list" where
  "mapNamespaceToNode nodeName ob = (case ob of NamespaceObject m \<Rightarrow> [nodeName] | _ \<Rightarrow> [])"

definition mapNetDefToNode :: "string \<Rightarrow> k8s_object \<Rightarrow> string list" where
  "mapNetDefToNode nodeName ob = (case ob of NetDefObject m \<Rightarrow> [nodeName] | _ \<Rightarrow> [])"

text \<open>The type assertion of the index function panics for another type; it is registered for pods only.\<close>

definition podHostnameExtractor :: "k8s_object \<Rightarrow> string list res" where
  "podHostnameExtractor ob =
     (case ob of
        PodObject g pod \<Rightarrow> Inr (if podNodeName pod = [] then [] else [podNodeName pod])
      | _ \<Rightarrow> Inl (ErrPanic ''interface conversion''))"

text \<open>
  \<^verbatim>\<open>SetupWithManager\<close>: which predicate and which map each watch gets.  Watches without a predicate let
  every event pass.  A node event is its own request.
\<close>

definition eventObject :: "k8s_event \<Rightarrow> k8s_object" where
  "eventObject ev = (case ev of CreateEvent ob \<Rightarrow> ob | DeleteEvent ob \<Rightarrow> ob | UpdateEvent old new \<Rightarrow> new | GenericEvent ob \<Rightarrow> ob)"

definition eventObjects :: "k8s_event \<Rightarrow> k8s_object list" where
  "eventObjects ev =
     (case ev of CreateEvent ob \<Rightarrow> [ob] | DeleteEvent ob \<Rightarrow> [ob] | UpdateEvent old new \<Rightarrow> [old, new] | GenericEvent ob \<Rightarrow> [ob])"

definition requestsFor :: "string \<Rightarrow> k8s_event \<Rightarrow> string list" where
  "requestsFor nodeName ev =
     (case eventObject ev of
        NodeObject m \<Rightarrow> (if NodePredicate nodeName ev then [metaName m] else [])
      | PodObject g p \<Rightarrow> (if PodPredicate ev then concat (map mapPodToNode (eventObjects ev)) else [])
      | PolicyObject g p \<Rightarrow> (if PolicyPredicate ev then concat (map (mapPolicyToNode nodeName) (eventObjects ev)) else [])
      | NetDefObject m \<Rightarrow> concat (map (mapNetDefToNode nodeName) (eventObjects ev))
      | NamespaceObject m \<Rightarrow> concat (map (mapNamespaceToNode nodeName) (eventObjects ev)))"

section \<open>The cached runtime client\<close>

lemma criRuntimeClient_cases:
  assumes "criRuntimeClient S r = (res, r')"
  shows "(\<exists>c. rCriClient r = Some c \<and> res = Inr c \<and> r' = r)
    \<or> rCriClient r = None \<and> (\<exists>e. res = Inl e) \<and> r' = r
    \<or> rCriClient r = None \<and> (\<exists>cl conn. GetCriRuntimeClientWithContext (sysDial S) (rContainerRuntimeEndpoint r) (rHostPrefix r)
          = Inr (cl, conn) \<and> res = Inr cl \<and> r' = r\<lparr>rCriClient := Some cl, rCriConn := Some conn\<rparr>)"
  using assms
  by (cases "rCriClient r"; cases "GetCriRuntimeClientWithContext (sysDial S) (rContainerRuntimeEndpoint r) (rHostPrefix r)")
    (auto simp: criRuntimeClient_def run_simps split: if_splits)

lemma GetPodInfo_cases:
  assumes "GetPodInfo S pod r = (res, r')"
  shows "r' = r \<or> (\<exists>c. criRuntimeClient S r = (c, r'))"
proof -
  obtain c q where "criRuntimeClient S r = (c, q)" by (cases "criRuntimeClient S r")
  with assms show ?thesis
    by (auto simp: GetPodInfo_def run_simps split: if_splits sum.splits)
qed

text \<open>Once the client is cached, looking up a pod changes nothing.\<close>

lemma GetPodInfo_warm: "rCriClient r \<noteq> None \<Longrightarrow> snd (GetPodInfo S pod r) = r"
  using GetPodInfo_cases [of S pod r "fst (GetPodInfo S pod r)" "snd (GetPodInfo S pod r)"] criRuntimeClient_cases [of S r]
  by auto

text \<open>
  The mutex makes each access to the cache atomic, so that concurrent reconciles and the shutdown are
  sequences of these steps.
\<close>

inductive criStep :: "sys \<Rightarrow> node_reconciler \<Rightarrow> node_reconciler \<Rightarrow> bool" for S where
  connect: "criRuntimeClient S r = (res, r') \<Longrightarrow> criStep S r r'"
| podInfo: "GetPodInfo S pod r = (res, r') \<Longrightarrow> criStep S r r'"
| close: "CloseCRI S r = (res, r') \<Longrightarrow> criStep S r r'"

inductive_cases criStepE: "criStep S r r'"

definition criInv :: "sys \<Rightarrow> node_reconciler \<Rightarrow> bool" where
  "criInv S r \<longleftrightarrow> rCriClient r = map_option (dialClient (sysDial S)) (rCriConn r)"

lemma GetCri_client:
  "GetCriRuntimeClientWithContext D ep hp = Inr (cl, conn) \<Longrightarrow> cl = dialClient D conn"
  by (auto simp: GetCriRuntimeClientWithContext_def Let_def bindR_Inr_iff)

lemma CloseCRI_run: "snd (CloseCRI S r) = r\<lparr>rCriConn := None, rCriClient := None\<rparr>"
  by (simp add: CloseCRI_def run_simps Let_def split: option.splits)

lemma criInv_connect: "criInv S r \<Longrightarrow> criRuntimeClient S r = (res, r') \<Longrightarrow> criInv S r'"
  using criRuntimeClient_cases [of S r res r'] GetCri_client by (fastforce simp: criInv_def)

text \<open>The client of the container runtime at an endpoint, and that a reconciler has cached no other one.\<close>

definition runtimeAt :: "sys \<Rightarrow> string \<Rightarrow> string \<Rightarrow> cri_client \<Rightarrow> bool" where
  "runtimeAt S endpoint hostPrefix cri \<longleftrightarrow>
     (\<exists>addr. dialAddress (sysDial S) (''unix://'' @ hostPrefix @ endpoint) = Inr addr
        \<and> cri = dialClient (sysDial S) (''passthrough:///'' @ addr))"

definition criOwn :: "sys \<Rightarrow> node_reconciler \<Rightarrow> bool" where
  "criOwn S r \<longleftrightarrow> (\<forall>c. rCriClient r = Some c \<longrightarrow> runtimeAt S (rContainerRuntimeEndpoint r) (rHostPrefix r) c)"

lemma criOwn_connect:
  assumes "criOwn S r" "criRuntimeClient S r = (res, r')"
  shows "criOwn S r'"
proof -
  have "runtimeAt S ep hp cl" if "GetCriRuntimeClientWithContext (sysDial S) ep hp = Inr (cl, conn)" for ep hp cl conn
    using that by (auto simp: GetCriRuntimeClientWithContext_def runtimeAt_def Let_def bindR_Inr_iff)
  then show ?thesis using criRuntimeClient_cases [OF assms(2)] assms(1) by (auto simp: criOwn_def)
qed

lemma criInv_step:
  assumes "criStep S r r'" "criInv S r"
  shows "criInv S r'"
  using assms
proof cases
  case (close res)
  then have "r' = r\<lparr>rCriConn := None, rCriClient := None\<rparr>" using CloseCRI_run [of S r] by simp
  then show ?thesis by (simp add: criInv_def)
qed (use assms(2) criInv_connect GetPodInfo_cases in blast)+

text \<open>(C28)
  The cached client and the cached connection always belong together: in every state that any
  sequence of lookups, connection attempts and closings reaches from a fresh reconciler, either both
  are absent, or the client is the one of the cached connection.
\<close>

theorem cri_cache_invariant:
  assumes "(criStep S)\<^sup>*\<^sup>* r r'" "rCriClient r = None" "rCriConn r = None"
  shows "rCriClient r' = map_option (dialClient (sysDial S)) (rCriConn r')"
proof -
  have "criInv S r" using assms(2,3) by (simp add: criInv_def)
  with assms(1) have "criInv S r'" by (induction rule: rtranclp_induct) (auto intro: criInv_step)
  then show ?thesis by (simp add: criInv_def)
qed

section \<open>The policy map\<close>

definition polKey :: "policy \<Rightarrow> ns_name" where
  "polKey p = (polNamespace p, polName p)"

lemma buildPolicyMap_snoc: "buildPolicyMap (ps @ [p]) = AList.update (polKey p) p (buildPolicyMap ps)"
  by (simp add: buildPolicyMap_def polKey_def)

lemma distinct_buildPolicyMap: "distinct (map fst (buildPolicyMap ps))"
  by (induction ps rule: rev_induct) (simp_all add: buildPolicyMap_snoc AList.distinct_update, simp add: buildPolicyMap_def)

lemma map_of_buildPolicyMap: "map_of (buildPolicyMap ps) = map_of (rev (map (\<lambda>p. (polKey p, p)) ps))"
  by (induction ps rule: rev_induct) (simp_all add: buildPolicyMap_snoc AList.update_conv', simp add: buildPolicyMap_def)

lemma buildPolicyMap_entry:
  assumes "(k, p) \<in> set (buildPolicyMap ps)"
  shows "k = polKey p \<and> p \<in> set ps"
proof -
  have "map_of (buildPolicyMap ps) k = Some p" using assms distinct_buildPolicyMap by (simp add: map_of_is_SomeI)
  then have "(k, p) \<in> set (rev (map (\<lambda>p. (polKey p, p)) ps))" unfolding map_of_buildPolicyMap by (rule map_of_SomeD)
  then show ?thesis by auto
qed

lemma ns_name_inj:
  assumes "a @ ''/'' @ b = a' @ ''/'' @ b'" "CHR ''/'' \<notin> set a" "CHR ''/'' \<notin> set a'"
  shows "a = a' \<and> b = b'"
  using assms
proof (induction a arbitrary: a')
  case Nil
  then show ?case by (cases a') auto
next
  case (Cons x a)
  then show ?case by (cases a') auto
qed

lemma buildPolicyMap_ok:
  assumes "\<forall>p \<in> set ps. CHR ''/'' \<notin> set (polNamespace p)"
  shows "distinct (map snd (buildPolicyMap ps))" "inj_on policyNamespacedName (set (map snd (buildPolicyMap ps)))"
proof -
  have key: "k = polKey p" "CHR ''/'' \<notin> set (polNamespace p)" if "(k, p) \<in> set (buildPolicyMap ps)" for k p
    using buildPolicyMap_entry [OF that] assms by auto
  have keys: "map polKey (map snd (buildPolicyMap ps)) = map fst (buildPolicyMap ps)"
    using key(1) by (auto intro!: map_cong)
  then have "distinct (map polKey (map snd (buildPolicyMap ps)))" by (simp only: distinct_buildPolicyMap)
  then show "distinct (map snd (buildPolicyMap ps))" by (auto simp: distinct_map intro: inj_on_imageI2)
  have inj: "inj_on polKey (set (map snd (buildPolicyMap ps)))"
    using \<open>distinct (map polKey (map snd (buildPolicyMap ps)))\<close> unfolding distinct_map by simp
  show "inj_on policyNamespacedName (set (map snd (buildPolicyMap ps)))"
  proof (rule inj_onI)
    fix p q
    assume pq: "p \<in> set (map snd (buildPolicyMap ps))" "q \<in> set (map snd (buildPolicyMap ps))"
      and eq: "policyNamespacedName p = policyNamespacedName q"
    have "CHR ''/'' \<notin> set (polNamespace p)" "CHR ''/'' \<notin> set (polNamespace q)" using key(2) pq by auto
    then have "polKey p = polKey q"
      using ns_name_inj [of "polNamespace p" "polName p"] eq by (auto simp: policyNamespacedName_def polKey_def)
    with inj pq show "p = q" by (blast dest: inj_onD)
  qed
qed

text \<open>
  The policy map holds, under each namespace and name, the last policy listed with it, and each name
  once.
\<close>

lemma buildPolicyMap_last:
  "map_of (buildPolicyMap ps) k = find (\<lambda>p. (polNamespace p, polName p) = k) (rev ps)
   \<and> distinct (map fst (buildPolicyMap ps))"
proof -
  have "map_of (map (\<lambda>p. (polKey p, p)) qs) k = find (\<lambda>p. (polNamespace p, polName p) = k) qs" for qs
    by (induction qs) (auto simp: polKey_def)
  from this [of "rev ps"] show ?thesis
    by (simp add: map_of_buildPolicyMap rev_map distinct_buildPolicyMap)
qed

section \<open>Reconciling\<close>

text \<open>What the lookups may change of the reconciler: the cached client and connection.\<close>

definition sameConfig :: "node_reconciler \<Rightarrow> node_reconciler \<Rightarrow> bool" where
  "sameConfig r r' \<longleftrightarrow> (\<exists>cl conn. r' = r\<lparr>rCriClient := cl, rCriConn := conn\<rparr>)"

definition keepsConfig :: "world \<Rightarrow> world \<Rightarrow> bool" where
  "keepsConfig w w' \<longleftrightarrow> sameConfig (wRec w) (wRec w')"

lemma sameConfig_refl: "sameConfig r r"
  unfolding sameConfig_def by (rule exI [of _ "rCriClient r"], rule exI [of _ "rCriConn r"]) simp

lemma sameConfig_trans: "sameConfig r s \<Longrightarrow> sameConfig s t \<Longrightarrow> sameConfig r t"
  unfolding sameConfig_def by (elim exE) (intro exI, simp)

interpretation config: frame keepsConfig
  by unfold_locales (auto simp: keepsConfig_def sameConfig_refl intro: sameConfig_trans)

lemma keeps_onRec: "(\<And>r. sameConfig r (snd (m r))) \<Longrightarrow> keeps keepsConfig (onRec m)"
  by (simp add: keeps_def keepsConfig_def onRec_def split: prod.splits) (metis snd_conv)

lemma keeps_onNet: "keeps keepsConfig (onNet m)"
  by (simp add: keeps_def keepsConfig_def onNet_def sameConfig_refl split: prod.splits)

lemma sameConfig_cri: "sameConfig r (snd (criRuntimeClient S r))"
proof (cases "criRuntimeClient S r")
  case (Pair c r')
  from criRuntimeClient_cases [OF this] Pair show ?thesis by (auto simp: sameConfig_refl) (auto simp: sameConfig_def)
qed

lemma sameConfig_GetPodInfo: "sameConfig r (snd (GetPodInfo S pod r))"
proof (cases "GetPodInfo S pod r")
  case (Pair x r')
  with GetPodInfo_cases [OF Pair] sameConfig_cri [of r S] show ?thesis by (auto simp: sameConfig_refl)
qed

lemma keeps_depsGetPodInfo: "keeps keepsConfig (onRec (depsGetPodInfo S pod))"
  by (rule keeps_onRec)
    (auto simp: depsGetPodInfo_def run_simps sameConfig_refl sameConfig_GetPodInfo split: option.splits)

lemma keeps_reconcilerApply: "keeps keepsConfig (reconcilerApply S ps pod info)"
  unfolding reconcilerApply_def Let_def by (intro frame_intros keeps_onNet)

lemma keeps_reconcilePod: "keeps keepsConfig (reconcilePod S order pm acc pod)"
  unfolding reconcilePod_def
  by (auto intro!: frame_intros keeps_depsGetPodInfo keeps_reconcilerApply split: sum.splits)

text \<open>
  The independent treatment of the pods: what happens to one pod, with the errors it adds, and the pods
  in turn with all their errors.
\<close>

definition podEffect ::
  "sys \<Rightarrow> (pod \<Rightarrow> policy_map \<Rightarrow> policy list) \<Rightarrow> policy_map \<Rightarrow> pod \<Rightarrow> world \<Rightarrow> go_error list \<times> world" where
  "podEffect S order pm pod w =
     (if \<not> IsMultiNetworkpolicyTarget pod then ([], w)
      else (case onRec (depsGetPodInfo S pod) w of
              (Inl e, w1) \<Rightarrow> ([ErrWrap ''get pod info'' e], w1)
            | (Inr info, w1) \<Rightarrow>
                if piInterfaces info = [] then ([], w1)
                else (case reconcilerApply S (order pod pm) pod info w1 of
                        (Inl e, w2) \<Rightarrow> ([ErrWrap ''apply rules'' e], w2)
                      | (Inr _, w2) \<Rightarrow> ([], w2))))"

fun podEffects :: "(pod \<Rightarrow> world \<Rightarrow> go_error list \<times> world) \<Rightarrow> pod list \<Rightarrow> world \<Rightarrow> go_error list \<times> world" where
  "podEffects f [] w = ([], w)"
| "podEffects f (p # ps) w =
     (let (es, w1) = f p w; (es', w2) = podEffects f ps w1 in (es @ es', w2))"

text \<open>No lookup and no application for a pod panics, whatever is cached.\<close>

definition panicFree :: "sys \<Rightarrow> (pod \<Rightarrow> policy_map \<Rightarrow> policy list) \<Rightarrow> policy_map \<Rightarrow> world \<Rightarrow> pod \<Rightarrow> bool" where
  "panicFree S order pm w p \<longleftrightarrow> (\<forall>v e. keepsConfig w v \<longrightarrow>
     (fst (onRec (depsGetPodInfo S p) v) = Inl e \<longrightarrow> \<not> isPanic e)
     \<and> (\<forall>info v'. onRec (depsGetPodInfo S p) v = (Inr info, v') \<longrightarrow>
          fst (reconcilerApply S (order p pm) p info v') = Inl e \<longrightarrow> \<not> isPanic e))"

lemma reconcilePod_effect:
  assumes "panicFree S order pm w0 pod" "keepsConfig w0 w"
  shows "reconcilePod S order pm acc pod w =
     (let (es, w') = podEffect S order pm pod w in (Inr (fst acc \<or> es \<noteq> [], snd acc @ es), w'))"
proof (cases "IsMultiNetworkpolicyTarget pod")
  case True
  obtain got w1 where got: "onRec (depsGetPodInfo S pod) w = (got, w1)" by (cases "onRec (depsGetPodInfo S pod) w")
  show ?thesis
  proof (cases got)
    case (Inl e)
    have "\<not> isPanic e" using assms got Inl unfolding panicFree_def by (metis fst_conv)
    then show ?thesis using True got Inl by (simp add: reconcilePod_def podEffect_def run_simps recoverR_def)
  next
    case (Inr info)
    obtain ap w2 where ap: "reconcilerApply S (order pod pm) pod info w1 = (ap, w2)" by (cases "reconcilerApply S (order pod pm) pod info w1")
    have "\<not> isPanic e" if "ap = Inl e" for e using assms got Inr ap that unfolding panicFree_def by (metis fst_conv)
    then show ?thesis
      using True got Inr ap by (cases ap) (simp_all add: reconcilePod_def podEffect_def run_simps recoverR_def)
  qed
qed (simp add: reconcilePod_def podEffect_def em_apply)

lemma podEffect_config: "keepsConfig w (snd (podEffect S order pm pod w))"
proof (cases "IsMultiNetworkpolicyTarget pod")
  case True
  obtain got w1 where got: "onRec (depsGetPodInfo S pod) w = (got, w1)" by (cases "onRec (depsGetPodInfo S pod) w")
  have w1: "keepsConfig w w1" by (rule keepsD [OF keeps_depsGetPodInfo got])
  show ?thesis
  proof (cases got)
    case (Inr info)
    obtain ap w2 where ap: "reconcilerApply S (order pod pm) pod info w1 = (ap, w2)" by (cases "reconcilerApply S (order pod pm) pod info w1")
    have "keepsConfig w w2" using w1 keepsD [OF keeps_reconcilerApply ap] by (rule config.frame_trans)
    then show ?thesis using True got Inr ap w1 by (cases ap) (simp_all add: podEffect_def)
  qed (use True got w1 in \<open>simp add: podEffect_def\<close>)
qed (simp add: podEffect_def config.frame_refl)

lemma reconcile_loop:
  assumes "\<forall>p \<in> set pods. panicFree S order pm w0 p" "keepsConfig w0 w"
  shows "foldM (reconcilePod S order pm) acc pods w =
     (let (es, w') = podEffects (podEffect S order pm) pods w in (Inr (fst acc \<or> es \<noteq> [], snd acc @ es), w'))"
  using assms
proof (induction pods arbitrary: acc w)
  case (Cons p pods)
  obtain es w1 where p: "podEffect S order pm p w = (es, w1)" by (cases "podEffect S order pm p w")
  have "keepsConfig w0 w1" using Cons.prems(2) podEffect_config [of w S order pm p] p by (auto intro: config.frame_trans)
  with Cons p show ?case
    by (simp add: bindM_apply reconcilePod_effect [of S order pm w0] Let_def split: prod.splits)
qed (simp add: em_apply)

text \<open>(C26)
  The pods of a node are independent: unless a lookup or an application panics, a reconcile of the local
  node whose lists succeed handles every pod in turn, whatever errors earlier pods had: it looks the pod
  up and applies its rules.  The errors of all pods are reported together at the end; without any the
  reconcile succeeds, and never with a delayed requeue.
\<close>

theorem Reconcile_isolates_pods:
  assumes "rNodeName (wRec w) = n" "clListPolicies (rClient (wRec w)) = Inr policies"
    and "clListPodsByNode (rClient (wRec w)) n = Inr pods"
    and "\<forall>p \<in> set pods. panicFree S order (buildPolicyMap policies) w p"
  shows "Reconcile S order n w =
     (let (es, w') = podEffects (podEffect S order (buildPolicyMap policies)) pods w in
      (if es = [] then Inr \<lparr>requeueAfter = 0\<rparr> else Inl (ErrJoin es), w'))"
  using reconcile_loop [OF assms(4) config.frame_refl, of "(False, [])"] assms(1-3)
  by (auto simp: Reconcile_def run_simps Let_def split: prod.splits)

text \<open>
  A request for another node changes nothing and succeeds; in particular what a pod event of another
  node enqueues has no effect here.
\<close>

lemma Reconcile_other_node:
  "n \<in> set (mapPodToNode (PodObject g pod)) \<and> podNodeName pod \<noteq> rNodeName (wRec w)
     \<longrightarrow> Reconcile S order n w = (Inr \<lparr>requeueAfter = 0\<rparr>, w)"
  by (auto simp: mapPodToNode_def Reconcile_def run_simps Let_def split: if_splits)

section \<open>The iteration order of the policy map\<close>

lemma foldM_cong_inv:
  assumes "\<And>a x s. x \<in> set xs \<Longrightarrow> J s \<Longrightarrow> f a x s = g a x s" "\<And>a x s. J s \<Longrightarrow> J (snd (f a x s))" "J s"
  shows "foldM f a xs s = foldM g a xs s"
  using assms(1,3)
proof (induction xs arbitrary: a s)
  case (Cons x xs)
  have fg: "f a x s = g a x s" using Cons.prems by simp
  obtain r s' where f: "f a x s = (r, s')" by (cases "f a x s")
  have "J s'" using assms(2) [OF Cons.prems(2), of a x] f by simp
  then have "foldM f b xs s' = foldM g b xs s'" for b using Cons by simp
  then show ?case using f fg [symmetric] by (simp add: bindM_apply split: sum.splits)
qed simp

definition anOrder :: "(pod \<Rightarrow> policy_map \<Rightarrow> policy list) \<Rightarrow> bool" where
  "anOrder order \<longleftrightarrow> (\<forall>pod m. mset (order pod m) = mset (map snd m))"

lemma reconcilerApply_order:
  assumes "rApplyRulesForPodFunc (wRec w) = None" "mset ps = mset ps'" "distinct ps" "inj_on policyNamespacedName (set ps)"
  shows "reconcilerApply S ps pod info w = reconcilerApply S ps' pod info w"
proof -
  have "applyRulesForPod OS D cfg ps pod info hp = applyRulesForPod OS D cfg ps' pod info hp" for OS D cfg hp
    unfolding applyRulesForPod_def apply_any_order [OF assms(2-4)] ..
  then show ?thesis using assms(1) by (simp add: reconcilerApply_def run_simps Let_def)
qed

lemma order_ok:
  assumes "anOrder order" "distinct (map snd pm)" "inj_on policyNamespacedName (set (map snd pm))"
  shows "distinct (order pod pm)" "inj_on policyNamespacedName (set (order pod pm))"
proof -
  have m: "mset (order pod pm) = mset (map snd pm)" using assms(1) by (simp add: anOrder_def)
  show "distinct (order pod pm)" using mset_eq_imp_distinct_iff [OF m] assms(2) by simp
  show "inj_on policyNamespacedName (set (order pod pm))" using mset_eq_setD [OF m] assms(3) by simp
qed

lemma reconcilePod_order:
  assumes "anOrder o1" "anOrder o2" "distinct (map snd pm)" "inj_on policyNamespacedName (set (map snd pm))"
    and "rApplyRulesForPodFunc (wRec w) = None"
  shows "reconcilePod S o1 pm acc pod w = reconcilePod S o2 pm acc pod w"
proof -
  obtain r w' where got: "onRec (depsGetPodInfo S pod) w = (r, w')" by (cases "onRec (depsGetPodInfo S pod) w")
  then have "keepsConfig w w'" using keepsD [OF keeps_depsGetPodInfo] by blast
  then have "rApplyRulesForPodFunc (wRec w') = None" using assms(5) by (auto simp: keepsConfig_def sameConfig_def)
  moreover have "mset (o1 pod pm) = mset (o2 pod pm)" using assms(1,2) by (simp add: anOrder_def)
  ultimately have "reconcilerApply S (o1 pod pm) pod info w' = reconcilerApply S (o2 pod pm) pod info w'" for info
    by (rule reconcilerApply_order) (rule order_ok [OF assms(1,3,4)])+
  then show ?thesis
    using got by (simp add: reconcilePod_def run_simps split: sum.splits)
qed

text \<open>(C13)
  A reconcile has the same result and the same effect whatever order Go iterates the policy map in,
  for each pod anew: policies are applied in the order of their names.  (Namespaces contain no slash.)
\<close>

theorem Reconcile_order_irrelevant:
  assumes "anOrder o1" "anOrder o2" "rApplyRulesForPodFunc (wRec w) = None"
    and "\<And>ps p. clListPolicies (rClient (wRec w)) = Inr ps \<Longrightarrow> p \<in> set ps \<Longrightarrow> CHR ''/'' \<notin> set (polNamespace p)"
  shows "Reconcile S o1 n w = Reconcile S o2 n w"
proof (cases "clListPolicies (rClient (wRec w))")
  case (Inl e)
  then show ?thesis by (simp add: Reconcile_def run_simps Let_def)
next
  case (Inr ps)
  let ?pm = "buildPolicyMap ps" and ?J = "\<lambda>w. rApplyRulesForPodFunc (wRec w) = None"
  have ns: "\<forall>p \<in> set ps. CHR ''/'' \<notin> set (polNamespace p)" using assms(4) Inr by blast
  have keep: "?J (snd (reconcilePod S o1 ?pm acc pod v))" if "?J v" for acc pod v
    using that keeps_reconcilePod [of S o1 ?pm acc pod] by (auto simp: keeps_def keepsConfig_def sameConfig_def dest!: spec [of _ v])
  have "foldM (reconcilePod S o1 ?pm) (False, []) pods w = foldM (reconcilePod S o2 ?pm) (False, []) pods w" for pods
    by (rule foldM_cong_inv [of _ ?J, OF reconcilePod_order [OF assms(1,2) buildPolicyMap_ok [OF ns]] keep assms(3)])
  then show ?thesis
    using Inr by (simp add: Reconcile_def run_simps Let_def bindM_apply split: sum.split)
qed

section \<open>Events that are filtered out\<close>

lemma labelsChanged_iff:
  assumes "distinct (map fst l)" "distinct (map fst l')"
  shows "labelsChanged l l' \<longleftrightarrow> map_of l \<noteq> map_of l'"
proof
  assume "map_of l \<noteq> map_of l'"
  show "labelsChanged l l'"
  proof (rule ccontr)
    assume "\<not> labelsChanged l l'"
    then have all: "map_of l' k = Some v" if "(k, v) \<in> set l" for k v
      using that by (auto simp: labelsChanged_def list_ex_iff split: if_splits)
    have sub: "fst ` set l \<subseteq> fst ` set l'"
    proof
      fix k assume "k \<in> fst ` set l"
      then obtain v where "(k, v) \<in> set l" by auto
      from map_of_SomeD [OF all [OF this]] show "k \<in> fst ` set l'" by force
    qed
    have "length l = length l'" using \<open>\<not> labelsChanged l l'\<close> by (auto simp: labelsChanged_def split: if_splits)
    then have "card (fst ` set l) = card (fst ` set l')"
      using assms by (metis distinct_card length_map set_map)
    with sub have dom: "fst ` set l = fst ` set l'" by (intro card_subset_eq) auto
    have "map_of l k = map_of l' k" for k
    proof (cases "map_of l k")
      case None
      then have "k \<notin> fst ` set l'" using dom by (simp add: map_of_eq_None_iff)
      then show ?thesis using None by (simp add: map_of_eq_None_iff [symmetric])
    next
      case (Some v)
      then show ?thesis using all map_of_SomeD by fastforce
    qed
    then show False using \<open>map_of l \<noteq> map_of l'\<close> by blast
  qed
next
  assume ch: "labelsChanged l l'"
  show "map_of l \<noteq> map_of l'"
  proof
    assume eq: "map_of l = map_of l'"
    then have "fst ` set l = fst ` set l'" by (simp add: dom_map_of_conv_image_fst [symmetric])
    then have "length l = length l'"
      using assms by (metis distinct_card length_map set_map)
    moreover have "map_of l' k = Some v" if "(k, v) \<in> set l" for k v
      using that assms(1) eq by (metis map_of_is_SomeI)
    ultimately show False using ch by (auto simp: labelsChanged_def list_ex_iff)
  qed
qed

lemma selMatches_map_of: "map_of l = map_of l' \<Longrightarrow> selMatches s l = selMatches s l'"
  by (cases s) (simp_all add: selMatches_def reqMatches_def)

text \<open>What a pod update may not change: the names, and whether the pod uses the host's network.\<close>

definition samePod :: "pod \<Rightarrow> pod \<Rightarrow> bool" where
  "samePod old new \<longleftrightarrow> podName old = podName new \<and> podNamespace old = podNamespace new
     \<and> podHostNetwork old = podHostNetwork new"

lemma podNetworks_cong:
  assumes "podNamespace old = podNamespace new" "\<not> networkAnnotationsChanged (podAnnotations old) (podAnnotations new)"
    and "jcStatuses J [] = ([], Some e)"
  shows "podNetworks J old = podNetworks J new"
proof -
  have ann: "lookupStr (podAnnotations old) NetworkStatusAnnot = lookupStr (podAnnotations new) NetworkStatusAnnot"
    "lookupStr (podAnnotations old) NetworkAttachmentAnnot = lookupStr (podAnnotations new) NetworkAttachmentAnnot"
    using assms(2) by (simp_all add: networkAnnotationsChanged_def networkAnnotationKeys_def NetworkStatusAnnot_def
        NetworkAttachmentAnnot_def)
  have parse: "ParsePodNetworkAnnotation J old = ParsePodNetworkAnnotation J new"
    unfolding ParsePodNetworkAnnotation_def ann assms(1) ..
  have needs: "podNeedsNetworkStatus J old = podNeedsNetworkStatus J new"
    unfolding podNeedsNetworkStatus_def fun_eq_iff ann by simp
  have status: "fst (GetNetworkStatus J old) = fst (GetNetworkStatus J new)
      \<and> (snd (GetNetworkStatus J old) = None \<longleftrightarrow> snd (GetNetworkStatus J new) = None)"
    using ann(1) assms(3)
    by (cases "map_of (podAnnotations old) NetworkStatusAnnot"; cases "map_of (podAnnotations new) NetworkStatusAnnot")
      (auto simp: GetNetworkStatus_def lookupStr_def)
  have "fst (networkStatusForPod J old nets) = fst (networkStatusForPod J new nets)
      \<and> (snd (networkStatusForPod J old nets) = None \<longleftrightarrow> snd (networkStatusForPod J new nets) = None)" for nets
    using status by (simp add: networkStatusForPod_def needs)
  moreover have "networkSelectionsFromStatus old = networkSelectionsFromStatus new"
    unfolding networkSelectionsFromStatus_def selectionOf_def fun_eq_iff assms(1) by simp
  ultimately show ?thesis
    unfolding podNetworks_def parse by (simp add: case_prod_unfold Let_def cong: if_cong)
qed

lemma key_cong:
  assumes "podNamespace old = podNamespace new"
  shows "selectionKey old = selectionKey new" "statusKey old = statusKey new"
  unfolding selectionKey_def statusKey_def fun_eq_iff assms by simp_all

lemma resolvePlugins_cong:
  assumes "podNamespace old = podNamespace new"
  shows "resolvePlugins R old ns m = resolvePlugins R new ns m"
  by (induction ns arbitrary: m) (simp_all add: key_cong [OF assms] Let_def)

lemma statusInterfaces_cong:
  assumes "podNamespace old = podNamespace new"
  shows "statusInterfaces ps m old = statusInterfaces ps m new"
  unfolding statusInterfaces_def key_cong(2) [OF assms] fun_eq_iff by simp

text \<open>
  The containers of a pod share one network namespace: the runtime reports the same one for each of them
  that has an ID.
\<close>

definition sharedNetns :: "json_codec \<Rightarrow> cri_client \<Rightarrow> pod \<Rightarrow> bool" where
  "sharedNetns J cri pod \<longleftrightarrow> (\<forall>s \<in> set (podContainerStatuses pod). \<forall>t \<in> set (podContainerStatuses pod).
     csContainerID s \<noteq> [] \<longrightarrow> csContainerID t \<noteq> [] \<longrightarrow> containerNetns J cri (csContainerID s) = containerNetns J cri (csContainerID t))"

lemma foldl_map_of: "foldl (\<lambda>m s. m(f s \<mapsto> g s)) m xs k = Some v \<Longrightarrow> m k = Some v \<or> (\<exists>x \<in> set xs. f x = k \<and> g x = v)"
proof (induction xs arbitrary: m)
  case (Cons x xs)
  from Cons.IH [of "m(f x \<mapsto> g x)"] Cons.prems show ?case by (auto split: if_splits)
qed simp

lemma containerStatuses_same:
  assumes "\<not> containerStatusesChanged old new" "distinct (map csName new)"
  shows "csContainerID ` set new = csContainerID ` set old" "length new = length old"
proof -
  have len: "length new = length old" using assms(1) by (auto simp: containerStatusesChanged_def split: if_splits)
  have hit: "\<exists>t \<in> set old. csName t = csName s \<and> csContainerID t = csContainerID s" if "s \<in> set new" for s
    using assms(1) len that foldl_map_of [of csName csContainerID Map.empty old "csName s" "csContainerID s"]
    by (auto simp: containerStatusesChanged_def Let_def list_ex_iff)
  let ?f = "\<lambda>s. (csName s, csContainerID s)"
  have sub: "?f ` set new \<subseteq> ?f ` set old"
  proof
    fix y assume "y \<in> ?f ` set new"
    then obtain s where s: "s \<in> set new" "y = ?f s" by blast
    from hit [OF s(1)] obtain t where "t \<in> set old" "?f t = y" using s(2) by auto
    then show "y \<in> ?f ` set old" by blast
  qed
  have "card (?f ` set new) = length new"
    using distinct_card [of "map ?f new"] assms(2) by (simp add: distinct_map inj_on_def)
  moreover have "card (?f ` set old) \<le> length old" using card_image_le [of "set old" ?f] card_length [of old] by simp
  ultimately have "?f ` set new = ?f ` set old" using card_seteq [OF _ sub] len by simp
  then have "snd ` ?f ` set new = snd ` ?f ` set old" by simp
  then show "csContainerID ` set new = csContainerID ` set old" by (simp add: image_image)
  show "length new = length old" by (rule len)
qed

lemma GetPodNetNS_cong:
  assumes "podPhase old = podPhase new" "sharedNetns J cri old"
    and "\<not> containerStatusesChanged (podContainerStatuses old) (podContainerStatuses new)" "distinct (map csName (podContainerStatuses new))"
  shows "GetPodNetNSPathWithContext J (Some cri) old = GetPodNetNSPathWithContext J (Some cri) new"
proof -
  note ids = containerStatuses_same [OF assms(3,4)]
  let ?o = "selectContainerID (podContainerStatuses old)" and ?n = "selectContainerID (podContainerStatuses new)"
  have sel: "selectContainerID sts = [] \<longleftrightarrow> csContainerID ` set sts \<subseteq> {[]}"
    "selectContainerID sts \<noteq> [] \<Longrightarrow> selectContainerID sts \<in> csContainerID ` set sts" for sts
    using selectContainerID_prefers_running [of sts] by blast+
  have none: "?o = [] \<longleftrightarrow> ?n = []" unfolding sel ids(1) ..
  have "containerNetns J cri ?o = containerNetns J cri ?n" if "?o \<noteq> []" "?n \<noteq> []"
  proof -
    have "?o \<in> csContainerID ` set (podContainerStatuses old)" "?n \<in> csContainerID ` set (podContainerStatuses old)"
      using sel(2) [of "podContainerStatuses old"] sel(2) [of "podContainerStatuses new"] that ids(1) by auto
    then obtain s t where st: "s \<in> set (podContainerStatuses old)" "?o = csContainerID s" "t \<in> set (podContainerStatuses old)" "?n = csContainerID t" by blast
    have "csContainerID s \<noteq> [] \<longrightarrow> csContainerID t \<noteq> [] \<longrightarrow> containerNetns J cri (csContainerID s) = containerNetns J cri (csContainerID t)"
      using assms(2) st(1,3) unfolding sharedNetns_def by blast
    then show ?thesis using that unfolding st(2,4) by blast
  qed
  note eq = this
  have empty: "podContainerStatuses old = [] \<longleftrightarrow> podContainerStatuses new = []" using ids(2) by (metis length_0_conv)
  show ?thesis
  proof (cases "?o = []")
    case True
    with none have "?n = []" by blast
    with True show ?thesis unfolding GetPodNetNS_container assms(1) empty by simp
  next
    case False
    with none have n: "?n \<noteq> []" by blast
    show ?thesis unfolding GetPodNetNS_container assms(1) empty eq [OF False n] using False n by (simp only: if_False)
  qed
qed


text \<open>
  Which pod events reach the reconciler of this node: creations and deletions of its pods, and updates
  that change something relevant and have the node as the old or the new one.
\<close>

lemma pod_requests:
  assumes "nodeName \<noteq> []"
  shows "(nodeName \<in> set (requestsFor nodeName (CreateEvent (PodObject g pod))) \<longleftrightarrow> podNodeName pod = nodeName)
    \<and> (nodeName \<in> set (requestsFor nodeName (DeleteEvent (PodObject g pod))) \<longleftrightarrow> podNodeName pod = nodeName)
    \<and> (nodeName \<in> set (requestsFor nodeName (UpdateEvent (PodObject g old) (PodObject g' new)))
      \<longleftrightarrow> podUpdated old new \<and> (podNodeName old = nodeName \<or> podNodeName new = nodeName))"
  using assms by (auto simp: requestsFor_def eventObject_def eventObjects_def mapPodToNode_def)

section \<open>Examples\<close>

text \<open>A node with one pod whose network attachment does not exist, and two policies.\<close>

definition exPolicy :: "string \<Rightarrow> policy" where
  "exPolicy name = \<lparr>polName = name, polNamespace = ''ns1'', polAnnotations = [(PolicyNetworkAnnotation, ''net-a'')],
     polPodSelector = \<lparr>matchLabels = [], matchExpressions = []\<rparr>, polIngress = Some [], polEgress = None,
     polPolicyTypes = []\<rparr>"

definition exClient :: k8s_client where
  "exClient = \<lparr>clListPolicies = Inr [exPolicy ''a'', exPolicy ''b''], clListPodsByNode = (\<lambda>n. Inr [exPod]),
     clListPodsByLabels = (\<lambda>s. Inr [exPod]), clGetNamespace = (\<lambda>n. Inr []), clGetNetDef = (\<lambda>k. Inl ErrNotExist)\<rparr>"

definition exRec :: node_reconciler where
  "exRec = \<lparr>rNodeName = ''node1'', rClient = exClient, rPolicyDeps = None, rHostPrefix = ''/host'',
     rNetworkPlugins = [''macvlan''],
     rCommonCfg = \<lparr>acceptICMPv6 = False, acceptICMP = False, allowSrcPrefix = [], allowDstPrefix = []\<rparr>,
     rCriClient = None, rCriConn = None, rContainerRuntimeEndpoint = ''/run/cri.sock'', rApplyRulesForPodFunc = None\<rparr>"

definition exSys :: sys where
  "exSys = \<lparr>sysOS = exOS, sysJSON = exCodec,
     sysCNI = \<lparr>cniFromFile = (\<lambda>n d. Inl ErrNotExist), cniRaw = (\<lambda>t. Inl ErrNotExist), cniMarshal = (\<lambda>m. Inl ErrNotExist),
       cniConfList = (\<lambda>t. Inl ErrNotExist), cniConf = (\<lambda>t. Inr t)\<rparr>,
     sysDial = exDial [Connecting, Ready], sysMapOrder = (\<lambda>i ks. ks)\<rparr>"

definition exWorld :: world where
  "exWorld = \<lparr>wRec = exRec, wNet = (\<lambda>_. emptyRuleset)\<rparr>"

theorem cri_cache_invariant_witness:
  "\<exists>r. (criStep exSys)\<^sup>*\<^sup>* exRec r \<and> rCriConn r \<noteq> None
     \<and> rCriClient r = map_option (dialClient (sysDial exSys)) (rCriConn r)"
proof -
  let ?r = "snd (criRuntimeClient exSys exRec)"
  have "criRuntimeClient exSys exRec = (fst (criRuntimeClient exSys exRec), ?r)" by simp
  then have reach: "(criStep exSys)\<^sup>*\<^sup>* exRec ?r" by (intro r_into_rtranclp criStep.connect)
  have "rCriConn ?r \<noteq> None"
    by (simp add: criRuntimeClient_def run_simps exRec_def exSys_def exDial_def GetCriRuntimeClientWithContext_def
        Let_def waitReady_iff waitReady.simps)
  with reach cri_cache_invariant [OF reach] show ?thesis by (intro exI [of _ ?r]) (simp add: exRec_def)
qed

text \<open>A node with two pods: the lookup fails for the first one, and the rules of the second are recorded.\<close>

definition exTwin :: pod where
  "exTwin = exPod\<lparr>podName := ''web2''\<rparr>"

definition exApplied :: ruleset where
  "exApplied = emptyRuleset\<lparr>ksTables := [\<lparr>tName = ''applied'', tFamily = TableFamilyINet\<rparr>]\<rparr>"

definition exPairWorld :: world where
  "exPairWorld = exWorld\<lparr>wRec := exRec\<lparr>rClient := exClient\<lparr>clListPodsByNode := (\<lambda>n. Inr [exPod, exTwin])\<rparr>,
     rPolicyDeps := Some \<lparr>depListPods = (\<lambda>_. Inr []), depGetNamespaceInfo = (\<lambda>_. Inr []),
       depGetPodInfo = (\<lambda>p. if podName p = ''web'' then Inl ErrNotExist
         else Inr (podInfoOf p [] ''/proc/7/ns/net''
           [\<lparr>netattachName = ''ns1/net-a'', interfaceName = ''net1'', interfaceType = ''macvlan'', ifIPs = []\<rparr>])),
       depMapOrder = (\<lambda>_ ks. ks)\<rparr>,
     rApplyRulesForPodFunc := Some (\<lambda>deps cfg ps pod info hp net. (Inr (), net(podName pod := exApplied)))\<rparr>\<rparr>"

lemma exPair_lookup:
  assumes "keepsConfig exPairWorld w"
  shows "podEffect exSys order pm exPod w = ([ErrWrap ''get pod info'' ErrNotExist], w)"
    and "podEffect exSys order pm exTwin w = ([], w\<lparr>wNet := (wNet w)(''web2'' := exApplied)\<rparr>)"
    and "panicFree exSys order pm exPairWorld exPod" "panicFree exSys order pm exPairWorld exTwin"
proof -
  have r: "\<exists>cl conn. wRec v = (wRec exPairWorld)\<lparr>rCriClient := cl, rCriConn := conn\<rparr>" if "keepsConfig exPairWorld v" for v
    using that by (auto simp: keepsConfig_def sameConfig_def)
  have t: "IsMultiNetworkpolicyTarget exTwin" by (simp add: exTwin_def exPod_def IsMultiNetworkpolicyTarget_def)
  have n: "podName exPod = ''web''" "podName exTwin = ''web2''" by (simp_all add: exTwin_def exPod_def)
  have l: "onRec (depsGetPodInfo exSys exPod) v = (Inl ErrNotExist, v)"
    "\<exists>info. onRec (depsGetPodInfo exSys exTwin) v = (Inr info, v) \<and> piInterfaces info \<noteq> []"
    "\<And>ps info. reconcilerApply exSys ps exTwin info v = (Inr (), v\<lparr>wNet := (wNet v)(''web2'' := exApplied)\<rparr>)"
    if "keepsConfig exPairWorld v" for v
    using r [OF that] by (auto simp: onRec_def depsGetPodInfo_def exPairWorld_def run_simps n podInfoOf_def sortByInterfaceName_def
        reconcilerApply_def onNet_def Let_def)
  show "podEffect exSys order pm exPod w = ([ErrWrap ''get pod info'' ErrNotExist], w)"
    using l(1) [OF assms] exPod_target by (simp add: podEffect_def)
  show "podEffect exSys order pm exTwin w = ([], w\<lparr>wNet := (wNet w)(''web2'' := exApplied)\<rparr>)"
    using l(2,3) [OF assms] t by (auto simp: podEffect_def)
  show "panicFree exSys order pm exPairWorld exPod" "panicFree exSys order pm exPairWorld exTwin"
    unfolding panicFree_def using l by fastforce+
qed

theorem Reconcile_isolates_pods_witness:
  "Reconcile exSys (\<lambda>_ m. map snd m) ''node1'' exPairWorld =
     (Inl (ErrJoin [ErrWrap ''get pod info'' ErrNotExist]), exPairWorld\<lparr>wNet := (wNet exPairWorld)(''web2'' := exApplied)\<rparr>)"
proof -
  note start = exPair_lookup [OF config.frame_refl]
  have "Reconcile exSys (\<lambda>_ m. map snd m) ''node1'' exPairWorld =
     (let (es, w') = podEffects (podEffect exSys (\<lambda>_ m. map snd m) (buildPolicyMap [exPolicy ''a'', exPolicy ''b''])) [exPod, exTwin] exPairWorld in
      (if es = [] then Inr \<lparr>requeueAfter = 0\<rparr> else Inl (ErrJoin es), w'))"
    by (rule Reconcile_isolates_pods) (simp_all add: start(3,4), simp_all add: exPairWorld_def exWorld_def exRec_def exClient_def)
  then show ?thesis by (simp add: start(1,2))
qed

lemma Reconcile_other_node_witness:
  "Reconcile exSys (\<lambda>_ m. map snd m) ''node2'' exWorld = (Inr \<lparr>requeueAfter = 0\<rparr>, exWorld)"
  using Reconcile_other_node [of "''node2''" 1 "exPod\<lparr>podNodeName := ''node2''\<rparr>" exWorld exSys]
  by (simp add: mapPodToNode_def exWorld_def exRec_def)

theorem Reconcile_order_irrelevant_witness:
  "Reconcile exSys (\<lambda>_ m. map snd m) ''node1'' exWorld = Reconcile exSys (\<lambda>_ m. rev (map snd m)) ''node1'' exWorld"
proof (rule Reconcile_order_irrelevant)
  show "rApplyRulesForPodFunc (wRec exWorld) = None" by (simp add: exWorld_def exRec_def)
  show "CHR ''/'' \<notin> set (polNamespace p)" if "clListPolicies (rClient (wRec exWorld)) = Inr ps" "p \<in> set ps" for ps p
    using that by (auto simp: exWorld_def exRec_def exClient_def exPolicy_def)
qed (simp_all add: anOrder_def)


lemma pod_requests_example:
  "''node1'' \<in> set (requestsFor ''node1'' (CreateEvent (PodObject 1 exPod)))"
  using pod_requests [of "''node1''" 1 exPod] by (simp add: exPod_def)

end
