(* ===== verification/Shutdown.thy ===== *)
theory Shutdown
  imports Reconciler
begin

text \<open>
  \<^verbatim>\<open>pkg/controller/cleanup_linux.go\<close> (and the stub \<^verbatim>\<open>cleanup_other.go\<close>) and \<^verbatim>\<open>startManagerAndCleanup\<close> of
  \<^verbatim>\<open>main.go\<close>: when the daemon stops, the rules of all pods of the node are removed.

  \<open>ctxErr i\<close> is what \<^verbatim>\<open>ctx.Err()\<close> returns at the start of iteration \<open>i\<close>.
\<close>

definition cleanupNetns :: "sys \<Rightarrow> cri_client \<Rightarrow> pod \<Rightarrow> string res res" where
  "cleanupNetns S cri pod =
     recoverR (case GetPodNetNSPathWithContext (sysJSON S) (Some cri) pod of
                 Inl e \<Rightarrow> Inl (ErrWrap ''resolve netns'' e)
               | Inr path \<Rightarrow> (if path = [] then Inl (ErrWrap ''resolve netns'' (ErrText ''empty netns path'')) else Inr path))"

fun cleanupPods ::
  "sys \<Rightarrow> (nat \<Rightarrow> go_error option) \<Rightarrow> nat \<Rightarrow> pod list \<Rightarrow> cri_client option \<Rightarrow> go_error list \<Rightarrow> (world, unit) em" where
  "cleanupPods S ctxErr i [] criClient cleanupErrs = liftR (joinErrs cleanupErrs)"
| "cleanupPods S ctxErr i (pod # pods) criClient cleanupErrs =
     (case ctxErr i of
        Some e \<Rightarrow> throwM (ErrWrap ''cleanup canceled'' e)
      | None \<Rightarrow>
          if \<not> IsMultiNetworkpolicyTarget pod then cleanupPods S ctxErr (Suc i) pods criClient cleanupErrs
          else
            bindM (case criClient of
                     Some c \<Rightarrow> retM c
                   | None \<Rightarrow> wrapM ''cleanup: connect to CRI'' (onRec (criRuntimeClient S))) (\<lambda>cri.
            bindM (liftR (cleanupNetns S cri pod)) (\<lambda>netns.
              case netns of
                Inl e \<Rightarrow> cleanupPods S ctxErr (Suc i) pods (Some cri) (cleanupErrs @ [e])
              | Inr netnsPath \<Rightarrow>
                  bindM getM (\<lambda>w.
                  bindM (catchM (onNet (flushRulesForPod (sysOS S) netnsPath (rHostPrefix (wRec w))))) (\<lambda>flushed.
                    cleanupPods S ctxErr (Suc i) pods (Some cri) (cleanupErrs @ errOf ''flush rules'' flushed))))))"

definition cleanupAllPods :: "sys \<Rightarrow> (nat \<Rightarrow> go_error option) \<Rightarrow> k8s_client \<Rightarrow> (world, unit) em" where
  "cleanupAllPods S ctxErr directClient =
     bindM getM (\<lambda>w.
     bindM (liftR (clListPodsByNode directClient (rNodeName (wRec w)))) (\<lambda>podList.
       cleanupPods S ctxErr 0 podList None []))"

definition CleanupOnShutdown :: "sys \<Rightarrow> (nat \<Rightarrow> go_error option) \<Rightarrow> k8s_client \<Rightarrow> (world, unit) em" where
  "CleanupOnShutdown S ctxErr cl = cleanupAllPods S ctxErr cl"

definition cleanupAllPods_other :: "(world, unit) em" where
  "cleanupAllPods_other = throwM (ErrText ''nftables cleanup is unsupported'')"

text \<open>
  \<open>start\<close> is \<^verbatim>\<open>mgr.Start(ctx)\<close>, \<open>canceled\<close> whether the context has an error once it has returned.
\<close>

definition startManagerAndCleanup :: "('w, unit) em \<Rightarrow> bool \<Rightarrow> ('w, unit) em \<Rightarrow> ('w, unit) em" where
  "startManagerAndCleanup start canceled cleanupFn =
     bindM (catchM start) (\<lambda>started.
       case started of
         Inl startErr \<Rightarrow>
           (if \<not> canceled then throwM startErr
            else bindM (catchM cleanupFn) (\<lambda>cleaned. liftR (joinErrs (startErr # errsOf cleaned))))
       | Inr _ \<Rightarrow> bindM (catchM cleanupFn) (\<lambda>cleaned. liftR (joinErrs (errsOf cleaned))))"

section \<open>Flushing keeps the rulesets well-formed\<close>

definition wfNet :: "ruleset \<Rightarrow> bool" where
  "wfNet rs \<longleftrightarrow> wfRules rs \<and> rulesInTables rs"

lemma wfRules_legacyInv:
  assumes "legacyInv K c" "wfRules K"
  shows "wfRules (kernel c)"
proof -
  have sub: "set (ksRules (kernel c)) \<subseteq> set (ksRules K)" "set (ksSets (kernel c)) \<subseteq> set (ksSets K)"
    using legacyInv_rules [OF assms(1)] by auto
  have "list_ex (isChain (rTable r) (rChain r)) (ksChains (kernel c))" if r: "r \<in> set (ksRules (kernel c))" for r
  proof -
    obtain ch where ch: "ch \<in> set (ksChains K)" "isChain (rTable r) (rChain r) ch"
      using assms(2) sub(1) r unfolding wfRules_def list_ex_iff by blast
    have "ch \<in> set (ksChains (kernel c))"
    proof (rule ccontr)
      assume "ch \<notin> set (ksChains (kernel c))"
      then have "lonely (kernel c) ch" using assms(1) ch(1) unfolding legacyInv_def by blast
      then show False using r ch(2) by (auto simp: lonely_def isChain_def sameTable_def)
    qed
    then show ?thesis using ch(2) by (auto simp: list_ex_iff)
  qed
  then show ?thesis using assms(2) sub unfolding wfRules_def by (meson subsetD)
qed

lemma wfNet_legacyInv: "legacyInv K c \<Longrightarrow> wfNet K \<Longrightarrow> wfNet (kernel c)"
  unfolding wfNet_def
proof (intro conjI, elim conjE)
  assume inv: "legacyInv K c"
  then show "wfRules K \<Longrightarrow> wfRules (kernel c)" by (rule wfRules_legacyInv)
  obtain ms where "list_all (allowedDel K) ms" "kernel c = applyMsgs K ms" using inv unfolding legacyInv_def by blast
  from applyMsgs_del_subset [OF this(1), of K] this(2)
  show "wfRules K \<and> rulesInTables K \<Longrightarrow> rulesInTables (kernel c)" by (auto simp: rulesInTables_def)
qed

lemma wfNet_DelTable:
  assumes "wfNet rs"
  shows "wfNet (applyMsg rs (MsgDelTable t))"
proof -
  have other: "\<not> sameTable (rTable r) t \<Longrightarrow> sameTable x (rTable r) \<or> sameTable (rTable r) x \<Longrightarrow> \<not> sameTable x t" for r x
    by (auto simp: sameTable_def)
  have "list_ex (isChain (rTable r) (rChain r)) (filter (\<lambda>c. \<not> sameTable (cTable c) t) (ksChains rs))"
    if r: "r \<in> set (ksRules rs)" "\<not> sameTable (rTable r) t" for r
  proof -
    obtain ch where "ch \<in> set (ksChains rs)" "isChain (rTable r) (rChain r) ch"
      using assms r(1) unfolding wfNet_def wfRules_def list_ex_iff by blast
    with other [OF r(2), of "cTable ch"] show ?thesis by (auto simp: list_ex_iff isChain_def)
  qed
  moreover have "\<exists>x \<in> set (filter (\<lambda>x. \<not> sameTable x t) (ksTables rs)). sameTable (rTable r) x"
    if r: "r \<in> set (ksRules rs)" "\<not> sameTable (rTable r) t" for r
  proof -
    obtain x where "x \<in> set (ksTables rs)" "sameTable (rTable r) x"
      using assms r(1) unfolding wfNet_def rulesInTables_def by blast
    with other [OF r(2), of x] show ?thesis by auto
  qed
  ultimately show ?thesis
    using assms unfolding wfNet_def wfRules_def rulesInTables_def by auto
qed

lemma wfNet_DelTables: "wfNet rs \<Longrightarrow> wfNet (applyMsgs rs (map MsgDelTable ds))"
  by (induction ds arbitrary: rs) (simp_all only: list.map applyMsgs_simps wfNet_DelTable)

lemma wfNet_flushTables:
  assumes "kernelOK E" "wfNet (kernel c)" "messages c = []" "flushTables E c = (r, c')"
  shows "wfNet (kernel c')"
proof -
  have "wfRules (kernel c)" using assms(2) by (simp add: wfNet_def)
  from assms(1) this assms(3,4) show ?thesis
  proof (rule flushTables_stages)
    fix r1 r2 ds and c1 :: conn
    let ?c2 = "c1\<lparr>messages := messages c1 @ map MsgDelTable ds\<rparr>"
    assume inv: "legacyInv (kernel c) c1"
      and fin: "(r = Inr () \<longrightarrow> \<not> is_err r1 \<and> \<not> is_err r2)
       \<and> (c' = ?c2 \<and> (r = Inr () \<longrightarrow> ds = [])
          \<or> ds \<noteq> [] \<and> (\<exists>r3. connFlush E ?c2 = (r3, c') \<and> (r = Inr () \<longrightarrow> r3 = Inr ())))"
    have "wfNet (kernel c1)" by (rule wfNet_legacyInv [OF inv assms(2)])
    moreover have "wfNet (applyMsgs (kernel c1) (messages c1 @ map MsgDelTable ds))"
      using wfNet_legacyInv [OF legacyInv_commit [OF inv] assms(2)] by (simp add: applyMsgs_append wfNet_DelTables)
    ultimately show ?thesis
      using fin assms(1)
      by (auto simp: connFlush_def Let_def kernelOK_def split: if_splits option.splits sum.splits)
  qed
qed

lemma noManaged_msg: "flushMsg K m \<Longrightarrow> noManaged rs \<Longrightarrow> noManaged (applyMsg rs m)"
  unfolding noManaged_def
proof (cases "allowedDel K m")
  case True
  then show "(\<forall>t \<in> set (ksTables rs). \<not> managedTable t) \<and> (\<forall>r \<in> set (ksRules rs). \<not> managedTable (rTable r)) \<Longrightarrow>
    (\<forall>t \<in> set (ksTables (applyMsg rs m)). \<not> managedTable t) \<and> (\<forall>r \<in> set (ksRules (applyMsg rs m)). \<not> managedTable (rTable r))"
    using applyMsg_del_subset [OF True, of rs] by auto
qed (auto simp: flushMsg_def)

lemma noManaged_msgs: "list_all (flushMsg K) ms \<Longrightarrow> noManaged rs \<Longrightarrow> noManaged (applyMsgs rs ms)"
  by (induction ms arbitrary: rs) (auto intro: noManaged_msg)

text \<open>The contract of a flush towards the loop over the pods.\<close>

definition goodKernels :: "os_env \<Rightarrow> bool" where
  "goodKernels OS \<longleftrightarrow> (\<forall>p. kernelOK (osNft OS p) \<and> honestFaults (osNft OS p))"

lemma flushRulesForPod_contract:
  assumes "goodKernels OS" "\<forall>p. wfNet (w p)" "flushRulesForPod OS path hp w = (r, w')"
  shows "\<forall>p. wfNet (w' p)" "\<forall>p. noManaged (w p) \<longrightarrow> noManaged (w' p)" "r = Inr () \<Longrightarrow> noManaged (w' (netnsFile hp path))"
proof -
  let ?f = "netnsFile hp path"
  have E: "kernelOK (osNft OS ?f)" "honestFaults (osNft OS ?f)" "wfRules (w ?f)" "rulesInTables (w ?f)" "wfNet (w ?f)"
    using assms(1,2) by (auto simp: goodKernels_def wfNet_def)
  have "(\<forall>p. wfNet (w' p)) \<and> (\<forall>p. noManaged (w p) \<longrightarrow> noManaged (w' p)) \<and> (r = Inr () \<longrightarrow> noManaged (w' ?f))"
    using flushRulesForPod_cases [OF assms(3)]
  proof
    assume "\<exists>c. flushTables (osNft OS ?f) (newConn (w ?f)) = (r, c) \<and> w' = w(?f := kernel c)"
    then obtain c where run: "flushTables (osNft OS ?f) (newConn (w ?f)) = (r, c)" and w': "w' = w(?f := kernel c)" by blast
    have "wfNet (kernel c)" using wfNet_flushTables [OF E(1) _ _ run] E(5) by simp
    moreover have "noManaged (kernel c)" if "r = Inr ()"
      using flushTables_clean [OF E(1) _ _ run [unfolded that] E(2)] E(3,4) by simp
    moreover have "noManaged (kernel c)" if "noManaged (w ?f)"
      using flushTables_inv [OF E(1) _ _ run] E(3) that noManaged_msgs unfolding flushInv_def by auto
    ultimately show ?thesis using assms(2) w' by simp
  qed (use assms(2) in auto)
  then show "\<forall>p. wfNet (w' p)" "\<forall>p. noManaged (w p) \<longrightarrow> noManaged (w' p)" "r = Inr () \<Longrightarrow> noManaged (w' ?f)" by auto
qed

section \<open>The loop over the pods\<close>

definition criFor :: "sys \<Rightarrow> cri_client option \<Rightarrow> (world, cri_client) em" where
  "criFor S criClient =
     (case criClient of Some c \<Rightarrow> retM c | None \<Rightarrow> wrapM ''cleanup: connect to CRI'' (onRec (criRuntimeClient S)))"

lemma criFor_Inr:
  assumes "criFor S cri w = (Inr c, w')" "cri \<noteq> None \<longrightarrow> rCriClient (wRec w) = cri"
  shows "wNet w' = wNet w" "rCriClient (wRec w') = Some c" "sameConfig (wRec w) (wRec w')"
    "rCriClient (wRec w) \<noteq> None \<longrightarrow> rCriClient (wRec w') = rCriClient (wRec w)"
    "criOwn S (wRec w) \<longrightarrow> criOwn S (wRec w')"
proof -
  have "wNet w' = wNet w \<and> rCriClient (wRec w') = Some c \<and> sameConfig (wRec w) (wRec w')
      \<and> (rCriClient (wRec w) \<noteq> None \<longrightarrow> rCriClient (wRec w') = rCriClient (wRec w))
      \<and> (criOwn S (wRec w) \<longrightarrow> criOwn S (wRec w'))"
  proof (cases cri)
    case None
    obtain x r' where x: "criRuntimeClient S (wRec w) = (x, r')" by (cases "criRuntimeClient S (wRec w)")
    then have "x = Inr c" "w' = w\<lparr>wRec := r'\<rparr>"
      using assms(1) None by (auto simp: criFor_def onRec_def run_simps)
    with criRuntimeClient_cases [OF x] sameConfig_cri [of "wRec w" S] x criOwn_connect [OF _ x] show ?thesis by auto
  qed (use assms in \<open>auto simp: criFor_def sameConfig_refl\<close>)
  then show "wNet w' = wNet w" "rCriClient (wRec w') = Some c" "sameConfig (wRec w) (wRec w')"
    "rCriClient (wRec w) \<noteq> None \<longrightarrow> rCriClient (wRec w') = rCriClient (wRec w)"
    "criOwn S (wRec w) \<longrightarrow> criOwn S (wRec w')" by auto
qed

lemma cleanupPods_step:
  assumes "cleanupPods S ctxErr i (pod # pods) cri errs w = (Inr (), w')" "IsMultiNetworkpolicyTarget pod"
  obtains (failed) c w1 e where "criFor S cri w = (Inr c, w1)"
      "cleanupPods S ctxErr (Suc i) pods (Some c) (errs @ [e]) w1 = (Inr (), w')"
  | (flushed) c w1 path fl net where "criFor S cri w = (Inr c, w1)"
      "GetPodNetNSPathWithContext (sysJSON S) (Some c) pod = Inr path"
      "flushRulesForPod (sysOS S) path (rHostPrefix (wRec w1)) (wNet w1) = (fl, net)"
      "cleanupPods S ctxErr (Suc i) pods (Some c) (errs @ errOf ''flush rules'' fl) (w1\<lparr>wNet := net\<rparr>) = (Inr (), w')"
proof -
  have go: "bindM (criFor S cri) (\<lambda>cri.
            bindM (liftR (cleanupNetns S cri pod)) (\<lambda>netns.
              case netns of
                Inl e \<Rightarrow> cleanupPods S ctxErr (Suc i) pods (Some cri) (errs @ [e])
              | Inr netnsPath \<Rightarrow>
                  bindM getM (\<lambda>w.
                  bindM (catchM (onNet (flushRulesForPod (sysOS S) netnsPath (rHostPrefix (wRec w))))) (\<lambda>flushed.
                    cleanupPods S ctxErr (Suc i) pods (Some cri) (errs @ errOf ''flush rules'' flushed))))) w = (Inr (), w')"
    using assms by (simp add: criFor_def split: option.splits)
  then obtain c w1 where c: "criFor S cri w = (Inr c, w1)" by (rule bindM_InrE)
  show thesis
  proof (cases "cleanupNetns S c pod")
    case (Inl e)
    then show ?thesis using go c by (simp add: run_simps)
  next
    case (Inr netns)
    show ?thesis
    proof (cases netns)
      case (Inl e)
      then show ?thesis using go c Inr failed [OF c, of e] by (simp add: run_simps)
    next
      case (Inr path)
      obtain fl net where fl: "flushRulesForPod (sysOS S) path (rHostPrefix (wRec w1)) (wNet w1) = (fl, net)"
        by (cases "flushRulesForPod (sysOS S) path (rHostPrefix (wRec w1)) (wNet w1)")
      have path: "GetPodNetNSPathWithContext (sysJSON S) (Some c) pod = Inr path"
        using \<open>cleanupNetns S c pod = Inr netns\<close> Inr
        by (auto simp: cleanupNetns_def recoverR_def split: sum.splits if_splits)
      have "cleanupPods S ctxErr (Suc i) pods (Some c) (errs @ errOf ''flush rules'' fl) (w1\<lparr>wNet := net\<rparr>) = (Inr (), w')"
        using go c \<open>cleanupNetns S c pod = Inr netns\<close> Inr fl
        by (cases fl) (auto simp: run_simps onNet_def recoverR_def split: if_splits)
      then show ?thesis by (rule flushed [OF c path fl])
    qed
  qed
qed

definition podClean :: "sys \<Rightarrow> string \<Rightarrow> world \<Rightarrow> pod \<Rightarrow> bool" where
  "podClean S hp w pod \<longleftrightarrow> (\<exists>c path. rCriClient (wRec w) = Some c
     \<and> GetPodNetNSPathWithContext (sysJSON S) (Some c) pod = Inr path \<and> noManaged (wNet w (netnsFile hp path)))"

lemma cleanupPods_clean:
  assumes "goodKernels (sysOS S)" "\<forall>p. wfNet (wNet w p)" "cri \<noteq> None \<longrightarrow> rCriClient (wRec w) = cri"
    and "cleanupPods S ctxErr i pods cri errs w = (Inr (), w')"
  shows "errs = [] \<and> (\<forall>p. noManaged (wNet w p) \<longrightarrow> noManaged (wNet w' p)) \<and> sameConfig (wRec w) (wRec w')
     \<and> (rCriClient (wRec w) \<noteq> None \<longrightarrow> rCriClient (wRec w') = rCriClient (wRec w))
     \<and> (criOwn S (wRec w) \<longrightarrow> criOwn S (wRec w'))
     \<and> (\<forall>pod \<in> set pods. IsMultiNetworkpolicyTarget pod \<longrightarrow> podClean S (rHostPrefix (wRec w)) w' pod)"
  using assms(2-4)
proof (induction pods arbitrary: i cri errs w)
  case Nil
  then show ?case by (auto simp: joinErrs_def sameConfig_refl split: if_splits)
next
  case (Cons pod pods)
  show ?case
  proof (cases "IsMultiNetworkpolicyTarget pod")
    case False
    then have "cleanupPods S ctxErr (Suc i) pods cri errs w = (Inr (), w')"
      using Cons.prems(3) by (simp split: option.splits)
    from Cons.IH [OF Cons.prems(1,2) this] False show ?thesis by simp
  next
    case True
    from Cons.prems(3) True show ?thesis
    proof (cases rule: cleanupPods_step)
      case (failed c w1 e)
      note cri = criFor_Inr [OF failed(1) Cons.prems(2)]
      have "\<forall>p. wfNet (wNet w1 p)" "Some c \<noteq> None \<longrightarrow> rCriClient (wRec w1) = Some c" using cri Cons.prems(1) by simp_all
      from Cons.IH [OF this failed(2)] show ?thesis by simp
    next
      case (flushed c w1 path fl net)
      note cri = criFor_Inr [OF flushed(1) Cons.prems(2)]
      have "\<forall>p. wfNet (wNet w1 p)" using cri(1) Cons.prems(1) by simp
      note fl = flushRulesForPod_contract [OF assms(1) this flushed(3)]
      have "\<forall>p. wfNet (wNet (w1\<lparr>wNet := net\<rparr>) p)" "Some c \<noteq> None \<longrightarrow> rCriClient (wRec (w1\<lparr>wNet := net\<rparr>)) = Some c"
        using fl(1) cri(2) by simp_all
      note IH = Cons.IH [OF this flushed(4)]
      have hp: "rHostPrefix (wRec w1) = rHostPrefix (wRec w)" using cri(3) by (auto simp: sameConfig_def)
      have "fl = Inr ()" using IH by (cases fl) (auto simp: errOf_def)
      then have "podClean S (rHostPrefix (wRec w)) w' pod"
        unfolding podClean_def using IH fl(3) flushed(2) cri(2) hp
        by (intro exI [of _ c] exI [of _ path]) simp
      then show ?thesis using IH cri fl(2) hp sameConfig_trans by auto
    qed
  qed
qed

text \<open>A shutdown that reports success leaves no enforcement rules behind.\<close>

lemma shutdown_clean:
  assumes "goodKernels (sysOS S)" "\<forall>p. wfNet (wNet (snd (start w)) p)"
    and "startManagerAndCleanup start canceled (CleanupOnShutdown S ctxErr cl) w = (Inr (), w')"
  shows "(criOwn S (wRec (snd (start w))) \<longrightarrow> criOwn S (wRec w')) \<and> (\<exists>pods. clListPodsByNode cl (rNodeName (wRec w')) = Inr pods
     \<and> (\<forall>pod \<in> set pods. IsMultiNetworkpolicyTarget pod \<longrightarrow> podClean S (rHostPrefix (wRec w')) w' pod))"
proof -
  obtain r w1 where st: "start w = (r, w1)" by (cases "start w")
  have "CleanupOnShutdown S ctxErr cl w1 = (Inr (), w')"
    using assms(3) st
    by (cases r; cases "CleanupOnShutdown S ctxErr cl w1"; cases "fst (CleanupOnShutdown S ctxErr cl w1)")
      (auto simp: startManagerAndCleanup_def run_simps recoverR_def errsOf_def split: if_splits)
  then obtain pods where pods: "clListPodsByNode cl (rNodeName (wRec w1)) = Inr pods"
    and run: "cleanupPods S ctxErr 0 pods None [] w1 = (Inr (), w')"
    by (cases "clListPodsByNode cl (rNodeName (wRec w1))") (auto simp: CleanupOnShutdown_def cleanupAllPods_def run_simps)
  have "\<forall>p. wfNet (wNet w1 p)" using assms(2) st by simp
  from cleanupPods_clean [OF assms(1) this _ run] have "sameConfig (wRec w1) (wRec w')"
    and "criOwn S (wRec w1) \<longrightarrow> criOwn S (wRec w')" and "\<forall>pod \<in> set pods. IsMultiNetworkpolicyTarget pod \<longrightarrow> podClean S (rHostPrefix (wRec w1)) w' pod" by simp_all
  moreover from this(1) have "rNodeName (wRec w') = rNodeName (wRec w1)" "rHostPrefix (wRec w') = rHostPrefix (wRec w1)"
    by (auto simp: sameConfig_def)
  ultimately show ?thesis using pods st by simp
qed

lemma shutdown_config:
  assumes "keeps keepsConfig start" "startManagerAndCleanup start canceled (CleanupOnShutdown S ctxErr cl) w = (r, w')"
  shows "sameConfig (wRec w) (wRec w')"
proof -
  have "keeps keepsConfig (cleanupPods S ctxErr i pods cri errs)" for i pods cri errs
  proof (induction pods arbitrary: i cri errs)
    case (Cons pod pods)
    show ?case
      by (auto intro!: frame_intros Cons.IH keeps_onNet keeps_onRec sameConfig_cri split: option.splits sum.splits)
  qed (auto intro!: frame_intros)
  then have "keeps keepsConfig (startManagerAndCleanup start canceled (CleanupOnShutdown S ctxErr cl))"
    unfolding startManagerAndCleanup_def CleanupOnShutdown_def cleanupAllPods_def
    by (auto intro!: frame_intros assms(1) split: sum.splits)
  from keepsD [OF this assms(2)] show ?thesis by (simp add: keepsConfig_def)
qed

text \<open>
  Enforcement survives a crash of the manager: when it stops with an error although nobody asked it
  to, the cleanup does not run, the network namespaces stay as they are and the error is reported.
\<close>

lemma crash_keeps_rules:
  assumes "start w = (Inl e, w1)" "\<not> canceled"
  shows "startManagerAndCleanup start canceled cleanupFn w = (Inl e, w1)"
  using assms by (auto simp: startManagerAndCleanup_def run_simps recoverR_def)

lemma crash_keeps_rules_witness:
  "startManagerAndCleanup (throwM ErrNotExist) False (CleanupOnShutdown exSys (\<lambda>_. None) exClient) exWorld
     = (Inl ErrNotExist, exWorld)"
  by (rule crash_keeps_rules) (simp_all add: em_apply)

lemma exShutdown_run:
  assumes "rCriClient (wRec w) = None" "rContainerRuntimeEndpoint (wRec w) \<noteq> []" "wNet w = (\<lambda>_. exRules)"
  shows "\<exists>w'. startManagerAndCleanup (retM ()) False (CleanupOnShutdown exSys (\<lambda>_. None) exClient) w = (Inr (), w')"
proof -
  obtain c r where cri: "criRuntimeClient exSys (wRec w) = (Inr c, r)" and c: "c cid = Inr [(''info'', cid)]" for cid
    using assms(1,2)
    by (simp add: criRuntimeClient_def run_simps exSys_def exDial_def GetCriRuntimeClientWithContext_def Let_def waitReady.simps)
  have "\<exists>p. p \<noteq> [] \<and> GetPodNetNSPathWithContext exCodec (Some c) exPod = Inr p"
    by (simp add: GetPodNetNSPathWithContext_def exPod_def selectContainerID_def c infoPid_def exCodec_def Let_def
        hasPrefix_def)
  then obtain p where p: "p \<noteq> []" "GetPodNetNSPathWithContext exCodec (Some c) exPod = Inr p" by blast
  have one: "onRec (criRuntimeClient exSys) w = (Inr c, w\<lparr>wRec := r\<rparr>)" by (simp add: onRec_def cri)
  have two: "cleanupNetns exSys c exPod = Inr (Inr p)" using p by (simp add: cleanupNetns_def exSys_def)
  have three: "flushRulesForPod (sysOS exSys) p hp (wNet w)
      = (Inr (), (\<lambda>_. exRules)(netnsFile hp p := emptyRuleset\<lparr>ksTables := [exForeign]\<rparr>))" for hp
    by (simp add: exSys_def assms(3) exFlush_run)
  have "\<exists>w'. cleanupPods exSys (\<lambda>_. None) 0 [exPod] None [] w = (Inr (), w')"
    by (simp add: exPod_target bindM_apply wrapM_apply one em_apply two catchM_apply onNet_def three errOf_def)
  moreover have "clListPodsByNode exClient n = Inr [exPod]" for n by (simp add: exClient_def)
  ultimately have "\<exists>w'. CleanupOnShutdown exSys (\<lambda>_. None) exClient w = (Inr (), w')"
    by (simp add: CleanupOnShutdown_def cleanupAllPods_def run_simps)
  then show ?thesis
    by (auto simp: startManagerAndCleanup_def run_simps errsOf_def)
qed

end
