(* ===== verification/Isolation.thy ===== *)
theory Isolation
  imports Shutdown
begin

text \<open>
  Applying the policies of a pod touches only the daemon's own tables.  Every operation of the
  generator and of the cleanup is shown to queue messages for the two managed tables only, by the
  rules for specifications of results; the messages of the legacy cleanup come first.
\<close>

section \<open>Messages for the managed tables\<close>

fun msgTable :: "nl_msg \<Rightarrow> table" where
  "msgTable (MsgNewTable t) = t"
| "msgTable (MsgDelTable t) = t"
| "msgTable (MsgNewChain c) = cTable c"
| "msgTable (MsgDelChain c) = cTable c"
| "msgTable (MsgNewRule op r) = rTable r"
| "msgTable (MsgDelRule r) = rTable r"
| "msgTable (MsgNewSet s) = sTable s"
| "msgTable (MsgNewSetElem s es) = sTable s"
| "msgTable (MsgDelSetElem s es) = sTable s"
| "msgTable (MsgDelSet s) = sTable s"

definition managedMsg :: "nl_msg \<Rightarrow> bool" where
  "managedMsg m = managedTable (msgTable m)"

lemma filter_unmanaged:
  assumes "\<And>x. x \<in> set xs \<Longrightarrow> \<not> P x \<Longrightarrow> managedTable (g x)"
  shows "filter (\<lambda>x. \<not> managedTable (g x)) (filter Q (filter P xs)) = filter (\<lambda>x. \<not> managedTable (g x)) (filter Q xs)"
  using assms by (induction xs) auto

lemma filter_map_managed:
  assumes "\<And>x. x \<in> set xs \<Longrightarrow> h x \<noteq> x \<Longrightarrow> managedTable (g x) \<and> managedTable (g (h x))"
  shows "filter (\<lambda>x. \<not> managedTable (g x)) (filter Q (map h xs)) = filter (\<lambda>x. \<not> managedTable (g x)) (filter Q xs)"
  using assms
proof (induction xs)
  case (Cons x xs)
  then have IH: "filter (\<lambda>x. \<not> managedTable (g x)) (filter Q (map h xs)) = filter (\<lambda>x. \<not> managedTable (g x)) (filter Q xs)"
    by simp
  show ?case
  proof (cases "h x = x")
    case False
    then have "managedTable (g x)" "managedTable (g (h x))" using Cons.prems [of x] by auto
    with IH show ?thesis by simp
  qed (use IH in simp)
qed simp

lemma sameTable_sym: "sameTable a b = sameTable b a"
  by (auto simp: sameTable_def)

lemma managed_same: "managedTable a \<Longrightarrow> sameTable a b \<or> sameTable b a \<Longrightarrow> managedTable b"
  by (auto simp: managedTable_def sameTable_def)

lemma updElems_foreign:
  assumes "managedTable (sTable s)"
  shows "filter (\<lambda>s. \<not> managedTable (sTable (fst s))) (filter Q (updElems s f ss))
     = filter (\<lambda>s. \<not> managedTable (sTable (fst s))) (filter Q ss)"
  unfolding updElems_def
  by (rule filter_map_managed) (use assms managed_same in \<open>auto simp: isSet_def split: if_splits\<close>)

lemma foreignParts_managed:
  assumes "managedMsg m"
  shows "foreignParts (applyMsg rs m) = foreignParts rs"
proof (cases m)
  case (MsgDelTable t)
  then show ?thesis
    using foreignParts_msg [of "emptyRuleset" m rs] assms
    by (simp add: foreignParts_def managedMsg_def filter_managed filter_managed(1) [where g = "\<lambda>x. x"] del: filter_filter)
next
  case (MsgDelChain c)
  have "filter (\<lambda>c. \<not> managedTable (cTable c)) (filter Q (filter (\<lambda>x. \<not> isChain (cTable c) (cName c) x) xs))
      = filter (\<lambda>c. \<not> managedTable (cTable c)) (filter Q xs)" for Q xs
    by (rule filter_unmanaged) (use assms managed_same MsgDelChain in \<open>auto simp: isChain_def managedMsg_def\<close>)
  then show ?thesis by (simp add: foreignParts_def MsgDelChain del: filter_filter)
next
  case (MsgNewRule op r)
  have "filter (\<lambda>x. \<not> managedTable (rTable x)) (filter Q (map (\<lambda>x. if inChain (rTable r) (rChain r) x \<and> rHandle x = rHandle r
        then wireRule (rHandle r) r else x) xs)) = filter (\<lambda>x. \<not> managedTable (rTable x)) (filter Q xs)" for Q xs
    by (rule filter_map_managed)
      (use assms managed_same MsgNewRule in \<open>auto simp: inChain_def managedMsg_def wireRule_def split: if_splits\<close>)
  then show ?thesis
    using assms by (cases op) (auto simp: foreignParts_def MsgNewRule managedMsg_def wireRule_def)
next
  case (MsgDelRule r)
  have "filter (\<lambda>x. \<not> managedTable (rTable x)) (filter Q (filter (\<lambda>x. \<not> (inChain (rTable r) (rChain r) x \<and> rHandle x = rHandle r)) xs))
      = filter (\<lambda>x. \<not> managedTable (rTable x)) (filter Q xs)" for Q xs
    by (rule filter_unmanaged) (use assms managed_same MsgDelRule in \<open>auto simp: inChain_def managedMsg_def\<close>)
  then show ?thesis by (simp add: foreignParts_def MsgDelRule del: filter_filter)
next
  case (MsgDelSet s)
  have "filter (\<lambda>x. \<not> managedTable (sTable (fst x))) (filter Q (filter (\<lambda>x. \<not> isSet (sTable s) (sName s) x) xs))
      = filter (\<lambda>x. \<not> managedTable (sTable (fst x))) (filter Q xs)" for Q xs
    by (rule filter_unmanaged) (use assms managed_same MsgDelSet in \<open>auto simp: isSet_def managedMsg_def\<close>)
  then show ?thesis by (simp add: foreignParts_def MsgDelSet del: filter_filter)
qed (use assms in \<open>auto simp: foreignParts_def managedMsg_def updElems_foreign simp del: filter_filter\<close>)

section \<open>The invariant\<close>

text \<open>
  \<open>W\<close> is a property of rulesets that the kernel keeps with every transaction it accepts, such as that
  rules are in chains that exist.
\<close>

definition kernelKeeps :: "(ruleset \<Rightarrow> bool) \<Rightarrow> nft_env \<Rightarrow> bool" where
  "kernelKeeps W E \<longleftrightarrow> (\<forall>rs ms rs'. W rs \<longrightarrow> envCommit E rs ms = Inr rs' \<longrightarrow> W rs')"

definition applyInv :: "(ruleset \<Rightarrow> bool) \<Rightarrow> ruleset \<Rightarrow> conn \<Rightarrow> bool" where
  "applyInv W K c \<longleftrightarrow> W (kernel c) \<and> (\<exists>ms1 ms2 q1 q2.
     list_all (allowedDel K) ms1 \<and> list_all managedMsg ms2 \<and> kernel c = applyMsgs K (ms1 @ ms2)
   \<and> list_all (allowedDel K) q1 \<and> list_all managedMsg q2 \<and> messages c = q1 @ q2 \<and> (q1 = [] \<or> ms2 = []))"

lemma foreignParts_managed_msgs: "list_all managedMsg ms \<Longrightarrow> foreignParts (applyMsgs rs ms) = foreignParts rs"
  by (induction ms arbitrary: rs) (simp_all add: foreignParts_managed)

lemma applyInv_foreign:
  assumes "applyInv W K c" "wfRules K"
  shows "foreignParts (kernel c) = foreignParts K"
proof -
  obtain ms1 ms2 where ms: "list_all (allowedDel K) ms1" "list_all managedMsg ms2" "kernel c = applyMsgs K (ms1 @ ms2)"
    using assms(1) unfolding applyInv_def by blast
  have "list_all (flushMsg K) ms1" using ms(1) by (auto simp: list_all_iff flushMsg_def)
  from foreignParts_msgs [OF this assms(2)] ms show ?thesis
    by (simp add: applyMsgs_append foreignParts_managed_msgs)
qed

lemma applyInv_legacy: "legacyInv K c \<Longrightarrow> W (kernel c) \<Longrightarrow> applyInv W K c"
  unfolding legacyInv_def applyInv_def by (metis append_Nil2 list.pred_inject(1))

lemma applyInv_queue: "applyInv W K c \<Longrightarrow> managedMsg m \<Longrightarrow> applyInv W K (c\<lparr>messages := messages c @ [m]\<rparr>)"
  unfolding applyInv_def
proof (elim exE conjE, intro conjI)
  fix ms1 ms2 q1 q2
  assume "managedMsg m" "list_all (allowedDel K) ms1" "list_all managedMsg ms2" "kernel c = applyMsgs K (ms1 @ ms2)"
    "list_all (allowedDel K) q1" "list_all managedMsg q2" "messages c = q1 @ q2" "q1 = [] \<or> ms2 = []"
  then show "\<exists>ms1 ms2 q1 q2. list_all (allowedDel K) ms1 \<and> list_all managedMsg ms2
      \<and> kernel (c\<lparr>messages := messages c @ [m]\<rparr>) = applyMsgs K (ms1 @ ms2)
      \<and> list_all (allowedDel K) q1 \<and> list_all managedMsg q2
      \<and> messages (c\<lparr>messages := messages c @ [m]\<rparr>) = q1 @ q2 \<and> (q1 = [] \<or> ms2 = [])"
    by (intro exI [of _ ms1] exI [of _ ms2] exI [of _ q1] exI [of _ "q2 @ [m]"]) simp
qed simp

lemma applyInv_cong: "applyInv W K c \<Longrightarrow> kernel c' = kernel c \<Longrightarrow> messages c' = messages c \<Longrightarrow> applyInv W K c'"
  by (simp add: applyInv_def)

lemma applyInv_drop: "applyInv W K c \<Longrightarrow> kernel c' = kernel c \<Longrightarrow> messages c' = [] \<Longrightarrow> applyInv W K c'"
  unfolding applyInv_def by (metis append_Nil list.pred_inject(1))

lemma applyInv_commit:
  assumes "applyInv W K c" "kernel c' = applyMsgs (kernel c) (messages c)" "messages c' = []" "W (kernel c')"
  shows "applyInv W K c'"
proof -
  obtain ms1 ms2 q1 q2 where ms: "list_all (allowedDel K) ms1" "list_all managedMsg ms2" "kernel c = applyMsgs K (ms1 @ ms2)"
    "list_all (allowedDel K) q1" "list_all managedMsg q2" "messages c = q1 @ q2" "q1 = [] \<or> ms2 = []"
    using assms(1) unfolding applyInv_def by blast
  then have "list_all (allowedDel K) (ms1 @ q1)" "list_all managedMsg (ms2 @ q2)"
    "kernel c' = applyMsgs K ((ms1 @ q1) @ (ms2 @ q2))" using assms(2) by (auto simp: applyMsgs_append)
  then show ?thesis
    unfolding applyInv_def using assms(3,4) by (metis append_Nil list.pred_inject(1))
qed

section \<open>The connection\<close>

lemma spec_queue: "managedMsg m \<Longrightarrow> spec (applyInv W K) (queueMsg m) anyV"
  by (rule specI) (simp add: queueMsg_apply applyInv_queue)

lemma spec_read: "spec (applyInv W K) (readM E q f) (\<lambda>x. \<exists>rs. f rs = Inr x)"
  by (rule specI) (auto simp: readM_apply split: option.splits)

lemma spec_quiet:
  assumes "\<And>c. kernel (snd (m c)) = kernel c \<and> messages (snd (m c)) = messages c"
  shows "spec (applyInv W K) m anyV"
  by (rule specI) (use assms applyInv_cong in blast)

lemma spec_setErr: "spec (applyInv W K) (setErr e) anyV"
  by (rule spec_quiet) (simp add: setErr_def em_apply)

lemma spec_allocate: "spec (applyInv W K) allocateTransactionID anyV"
  by (rule spec_quiet) (simp add: allocateTransactionID_def Let_def)

lemma spec_flush:
  assumes "kernelOK E" "kernelKeeps W E"
  shows "spec (applyInv W K) (connFlush E) anyV"
proof (rule specI)
  fix c assume c: "applyInv W K c"
  then have "W (kernel c)" by (simp add: applyInv_def)
  then have commit: "k = applyMsgs (kernel c) (messages c) \<and> W k" if "envCommit E (kernel c) (messages c) = Inr k" for k
    using assms that unfolding kernelOK_def kernelKeeps_def by blast
  show "applyInv W K (snd (connFlush E c)) \<and> (\<forall>x. fst (connFlush E c) = Inr x \<longrightarrow> anyV x)"
    using c by (auto simp: connFlush_def Let_def split: option.splits sum.splits
        intro: applyInv_commit applyInv_drop dest!: commit)
qed

lemmas spec_conn_prims = spec_queue spec_setErr spec_allocate

lemma spec_conn_writes:
  "managedTable t \<Longrightarrow> spec (applyInv W K) (connAddTable t) (\<lambda>t. managedTable t)"
  "managedTable (cTable ch) \<Longrightarrow> spec (applyInv W K) (connAddChain ch) (\<lambda>ch. managedTable (cTable ch))"
  "managedTable (cTable ch) \<Longrightarrow> spec (applyInv W K) (connDelChain ch) anyV"
  "managedTable (rTable r) \<Longrightarrow> spec (applyInv W K) (connDelRule r) anyV"
  "managedTable (rTable r) \<Longrightarrow> spec (applyInv W K) (connNewRule r op) anyV"
  "managedTable (sTable s) \<Longrightarrow> spec (applyInv W K) (connSetAddElements s els) anyV"
  "managedTable (sTable s) \<Longrightarrow> spec (applyInv W K) (connSetDeleteElements s els) anyV"
  "managedTable (sTable s) \<Longrightarrow> spec (applyInv W K) (connDelSet s) anyV"
  unfolding connAddTable_def connAddChain_def connDelChain_def connDelRule_def connNewRule_def connSetAddElements_def
    connSetDeleteElements_def connDelSet_def appendElemList_def Let_def
  by (rule spec_intros spec_conn_prims spec_ret | simp add: managedMsg_def)+

lemma spec_connAddSet: "managedTable (sTable s) \<Longrightarrow> spec (applyInv W K) (connAddSet s els) anyV"
proof -
  assume s: "managedTable (sTable s)"
  have ids: "spec (applyInv W K) (if sID s = 0 then bindM allocateTransactionID (\<lambda>i.
                 retM (if sAnonymous s then s\<lparr>sID := i, sName := ''__set%d''\<rparr> else s\<lparr>sID := i\<rparr>))
               else retM s) (\<lambda>s'. managedTable (sTable s'))"
    by (rule spec_intros spec_allocate spec_ret | simp add: s)+
  show ?thesis
    unfolding connAddSet_def appendElemList_def Let_def
    by (rule ids spec_intros spec_conn_prims | simp add: managedMsg_def)+
qed

text \<open>What is read of a managed table belongs to it.\<close>

lemma find_SomeD: "find P xs = Some x \<Longrightarrow> P x"
  by (auto simp: find_Some_iff)

lemma spec_conn_reads:
  "managedTable t \<Longrightarrow> spec (applyInv W K) (GetRules E t ch) (\<lambda>rs. \<forall>r \<in> set rs. managedTable (rTable r))"
  "managedTable t \<Longrightarrow> spec (applyInv W K) (GetSets E t) (\<lambda>ss. \<forall>s \<in> set ss. managedTable (sTable s))"
  "managedTable t \<Longrightarrow> spec (applyInv W K) (GetSetByName E t n) (\<lambda>s. managedTable (sTable s))"
  "managedTable t \<Longrightarrow> spec (applyInv W K) (ListChain E t n) (\<lambda>ch. managedTable (cTable ch))"
  "managedTable t \<Longrightarrow> spec (applyInv W K) (ListTableOfFamily E (tName t) (tFamily t)) managedTable"
  "spec (applyInv W K) (ListChainsOfTableFamily E fam) (\<lambda>cs. \<forall>ch \<in> set cs. tFamily (cTable ch) = fam)"
  "spec (applyInv W K) (GetSetElements E s) anyV"
  unfolding GetRules_def GetSets_def GetSetByName_def ListChain_def ListTableOfFamily_def ListChainsOfTableFamily_def GetSetElements_def
  by (rule specI; auto simp: readM_apply inChain_def isSet_def isChain_def managedTable_def sameTable_def
      dest!: find_SomeD split: option.splits)+

section \<open>The state of a run\<close>

definition goodT :: "nftState \<Rightarrow> bool" where
  "goodT n \<longleftrightarrow> managedTable (nFilter n) \<and> managedTable (nNat n)
     \<and> managedTable (cTable (nIngressChain n)) \<and> managedTable (cTable (nEgressChain n))"

definition goodN :: "(ruleset \<Rightarrow> bool) \<Rightarrow> ruleset \<Rightarrow> nftState \<Rightarrow> bool" where
  "goodN W K n \<longleftrightarrow> applyInv W K (nft n) \<and> goodT n"

lemma goodN_managed:
  "goodN W K n \<Longrightarrow> managedTable (nFilter n)" "goodN W K n \<Longrightarrow> managedTable (nNat n)"
  "goodN W K n \<Longrightarrow> managedTable (cTable (nIngressChain n))" "goodN W K n \<Longrightarrow> managedTable (cTable (nEgressChain n))"
  by (simp_all add: goodN_def goodT_def)

lemma spec_onConn: "spec (applyInv W K) m Q \<Longrightarrow> spec (goodN W K) (onConn m) Q"
proof (rule specI)
  fix n assume m: "spec (applyInv W K) m Q" and n: "goodN W K n"
  obtain r c where run: "m (nft n) = (r, c)" by (cases "m (nft n)")
  from specD [OF m _ this] n show "goodN W K (snd (onConn m n)) \<and> (\<forall>x. fst (onConn m n) = Inr x \<longrightarrow> Q x)"
    by (simp add: onConn_apply run goodN_def goodT_def)
qed

lemma spec_modifyN:
  "(\<And>n. nft (f n) = nft n \<and> (goodT n \<longrightarrow> goodT (f n))) \<Longrightarrow> spec (goodN W K) (modifyM f) anyV"
  by (rule spec_modify) (simp add: goodN_def)

lemma spec_records:
  "spec (goodN W K) (recordRule E r) anyV" "spec (goodN W K) (recordSet key s) anyV"
  "managedTable (cTable ch) \<Longrightarrow> spec (goodN W K) (recordChain ch) (\<lambda>ch. managedTable (cTable ch))"
  unfolding recordRule_def recordSet_def recordChain_def
  by (rule spec_intros spec_ret spec_modifyN | simp add: goodT_def)+

lemma spec_findRule:
  assumes "managedTable (rTable r)"
  shows "spec (goodN W K) (findRule E r) (\<lambda>x. \<forall>r0. x = Some r0 \<longrightarrow> managedTable (rTable r0))"
proof -
  have last: "managedTable (rTable (last (filter (ruleEqual r) rules)))"
    if "\<forall>x \<in> set rules. managedTable (rTable x)" "filter (ruleEqual r) rules \<noteq> []" for rules
    using that last_in_set [OF that(2)] by auto
  show ?thesis
    unfolding findRule_def Let_def
    by (rule spec_bind [OF spec_wrap [OF spec_onConn [OF spec_conn_reads(1) [OF assms]]]] spec_ret | simp add: last)+
qed

lemma spec_updateRule:
  assumes "managedTable (rTable r)" "\<And>r. managedTable (rTable r) \<Longrightarrow> spec (applyInv W K) (action r) anyV"
  shows "spec (goodN W K) (updateRule E r action force) anyV"
  unfolding updateRule_def
  by (rule spec_intros spec_records spec_onConn spec_conn_writes assms spec_findRule | simp add: assms(1))+

lemma spec_actions:
  "managedTable (rTable r) \<Longrightarrow> spec (applyInv W K) (connAddRule r) anyV"
  "managedTable (rTable r) \<Longrightarrow> spec (applyInv W K) (connInsertRule r) anyV"
  unfolding connAddRule_def connInsertRule_def by (rule spec_intros spec_conn_writes | assumption)+

lemma spec_syncSet: "managedTable (sTable s) \<Longrightarrow> spec (goodN W K) (syncSet E s els) anyV"
  unfolding syncSet_def Let_def
  by (rule spec_intros spec_onConn spec_conn_writes spec_conn_reads | simp)+

lemma spec_updateSet:
  assumes "managedTable (sTable s)"
  shows "spec (goodN W K) (updateSet E s els) anyV"
  unfolding updateSet_def Let_def
  by (rule spec_intros spec_records spec_onConn spec_connAddSet spec_syncSet spec_conn_reads | simp add: assms)+

lemma spec_addChain:
  assumes "managedTable (cTable ch)"
  shows "spec (goodN W K) (addChain E ch) (\<lambda>ch. managedTable (cTable ch))"
proof -
  let ?ch = "ch\<lparr>cName := shortName (cName ch)\<rparr>"
  have new: "spec (goodN W K) (bindM (onConn (connAddChain ?ch)) recordChain) (\<lambda>ch. managedTable (cTable ch))"
    by (rule spec_bind [OF spec_onConn [OF spec_conn_writes(2)]] spec_records(3) | simp add: assms)+
  have "spec (goodN W K) (tryM (onConn (ListChain E (cTable ?ch) (cName ?ch)))) (\<lambda>r. \<forall>x. r = Inr x \<longrightarrow> managedTable (cTable x))"
    by (rule spec_try spec_onConn spec_conn_reads(4) | simp add: assms)+
  then show ?thesis
    unfolding addChain_def Let_def
    by (rule spec_bind) (auto split: sum.splits intro: new spec_records(3))
qed

section \<open>The generator\<close>

lemma newRuleOf_table [simp]: "rTable (newRuleOf t c cm es) = t"
  by (simp add: newRuleOf_def)

lemma nilSet_table [simp]: "sTable (nilSet t) = t"
  by (simp add: nilSet_def)

lemma chains_table [simp]: "cTable (baseChain t n h p ty) = t" "cTable (regularChain t n) = t"
  by (simp_all add: baseChain_def regularChain_def)

lemma spec_addRules:
  "managedTable t \<Longrightarrow> spec (goodN W K) (addRule E t c cm es) anyV"
  "managedTable t \<Longrightarrow> spec (goodN W K) (insertRule E t c cm es) anyV"
  unfolding addRule_def insertRule_def
  by (rule spec_intros spec_updateRule spec_actions | simp)+

lemmas spec_gen = spec_intros spec_addRules spec_updateSet spec_addChain

lemma spec_bootstrapChains: "spec (goodN W K) (bootstrapNetfilterChains E) anyV"
  unfolding bootstrapNetfilterChains_def Let_def
  by (rule spec_gen spec_modifyN | simp add: goodN_managed goodT_def)+

lemma spec_bootstrapRules: "spec (goodN W K) (bootstrapInterfaceRules E ifs) anyV"
  unfolding bootstrapInterfaceRules_def Let_def
  by (rule spec_gen spec_modifyN | simp add: goodN_managed goodT_def ifaceSet_def)+

lemma spec_common:
  "spec (goodN W K) (allowICMP E c b) anyV" "spec (goodN W K) (allowNeighborDiscovery E c) anyV"
  "spec (goodN W K) (allowConntracked E c) anyV" "spec (goodN W K) (commonPrefixRule E c s b els) anyV"
  unfolding allowICMP_def allowNeighborDiscovery_def allowConntracked_def commonPrefixRule_def Let_def
  by (rule spec_gen | simp add: goodN_managed)+

lemma spec_applyCommonPrefixRules: "spec (goodN W K) (applyCommonPrefixRules E c ps s) anyV"
  unfolding applyCommonPrefixRules_def by (rule spec_intros spec_common)+

lemma spec_applyCommonChainRules: "spec (goodN W K) (applyCommonChainRules E cfg) anyV"
  unfolding applyCommonChainRules_def Let_def by (rule spec_intros spec_common spec_applyCommonPrefixRules)+

lemma spec_marks:
  "spec (goodN W K) (applyGeneralMarkCheck E c p) anyV" "spec (goodN W K) (applyMarkReset E s c s' i) anyV"
  "managedTable (cTable c) \<Longrightarrow> spec (goodN W K) (applyMarkCheck E s c s' i) anyV"
  "managedTable (cTable c) \<Longrightarrow> spec (goodN W K) (applyDropRemaining E c b) anyV"
  "spec (goodN W K) (applyPodInterfaceRules E c c' p ifc) anyV"
  unfolding applyGeneralMarkCheck_def applyMarkReset_def applyMarkCheck_def applyDropRemaining_def
    applyPodInterfaceRules_def
  by (rule spec_gen spec_updateRule spec_actions | simp add: goodN_managed)+

lemma spec_ipBlock: "managedTable (cTable c) \<Longrightarrow> spec (goodN W K) (applyPolicyPeersRulesIPBlock E s c s' b i) anyV"
  unfolding applyPolicyPeersRulesIPBlock_def applyPrefixes_def applyExceptPrefixes_def
  by (rule spec_gen | simp)+

lemma spec_addIPRule: "managedTable (cTable c) \<Longrightarrow> spec (goodN W K) (addIPRule E s as c s' p i) anyV"
  unfolding addIPRule_def Let_def by (rule spec_gen | simp)+

lemma spec_selector: "managedTable (cTable c) \<Longrightarrow> spec (goodN W K) (applyPolicyPeersRulesSelector E D s c s' p info nets i) anyV"
  unfolding applyPolicyPeersRulesSelector_def addIPRules_def
  by (rule spec_intros spec_addIPRule | assumption)+

lemma spec_peer: "managedTable (cTable c) \<Longrightarrow> spec (goodN W K) (applyPeer E D s c s' info nets ip) anyV"
  unfolding applyPeer_def by (rule spec_intros spec_ipBlock spec_selector | assumption)+

lemma spec_peers: "managedTable (cTable c) \<Longrightarrow> spec (goodN W K) (applyPolicyPeersRules E D s c s' ps info nets i) anyV"
  unfolding applyPolicyPeersRules_def Let_def by (rule spec_gen spec_peer | simp)+

lemma spec_portSet:
  "managedTable (cTable c) \<Longrightarrow> managedTable (cTable pc) \<Longrightarrow> spec (goodN W K) (applyPortSet E s c pc s' proto els) anyV"
  unfolding applyPortSet_def applyProtoPortsRules_def
  by (rule spec_gen | simp add: getInetSet_def Let_def)+

lemma spec_ports: "managedTable (cTable c) \<Longrightarrow> spec (goodN W K) (applyPolicyPortsRules E s c s' ps i) anyV"
  unfolding applyPolicyPortsRules_def Let_def by (rule spec_gen spec_portSet | simp)+

lemma spec_policyRule:
  "managedTable (cTable c) \<Longrightarrow> spec (goodN W K) (applyPolicyRule E D s c s' p info nets ir) anyV"
  unfolding applyPolicyRule_def by (rule spec_intros spec_marks spec_ports spec_peers | assumption)+

lemma spec_podInterfaceStep: "spec (goodN W K) (podInterfaceStep E c c' p nets b ifc) anyV"
  unfolding podInterfaceStep_def by (rule spec_intros spec_marks)+

lemma spec_applyPodRules: "spec (goodN W K) (applyPodRules E D c info p nets) anyV"
  unfolding applyPodRules_def Let_def
  by (rule spec_intros spec_addChain spec_podInterfaceStep spec_policyRule | simp add: goodN_managed)+

lemma spec_applyDirection: "managedTable (cTable c) \<Longrightarrow> spec (goodN W K) (applyDirection E D c info ps) anyV"
  unfolding applyDirection_def policyStep_def
  by (rule spec_intros spec_marks spec_applyPodRules | assumption)+

lemma spec_renderPolicies: "spec (goodN W K) (renderPolicies E D cfg ps pod info) anyV"
  unfolding renderPolicies_def Let_def
  by (rule spec_intros spec_applyCommonChainRules spec_applyDirection | simp add: goodN_managed)+

section \<open>The cleanup\<close>

lemma spec_delRule: "managedTable (rTable r) \<Longrightarrow> spec (goodN W K) (cleanupRule E acc r) anyV"
  unfolding cleanupRule_def tryDelRule_def
  by (rule spec_intros spec_any [OF spec_try] spec_onConn spec_conn_writes | simp)+

lemma spec_cleanupSet: "managedTable (sTable s) \<Longrightarrow> spec (goodN W K) (cleanupSet b s) anyV"
  unfolding cleanupSet_def by (rule spec_intros spec_onConn spec_conn_writes | simp)+

lemma spec_cleanupChainRules: "managedTable t \<Longrightarrow> spec (goodN W K) (cleanupChainRules E t acc c) anyV"
  unfolding cleanupChainRules_def
  by (rule spec_intros spec_onConn spec_conn_reads spec_delRule | simp)+

lemma spec_cleanupRules: "kernelOK E \<Longrightarrow> kernelKeeps W E \<Longrightarrow> managedTable t \<Longrightarrow> spec (goodN W K) (cleanupRules E t) anyV"
  unfolding cleanupRules_def
  by (rule spec_intros spec_onConn spec_conn_reads spec_cleanupChainRules spec_cleanupSet spec_flush | simp)+

lemma spec_cleanupChain:
  assumes "tFamily (cTable c) = TableFamilyINet"
  shows "spec (goodN W K) (cleanupChain E b c) anyV"
proof -
  have managed: "managedTable (cTable c)"
    if "goodN W K n" "\<not> (tName (cTable c) \<noteq> tName (nFilter n) \<and> tName (cTable c) \<noteq> tName (nNat n))" for n
    using goodN_managed(1,2) [OF that(1)] that(2) assms by (auto simp: managedTable_def)
  show ?thesis
    unfolding cleanupChain_def
    by (rule spec_intros spec_onConn spec_conn_reads spec_conn_writes | simp add: managed)+
qed

lemma spec_cleanupChains: "kernelOK E \<Longrightarrow> kernelKeeps W E \<Longrightarrow> spec (goodN W K) (cleanupChains E) anyV"
  unfolding cleanupChains_def
  by (rule spec_intros spec_onConn spec_conn_reads spec_cleanupChain spec_flush | simp)+

lemma spec_cleanup: "kernelOK E \<Longrightarrow> kernelKeeps W E \<Longrightarrow> spec (goodN W K) (cleanup E) anyV"
proof (rule specI)
  fix n assume ok: "kernelOK E" "kernelKeeps W E" and n: "goodN W K n"
  let ?m = "bindM getM (\<lambda>n. thenM (wrapM ''failed to cleanup table'' (cleanupRules E (nFilter n)))
           (thenM (wrapM ''failed to cleanup table'' (cleanupRules E (nNat n)))
              (wrapM ''failed to cleanup chains'' (cleanupChains E))))"
  obtain r n' where run: "?m n = (r, n')" by (cases "?m n")
  have "spec (goodN W K) ?m anyV"
    by (rule spec_intros spec_cleanupRules spec_cleanupChains | simp add: ok goodN_managed)+
  note good = specD [OF this n run]
  have "cleanup E n = (r, forgetAll n')" unfolding cleanup_def run by simp
  with good show "goodN W K (snd (cleanup E n)) \<and> (\<forall>x. fst (cleanup E n) = Inr x \<longrightarrow> anyV x)"
    by (simp add: forgetAll_def goodN_def goodT_def)
qed

section \<open>The run for one pod\<close>

lemma spec_addTable: "managedTable t \<Longrightarrow> spec (applyInv W K) (addTable E t) managedTable"
  unfolding addTable_def
  by (rule spec_intros spec_conn_reads(5) spec_conn_writes spec_ret | simp)+

lemma spec_withState:
  assumes "goodT n" "spec (goodN W K) m Q"
  shows "spec (applyInv W K) (withState n m) (\<lambda>(x, n'). Q x \<and> goodT n')"
proof (rule specI)
  fix c assume "applyInv W K c"
  then have n: "goodN W K (n\<lparr>nft := c\<rparr>)" using assms(1) by (simp add: goodN_def goodT_def)
  obtain r n' where run: "m (n\<lparr>nft := c\<rparr>) = (r, n')" by (cases "m (n\<lparr>nft := c\<rparr>)")
  from specD [OF assms(2) n run]
  show "applyInv W K (snd (withState n m c)) \<and> (\<forall>x. fst (withState n m c) = Inr x \<longrightarrow> (case x of (x, n') \<Rightarrow> Q x \<and> goodT n'))"
    by (cases r) (simp_all add: withState_def run goodN_def)
qed

lemma goodT_new: "managedTable f \<Longrightarrow> managedTable t \<Longrightarrow> goodT (newNftState c f t)"
  by (simp add: goodT_def newNftState_def nilChain_def)

text \<open>The tables are bootstrapped once the legacy cleanup is done.\<close>

lemma spec_bootstrap_tables:
  "spec (applyInv W K)
     (bindM (wrapM m1 (addTable E \<lparr>tName = FilterTableName, tFamily = TableFamilyINet\<rparr>)) (\<lambda>f.
      bindM (wrapM m2 (addTable E \<lparr>tName = NatTableName, tFamily = TableFamilyINet\<rparr>)) (\<lambda>t.
      bindM getM (\<lambda>c.
      bindM (withState (newNftState c f t) (thenM (bootstrapNetfilterChains E) (bootstrapInterfaceRules E ifs))) (\<lambda>(_, n).
        retM (info, n)))))) (\<lambda>(_, n). goodT n)"
  by (rule spec_bind [OF spec_withState] spec_intros spec_addTable spec_withState goodT_new spec_bootstrapChains spec_bootstrapRules spec_ret
      | simp add: managedTable_def | assumption)+

text \<open>Everything after the legacy cleanup keeps the invariant, which the legacy cleanup establishes.\<close>

definition legacyKeeps :: "(ruleset \<Rightarrow> bool) \<Rightarrow> ruleset \<Rightarrow> bool" where
  "legacyKeeps W K \<longleftrightarrow> (\<forall>c. legacyInv K c \<longrightarrow> W (kernel c))"

definition endsInv :: "(ruleset \<Rightarrow> bool) \<Rightarrow> ruleset \<Rightarrow> (conn, 'a) em \<Rightarrow> ('a \<Rightarrow> bool) \<Rightarrow> bool" where
  "endsInv W K m Q \<longleftrightarrow> (\<forall>c. legacyInv K c \<longrightarrow> applyInv W K (snd (m c)) \<and> (\<forall>x. fst (m c) = Inr x \<longrightarrow> Q x))"

lemma endsInv_spec: "legacyKeeps W K \<Longrightarrow> spec (applyInv W K) m Q \<Longrightarrow> endsInv W K m Q"
  unfolding endsInv_def legacyKeeps_def using applyInv_legacy by (metis prod.collapse specD)

lemma endsInv_legacy:
  assumes "triple (legacyInv K) anyS m anyR" "spec (applyInv W K) m' Q" "legacyKeeps W K"
  shows "endsInv W K (thenM m m') Q"
  unfolding endsInv_def
proof (intro allI impI)
  fix c assume c: "legacyInv K c"
  obtain r c' where run: "m c = (r, c')" by (cases "m c")
  have "legacyInv K c'" using assms(1) c run unfolding triple_def by (metis snd_conv)
  then have inv: "applyInv W K c'" using assms(3) by (auto simp: legacyKeeps_def intro: applyInv_legacy)
  obtain r' c'' where run': "m' c' = (r', c'')" by (cases "m' c'")
  from specD [OF assms(2) inv run'] inv
  show "applyInv W K (snd (thenM m m' c)) \<and> (\<forall>x. fst (thenM m m' c) = Inr x \<longrightarrow> Q x)"
    by (cases r) (simp_all add: run_simps run run')
qed

lemma endsInv_bind:
  assumes "endsInv W K m Q" "\<And>x. Q x \<Longrightarrow> spec (applyInv W K) (f x) R"
  shows "endsInv W K (bindM m f) R"
  unfolding endsInv_def
proof (intro allI impI)
  fix c assume c: "legacyInv K c"
  obtain r c' where run: "m c = (r, c')" by (cases "m c")
  have inv: "applyInv W K c'" and Q: "\<forall>x. r = Inr x \<longrightarrow> Q x"
    using assms(1) c run unfolding endsInv_def by (metis fst_conv snd_conv)+
  show "applyInv W K (snd (bindM m f c)) \<and> (\<forall>x. fst (bindM m f c) = Inr x \<longrightarrow> R x)"
  proof (cases r)
    case (Inr x)
    obtain r' c'' where run': "f x c' = (r', c'')" by (cases "f x c'")
    from specD [OF assms(2) inv run'] Q Inr show ?thesis by (simp add: bindM_apply run run')
  qed (simp add: bindM_apply run inv)
qed

lemma endsInv_wrap: "endsInv W K m Q \<Longrightarrow> endsInv W K (wrapM msg m) Q"
  by (simp add: endsInv_def wrapM_apply)

lemma endsInv_bootstrap:
  assumes "kernelOK E" "wfRules K" "legacyKeeps W K"
  shows "endsInv W K (bootstrapNetfilterRules E p) (\<lambda>(_, n). goodT n)"
proof (cases p)
  case (Some info)
  show ?thesis
    by (simp add: bootstrapNetfilterRules_def Let_def Some)
      (intro conjI impI endsInv_spec [OF assms(3) spec_throw]
        endsInv_legacy [OF triple_CleanupLegacyTables [OF assms(1,2)] spec_bootstrap_tables assms(3)])
qed (simp add: bootstrapNetfilterRules_def endsInv_spec [OF assms(3) spec_throw])

lemma endsInv_apply:
  assumes "kernelOK E" "kernelKeeps W E" "wfRules K" "legacyKeeps W K"
  shows "endsInv W K (ApplyPolicyRulesForPodAndFamily E D cfg ps pod p) anyV"
proof -
  have body: "spec (goodN W K) (thenM (renderPolicies E D cfg ps pod info) (
        thenM (wrapM ''nft flush failed'' (onConn (connFlush E)))
              (wrapM ''failed to cleanup nft'' (cleanup E)))) anyV" for info
    by (rule spec_intros spec_renderPolicies spec_onConn spec_flush spec_cleanup assms)+
  show ?thesis
    unfolding ApplyPolicyRulesForPodAndFamily_def
    by (rule endsInv_bind [OF endsInv_wrap [OF endsInv_bootstrap [OF assms(1,3,4)]]])
      (auto intro!: spec_then [OF spec_any [OF spec_withState [OF _ body]]] spec_ret_any)
qed

lemma apply_inv:
  assumes "kernelOK E" "kernelKeeps W E" "wfRules (kernel c)" "legacyKeeps W (kernel c)" "messages c = []"
  shows "applyInv W (kernel c) (snd (ApplyPolicyRulesForPodAndFamily E D cfg ps pod p c))"
  using endsInv_apply [OF assms(1-4)] legacyInv_start [OF assms(5)] unfolding endsInv_def by blast

lemma keeps_anyV: "kernelKeeps anyV E" "legacyKeeps anyV K"
  by (simp_all add: kernelKeeps_def legacyKeeps_def)

lemma apply_foreign:
  assumes "kernelOK E" "wfRules (kernel c)" "messages c = []"
  shows "foreignParts (kernel (snd (ApplyPolicyRulesForPodAndFamily E D cfg ps pod p c))) = foreignParts (kernel c)"
  by (rule applyInv_foreign [OF apply_inv [OF assms(1) keeps_anyV(1) assms(2) keeps_anyV(2) assms(3)] assms(2)])

text \<open>With a kernel that never accepts a transaction that would make the ruleset ill-formed, it stays well-formed.\<close>

lemma apply_wfNet:
  assumes "kernelOK E" "kernelKeeps wfNet E" "wfNet (kernel c)" "messages c = []"
  shows "wfNet (kernel (snd (ApplyPolicyRulesForPodAndFamily E D cfg ps pod p c)))"
proof -
  have "legacyKeeps wfNet (kernel c)" using wfNet_legacyInv assms(3) unfolding legacyKeeps_def by blast
  with apply_inv [OF assms(1,2) _ _ assms(4)] assms(3) show ?thesis unfolding wfNet_def applyInv_def by blast
qed

lemma applyRulesForPod_cases:
  assumes "applyRulesForPod OS deps cfg policyMap pod podInfo hp w = (r, w')"
  shows "w' = w \<or> (let p = netnsFile hp (piNetNSPath podInfo) in
     w' = w(p := kernel (snd (ApplyPolicyRulesForPodAndFamily (osNft OS p) deps cfg policyMap pod (Some podInfo) (newConn (w p))))))"
  using assms
  by (cases "osGetNS OS (netnsFile hp (piNetNSPath podInfo))"; cases "osNewNft OS (netnsFile hp (piNetNSPath podInfo))")
    (auto simp: applyRulesForPod_def run_simps inNetns_def Let_def split: prod.splits if_splits)

text \<open>(C7)
  Applying the policies of a pod touches nothing but the daemon's own objects, whatever the policies,
  the pod and the configuration, on every path, failures included: other network namespaces are
  unchanged, and in the pod's namespace every table other than the two managed ones survives with all
  its chains, sets and rules in order, except the daemon-owned leftovers in the legacy tables.
\<close>

theorem applyRulesForPod_safe:
  assumes "kernelOK (osNft OS (netnsFile hp (piNetNSPath podInfo)))" "wfRules (w (netnsFile hp (piNetNSPath podInfo)))"
  shows "let w' = snd (applyRulesForPod OS deps cfg policyMap pod podInfo hp w) in
     foreignParts (w' (netnsFile hp (piNetNSPath podInfo))) = foreignParts (w (netnsFile hp (piNetNSPath podInfo)))
   \<and> (\<forall>p. p \<noteq> netnsFile hp (piNetNSPath podInfo) \<longrightarrow> w' p = w p)"
proof -
  let ?p = "netnsFile hp (piNetNSPath podInfo)"
  obtain r w' where run: "applyRulesForPod OS deps cfg policyMap pod podInfo hp w = (r, w')"
    by (cases "applyRulesForPod OS deps cfg policyMap pod podInfo hp w")
  note cases = applyRulesForPod_cases [OF run]
  from cases apply_foreign [OF assms(1), of "newConn (w ?p)"] assms(2) run show ?thesis by (auto simp: Let_def)
qed

definition exPodInfo :: pod_info where
  "exPodInfo = \<lparr>piName = ''p'', piNamespace = ''ns'', piNetNSPath = ''/proc/7/ns/net'', piNetworkStatus = [],
     piNodeName = ''n1'', piInterfaces =
       [\<lparr>netattachName = ''ns/net1'', interfaceName = ''net1'', interfaceType = ''macvlan'', ifIPs = [''10.1.1.2'']\<rparr>]\<rparr>"

theorem applyRulesForPod_safe_witness:
  "\<forall>deps cfg policyMap pod. exForeign \<in> set (ksTables (snd (applyRulesForPod exOS deps cfg policyMap pod exPodInfo ''/host''
     (\<lambda>_. exRules)) ''/host//proc/7/ns/net''))"
proof (intro allI, rule exForeign_kept)
  fix deps cfg policyMap pod
  have path: "netnsFile ''/host'' (piNetNSPath exPodInfo) = ''/host//proc/7/ns/net''" by (simp add: netnsFile_def exPodInfo_def)
  show "foreignParts (snd (applyRulesForPod exOS deps cfg policyMap pod exPodInfo ''/host'' (\<lambda>_. exRules)) ''/host//proc/7/ns/net'')
      = foreignParts exRules"
    using applyRulesForPod_safe [of exOS "''/host''" exPodInfo "\<lambda>_. exRules" deps cfg policyMap pod, unfolded path Let_def]
      exFlush_ok by blast
qed

end
