(* ===== verification/Daemon.thy ===== *)
theory Daemon
  imports Shutdown
begin

text \<open>
  \<^verbatim>\<open>pkg/server/options.go\<close> and \<^verbatim>\<open>cmd/multi-networkpolicy-nftables/main.go\<close>: the options of the daemon, their
  validation, the configuration built from them, and the run of the daemon from its start to the
  cleanup at its end.

  Parameters (\<open>platform\<close>): the host name of the system, the Kubernetes configuration, manager and
  clients (each may fail), what the manager does until it stops (\<open>pfStart\<close>), whether it was asked to
  stop, and the deadline of the cleanup.
\<close>

section \<open>Options\<close>

record options =
  oKubeconfig :: string
  oMaster :: string
  oHostnameOverride :: string
  oHostPrefix :: string
  oContainerRuntime :: string
  oContainerRuntimeEndpoint :: string
  oNetworkPlugins :: "string list"
  oSyncPeriod :: int
  oAcceptICMPv6 :: bool
  oAcceptICMP :: bool
  oAllowSrcPrefixText :: string
  oAllowDstPrefixText :: string
  oAllowSrcPrefix :: "string list"
  oAllowDstPrefix :: "string list"

record reconciler_config =
  cfgKubeconfig :: string
  cfgMaster :: string
  cfgNodeName :: string
  cfgHostPrefix :: string
  cfgContainerRuntimeEndpoint :: string
  cfgNetworkPlugins :: "string list"
  cfgSyncPeriodSeconds :: int
  cfgCommonRuleConfig :: common_rule_config

definition NewOptions :: options where
  "NewOptions =
     \<lparr>oKubeconfig = [], oMaster = [], oHostnameOverride = [], oHostPrefix = [], oContainerRuntime = Cri,
      oContainerRuntimeEndpoint = [], oNetworkPlugins = [], oSyncPeriod = 0, oAcceptICMPv6 = False, oAcceptICMP = False,
      oAllowSrcPrefixText = [], oAllowDstPrefixText = [], oAllowSrcPrefix = [], oAllowDstPrefix = []\<rparr>"

definition defaultSyncPeriod :: int where
  "defaultSyncPeriod = 30"

text \<open>What registering the flags changes: the fields whose flag has a default of its own.\<close>

definition AddFlags :: "options \<Rightarrow> options" where
  "AddFlags opts =
     opts\<lparr>oNetworkPlugins := [''macvlan''], oSyncPeriod := defaultSyncPeriod, oAcceptICMP := False, oAcceptICMPv6 := False,
          oAllowSrcPrefixText := [], oAllowDstPrefixText := []\<rparr>"

text \<open>\<^verbatim>\<open>dtoi\<close> of package \<^verbatim>\<open>net\<close>: the value, the number of bytes read, and whether it is a number.\<close>

definition dtoiBig :: nat where
  "dtoiBig = 0xFFFFFF"

fun dtoi :: "nat \<Rightarrow> nat \<Rightarrow> string \<Rightarrow> nat \<times> nat \<times> bool" where
  "dtoi n i [] = (n, i, 0 < i)"
| "dtoi n i (c # cs) =
     (if isDigit c then
        let n' = 10 * n + (byteOf c - 48) in
        if dtoiBig \<le> n' then (dtoiBig, i, False) else dtoi n' (Suc i) cs
      else (n, i, 0 < i))"

text \<open>\<^verbatim>\<open>net.ParseCIDR\<close>, of which only the error is used.\<close>

definition errParseCIDR :: go_error where
  "errParseCIDR = ErrText ''invalid CIDR address''"

definition netParseCIDR :: "string \<Rightarrow> unit res" where
  "netParseCIDR s =
     (case cutStr s ''/'' of
        None \<Rightarrow> Inl errParseCIDR
      | Some (addr, maskText) \<Rightarrow>
          (case ParseAddr addr of
             Inl _ \<Rightarrow> Inl errParseCIDR
           | Inr ipAddr \<Rightarrow>
               if zoneOf ipAddr \<noteq> [] then Inl errParseCIDR
               else (case dtoi 0 0 maskText of (n, i, ok) \<Rightarrow>
                       if \<not> ok \<or> i \<noteq> length maskText \<or> addrBitLen ipAddr < n then Inl errParseCIDR else Inr ())))"

fun prefixTexts :: "string list \<Rightarrow> string list \<Rightarrow> string list \<times> go_error option" where
  "prefixTexts [] prefixList = (prefixList, None)"
| "prefixTexts (addrRaw # rest) prefixList =
     (let addr = trimSpace addrRaw in
      case netParseCIDR addr of
        Inl err \<Rightarrow> (prefixList, Some err)
      | Inr _ \<Rightarrow> prefixTexts rest (prefixList @ [addr]))"

definition parseIPPrefixText :: "string \<Rightarrow> string list \<Rightarrow> string list \<times> go_error option" where
  "parseIPPrefixText prefixText prefixList =
     (if prefixText \<noteq> [] then prefixTexts (splitOn (CHR '','') prefixText) [] else (prefixList, None))"

definition throwOpt :: "go_error option \<Rightarrow> ('s, unit) em" where
  "throwOpt err = (case err of None \<Rightarrow> retM () | Some e \<Rightarrow> throwM e)"

definition Validate :: "(options, unit) em" where
  "Validate =
     bindM getM (\<lambda>opts. let (srcs, err) = parseIPPrefixText (oAllowSrcPrefixText opts) (oAllowSrcPrefix opts) in
     thenM (modifyM (\<lambda>opts. opts\<lparr>oAllowSrcPrefix := srcs\<rparr>)) (
     thenM (throwOpt err) (
     let (dsts, err') = parseIPPrefixText (oAllowDstPrefixText opts) (oAllowDstPrefix opts) in
     thenM (modifyM (\<lambda>opts. opts\<lparr>oAllowDstPrefix := dsts\<rparr>)) (
     thenM (throwOpt err') (
     let endpoint = trimSpace (oContainerRuntimeEndpoint opts) in
     thenM (modifyM (\<lambda>opts. opts\<lparr>oContainerRuntimeEndpoint := endpoint\<rparr>)) (
     if endpoint = [] then throwM (ErrText ''container-runtime-endpoint must not be empty'')
     else if containsStr endpoint ''://'' then
       throwM (ErrText ''container-runtime-endpoint must be an absolute filesystem path, not a URL'')
     else if \<not> hasPrefix endpoint ''/'' then
       throwM (ErrText ''container-runtime-endpoint must be an absolute filesystem path'')
     else retM ()))))))"

text \<open>\<^verbatim>\<open>nodeutil.GetHostname\<close>\<close>

definition GetHostname :: "string res \<Rightarrow> string \<Rightarrow> string res" where
  "GetHostname osHostname hostnameOverride =
     bindR (if hostnameOverride = [] then wrapR ''determine hostname'' osHostname else Inr hostnameOverride) (\<lambda>name.
     let hostName = trimSpace name in
     if hostName = [] then Inl (ErrText ''empty hostname is invalid'') else Inr (toLowerASCII hostName))"

definition BuildReconcilerConfig :: "string res \<Rightarrow> (options, reconciler_config) em" where
  "BuildReconcilerConfig osHostname =
     thenM (wrapM ''options validation'' Validate) (
     bindM getM (\<lambda>opts.
     bindM (wrapM ''get hostname'' (liftR (GetHostname osHostname (oHostnameOverride opts)))) (\<lambda>hostname.
     retM \<lparr>cfgKubeconfig = oKubeconfig opts, cfgMaster = oMaster opts, cfgNodeName = hostname,
           cfgHostPrefix = oHostPrefix opts, cfgContainerRuntimeEndpoint = oContainerRuntimeEndpoint opts,
           cfgNetworkPlugins = oNetworkPlugins opts, cfgSyncPeriodSeconds = oSyncPeriod opts,
           cfgCommonRuleConfig = \<lparr>acceptICMPv6 = oAcceptICMPv6 opts, acceptICMP = oAcceptICMP opts,
             allowSrcPrefix = oAllowSrcPrefix opts, allowDstPrefix = oAllowDstPrefix opts\<rparr>\<rparr>)))"

section \<open>The run of the daemon\<close>

record platform =
  pfHostname :: "string res"
  pfInClusterConfig :: "unit res"
  pfKubeconfig :: "string \<Rightarrow> string \<Rightarrow> unit res"
  pfSetupScheme :: "unit res"
  pfNewManager :: "int \<Rightarrow> k8s_client res"
  pfSetupIndexes :: "unit res"
  pfSetupReconciler :: "unit res"
  pfNewClient :: "k8s_client res"
  pfStart :: "(world, unit) em"
  pfCanceled :: bool
  pfCleanupCtx :: "nat \<Rightarrow> go_error option"

definition newReconciler :: "k8s_client \<Rightarrow> reconciler_config \<Rightarrow> node_reconciler" where
  "newReconciler cl cfg =
     \<lparr>rNodeName = cfgNodeName cfg, rClient = cl, rPolicyDeps = None, rHostPrefix = cfgHostPrefix cfg,
      rNetworkPlugins = cfgNetworkPlugins cfg, rCommonCfg = cfgCommonRuleConfig cfg, rCriClient = None, rCriConn = None,
      rContainerRuntimeEndpoint = cfgContainerRuntimeEndpoint cfg, rApplyRulesForPodFunc = None\<rparr>"

text \<open>The deferred \<^verbatim>\<open>CloseCRI\<close> runs on every return after the reconciler is made; its error is logged.\<close>

definition withReconciler :: "sys \<Rightarrow> node_reconciler \<Rightarrow> (world, unit) em \<Rightarrow> (netns_map, unit) em" where
  "withReconciler S r m =
     (\<lambda>net. case m \<lparr>wRec = r, wNet = net\<rparr> of (res, w) \<Rightarrow> (res, wNet (snd (onRec (CloseCRI S) w))))"

definition run :: "sys \<Rightarrow> platform \<Rightarrow> options \<Rightarrow> (netns_map, unit) em" where
  "run S P opts =
     bindM (wrapM ''build reconciler config'' (liftR (fst (BuildReconcilerConfig (pfHostname P) opts)))) (\<lambda>cfg.
     thenM (wrapM ''build kubeconfig'' (liftR
       (if cfgKubeconfig cfg = [] then pfInClusterConfig P else pfKubeconfig P (cfgKubeconfig cfg) (cfgMaster cfg)))) (
     thenM (wrapM ''setup scheme'' (liftR (pfSetupScheme P))) (
     bindM (wrapM ''create manager'' (liftR (pfNewManager P (cfgSyncPeriodSeconds cfg)))) (\<lambda>mgrClient.
     thenM (wrapM ''setup indexes'' (liftR (pfSetupIndexes P))) (
     withReconciler S (newReconciler mgrClient cfg) (
       thenM (wrapM ''setup reconciler'' (liftR (pfSetupReconciler P))) (
       bindM (wrapM ''create direct client for cleanup'' (liftR (pfNewClient P))) (\<lambda>directClient.
       startManagerAndCleanup (pfStart P) (pfCanceled P) (CleanupOnShutdown S (pfCleanupCtx P) directClient)))))))))"

text \<open>\<^verbatim>\<open>main\<close>: the exit status of the process.\<close>

definition main :: "sys \<Rightarrow> platform \<Rightarrow> (options \<Rightarrow> options res) \<Rightarrow> netns_map \<Rightarrow> nat \<times> netns_map" where
  "main S P parseFlags net =
     (case parseFlags (AddFlags NewOptions) of
        Inl e \<Rightarrow> (1, net)
      | Inr opts \<Rightarrow> (case run S P opts net of (Inl e, net') \<Rightarrow> (1, net') | (Inr _, net') \<Rightarrow> (0, net')))"

section \<open>Options that are accepted\<close>

lemma dtoi_number:
  "dtoi n i s = (v, j, True) \<Longrightarrow> j = i + length s \<Longrightarrow>
     list_all isDigit s \<and> v = foldl (\<lambda>a c. 10 * a + (byteOf c - 48)) n s \<and> 0 < j"
proof (induction s arbitrary: n i)
  case (Cons c cs)
  then show ?case by (auto simp: Let_def split: if_splits)
qed auto

lemma cutStr_slash: "cutStr s ''/'' = Some (a, b) \<Longrightarrow> s = a @ ''/'' @ b \<and> CHR ''/'' \<notin> set a"
proof (induction s arbitrary: a)
  case (Cons c cs)
  then show ?case by (auto simp: hasPrefix_def split: if_splits)
qed simp

lemma digits_no_slash: "list_all isDigit s \<Longrightarrow> CHR ''/'' \<notin> set s"
  by (auto simp: list_all_iff isDigit_def inBytes_def)

text \<open>Whether the length of a prefix has a leading zero, which \<^verbatim>\<open>net.ParseCIDR\<close> lets pass.\<close>

definition paddedLength :: "string \<Rightarrow> bool" where
  "paddedLength s = (case cutStr s ''/'' of None \<Rightarrow> False | Some (a, m) \<Rightarrow> 1 < length m \<and> hd m = CHR ''0'')"

lemma ParsePrefix_of_CIDR:
  assumes "netParseCIDR s = Inr ()"
  shows "is_err (ParsePrefix s) \<longleftrightarrow> paddedLength s"
proof -
  from assms obtain a m ip n where cut: "cutStr s ''/'' = Some (a, m)" and ip: "ParseAddr a = Inr ip" "zoneOf ip = []"
    and n: "dtoi 0 0 m = (n, length m, True)" "n \<le> addrBitLen ip"
    by (auto simp: netParseCIDR_def split: option.splits sum.splits prod.splits if_splits)
  have m: "list_all isDigit m" "n = decVal m" "m \<noteq> []"
    using dtoi_number [OF n(1)] by (auto simp: decVal_def)
  have "splitOn (CHR ''/'') s = [a, m]"
    using cutStr_slash [OF cut] digits_no_slash [OF m(1)] by (simp add: splitOn_app splitOn_absent)
  then show ?thesis
    using ip m n(2) cut by (auto simp: ParsePrefix_def Let_def parseBits_def paddedLength_def neq_Nil_conv)
qed

lemma prefixTexts_sound:
  "prefixTexts raws acc = (ps, None) \<Longrightarrow>
     ps = acc @ map trimSpace raws \<and> (\<forall>r \<in> set raws. netParseCIDR (trimSpace r) = Inr ())"
proof (induction raws arbitrary: acc)
  case (Cons a raws)
  then show ?case
    using Cons.IH [of "acc @ [trimSpace a]"] by (auto simp: Let_def split: sum.splits)
qed simp

lemma Validate_Inr:
  assumes "Validate o1 = (Inr u, o2)"
  obtains srcs dsts where "parseIPPrefixText (oAllowSrcPrefixText o1) (oAllowSrcPrefix o1) = (srcs, None)"
    "parseIPPrefixText (oAllowDstPrefixText o1) (oAllowDstPrefix o1) = (dsts, None)"
    "o2 = o1\<lparr>oAllowSrcPrefix := srcs, oAllowDstPrefix := dsts,
             oContainerRuntimeEndpoint := trimSpace (oContainerRuntimeEndpoint o1)\<rparr>"
    "oContainerRuntimeEndpoint o2 \<noteq> []" "\<not> containsStr (oContainerRuntimeEndpoint o2) ''://''"
    "hasPrefix (oContainerRuntimeEndpoint o2) ''/''"
  using assms
  by (cases "parseIPPrefixText (oAllowSrcPrefixText o1) (oAllowSrcPrefix o1)";
      cases "parseIPPrefixText (oAllowDstPrefixText o1) (oAllowDstPrefix o1)")
    (auto simp: Validate_def run_simps Let_def throwOpt_def split: option.splits if_splits)

lemma parseIPPrefixText_sound:
  assumes "parseIPPrefixText txt old = (ps, None)" "\<forall>p \<in> set old. netParseCIDR p = Inr ()"
  shows "\<forall>p \<in> set ps. netParseCIDR p = Inr ()"
  using assms prefixTexts_sound by (fastforce simp: parseIPPrefixText_def split: if_splits)

lemma encodeRune_nonempty [simp]: "encodeRune r \<noteq> []"
  by (simp add: encodeRune_def Let_def)

lemma toLowerASCII_nonempty: "s \<noteq> [] \<Longrightarrow> toLowerASCII s \<noteq> []"
  by (cases s; cases "decodeRune s") (auto simp: toLowerASCII_def stringsMap_def)

lemma GetHostname_nonempty: "GetHostname host name = Inr h \<Longrightarrow> h \<noteq> []"
  by (auto simp: GetHostname_def bindR_Inr_iff Let_def toLowerASCII_nonempty split: if_splits)

text \<open>(C37)
  A configuration that is accepted can be used: the path of the runtime socket is absolute and not a
  URL, the node name is not empty, and the rule generator can parse every configured prefix, unless its
  length is written with a leading zero: those pass the validation and are refused later, each time
  rules are applied.
\<close>

theorem BuildReconcilerConfig_usable:
  assumes "oAllowSrcPrefix opts = []" "oAllowDstPrefix opts = []" "BuildReconcilerConfig host opts = (Inr cfg, opts')"
  shows "hasPrefix (cfgContainerRuntimeEndpoint cfg) ''/'' \<and> \<not> containsStr (cfgContainerRuntimeEndpoint cfg) ''://''
     \<and> cfgNodeName cfg \<noteq> []
     \<and> (\<forall>p \<in> set (allowSrcPrefix (cfgCommonRuleConfig cfg)) \<union> set (allowDstPrefix (cfgCommonRuleConfig cfg)).
          is_err (ParsePrefix p) \<longleftrightarrow> paddedLength p)"
proof -
  from assms(3) obtain u o2 where v: "Validate opts = (Inr u, o2)"
    and cfg: "cfgContainerRuntimeEndpoint cfg = oContainerRuntimeEndpoint o2"
      "allowSrcPrefix (cfgCommonRuleConfig cfg) = oAllowSrcPrefix o2" "allowDstPrefix (cfgCommonRuleConfig cfg) = oAllowDstPrefix o2"
      "GetHostname host (oHostnameOverride o2) = Inr (cfgNodeName cfg)"
    unfolding BuildReconcilerConfig_def
    by (elim thenM_InrE wrapM_InrE bindM_InrE) (auto simp: em_apply)
  from v show ?thesis
  proof (rule Validate_Inr)
    fix srcs dsts
    assume s: "parseIPPrefixText (oAllowSrcPrefixText opts) (oAllowSrcPrefix opts) = (srcs, None)"
      and d: "parseIPPrefixText (oAllowDstPrefixText opts) (oAllowDstPrefix opts) = (dsts, None)"
      and o2: "o2 = opts\<lparr>oAllowSrcPrefix := srcs, oAllowDstPrefix := dsts,
             oContainerRuntimeEndpoint := trimSpace (oContainerRuntimeEndpoint opts)\<rparr>"
      and ep: "\<not> containsStr (oContainerRuntimeEndpoint o2) ''://''" "hasPrefix (oContainerRuntimeEndpoint o2) ''/''"
    have "\<forall>p \<in> set srcs \<union> set dsts. netParseCIDR p = Inr ()"
      using parseIPPrefixText_sound [OF s] parseIPPrefixText_sound [OF d] assms(1,2) by auto
    then have "\<forall>p \<in> set srcs \<union> set dsts. is_err (ParsePrefix p) \<longleftrightarrow> paddedLength p"
      using ParsePrefix_of_CIDR by blast
    with ep GetHostname_nonempty [OF cfg(4)] show ?thesis by (simp add: cfg o2)
  qed
qed

text \<open>The finding: a prefix with a padded length is accepted, and then refused by the generator.\<close>

definition exOptions :: options where
  "exOptions = (AddFlags NewOptions)\<lparr>oAllowSrcPrefixText := ''10.0.0.0/08'', oContainerRuntimeEndpoint := ''/run/cri.sock'',
     oHostnameOverride := ''Node1''\<rparr>"

lemma exOptions_config:
  "\<exists>cfg opts. BuildReconcilerConfig (Inr []) exOptions = (Inr cfg, opts)
      \<and> allowSrcPrefix (cfgCommonRuleConfig cfg) = [''10.0.0.0/08''] \<and> cfgKubeconfig cfg = []
      \<and> cfgContainerRuntimeEndpoint cfg = ''/run/cri.sock''"
proof -
  have trim: "trimSpace ''10.0.0.0/08'' = ''10.0.0.0/08''" "trimSpace ''/run/cri.sock'' = ''/run/cri.sock''"
    "trimSpace ''Node1'' = ''Node1''"
    by (rule trimSpace_plain, simp add: isSpaceRune_def)+
  have cidr: "netParseCIDR ''10.0.0.0/08'' = Inr ()"
    by (simp add: netParseCIDR_def hasPrefix_def ParseAddr_def parseIPv4_def parseIPv4Fields_def parseOctet_def isDigit_def
        inBytes_def decVal_def zoneOf_def addrBitLen_def dtoiBig_def Let_def)
  show ?thesis
    by (simp add: BuildReconcilerConfig_def Validate_def run_simps exOptions_def AddFlags_def NewOptions_def
        parseIPPrefixText_def trim cidr throwOpt_def GetHostname_def hasPrefix_def Let_def)
qed

theorem BuildReconcilerConfig_usable_witness:
  "\<exists>cfg opts. BuildReconcilerConfig (Inr []) exOptions = (Inr cfg, opts) \<and> is_err (ParsePrefix ''10.0.0.0/08'')
     \<and> cfgNodeName cfg \<noteq> []"
proof -
  obtain cfg opts where run: "BuildReconcilerConfig (Inr []) exOptions = (Inr cfg, opts)"
    and src: "allowSrcPrefix (cfgCommonRuleConfig cfg) = [''10.0.0.0/08'']" using exOptions_config by blast
  have "paddedLength ''10.0.0.0/08''" by (simp add: paddedLength_def hasPrefix_def)
  then show ?thesis
    using BuildReconcilerConfig_usable [OF _ _ run] src run
    by (intro exI [of _ cfg] exI [of _ opts]) (simp add: exOptions_def AddFlags_def NewOptions_def)
qed

section \<open>The whole run\<close>

lemma wNet_CloseCRI: "wNet (snd (onRec (CloseCRI S) w)) = wNet w"
  by (simp add: onRec_def split: prod.splits)

text \<open>(C9)
  A run of the daemon that ends without an error leaves no enforcement behind: for every pod that the
  API server lists for the node and that can have policies, the container runtime of the configuration
  names the process of a container of the pod (a running one, if a running container has an ID), and no
  managed table and no rule in one is left in the network namespace of that process.  The manager may do
  anything that keeps the configuration, the form of the rulesets and the origin of the cached client.
\<close>

theorem run_ends_clean:
  assumes "goodKernels (sysOS S)" "keeps keepsConfig (pfStart P)"
    and "\<And>w. \<forall>p. wfNet (wNet w p) \<Longrightarrow> \<forall>p. wfNet (wNet (snd (pfStart P w)) p)"
    and "\<And>w. criOwn S (wRec w) \<Longrightarrow> criOwn S (wRec (snd (pfStart P w)))"
    and "\<forall>p. wfNet (net p)" "run S P opts net = (Inr (), net')"
  shows "\<exists>cfg cl pods. fst (BuildReconcilerConfig (pfHostname P) opts) = Inr cfg \<and> pfNewClient P = Inr cl
     \<and> clListPodsByNode cl (cfgNodeName cfg) = Inr pods
     \<and> (\<forall>pod \<in> set pods. IsMultiNetworkpolicyTarget pod \<longrightarrow>
          (\<exists>cri path. runtimeAt S (cfgContainerRuntimeEndpoint cfg) (cfgHostPrefix cfg) cri
             \<and> (\<exists>s \<in> set (podContainerStatuses pod). containerProc (sysJSON S) cri s path
                  \<and> ((\<exists>t \<in> set (podContainerStatuses pod). csRunning t \<and> csContainerID t \<noteq> []) \<longrightarrow> csRunning s))
             \<and> noManaged (net' (netnsFile (cfgHostPrefix cfg) path))))"
proof -
  from assms(6) obtain cfg mgr where cfg: "fst (BuildReconcilerConfig (pfHostname P) opts) = Inr cfg"
    and wr: "withReconciler S (newReconciler mgr cfg) (
       thenM (wrapM ''setup reconciler'' (liftR (pfSetupReconciler P))) (
       bindM (wrapM ''create direct client for cleanup'' (liftR (pfNewClient P))) (\<lambda>directClient.
       startManagerAndCleanup (pfStart P) (pfCanceled P) (CleanupOnShutdown S (pfCleanupCtx P) directClient)))) net = (Inr (), net')"
    unfolding run_def by (elim bindM_InrE thenM_InrE wrapM_InrE) (auto simp: em_apply)
  let ?r = "newReconciler mgr cfg" let ?w = "\<lparr>wRec = ?r, wNet = net\<rparr>"
  from wr obtain w' where net': "net' = wNet w'"
    and go: "thenM (wrapM ''setup reconciler'' (liftR (pfSetupReconciler P))) (
       bindM (wrapM ''create direct client for cleanup'' (liftR (pfNewClient P))) (\<lambda>directClient.
       startManagerAndCleanup (pfStart P) (pfCanceled P) (CleanupOnShutdown S (pfCleanupCtx P) directClient))) ?w = (Inr (), w')"
    by (auto simp: withReconciler_def wNet_CloseCRI split: prod.splits)
  from go obtain cl where cl: "pfNewClient P = Inr cl"
    and sm: "startManagerAndCleanup (pfStart P) (pfCanceled P) (CleanupOnShutdown S (pfCleanupCtx P) cl) ?w = (Inr (), w')"
    by (elim bindM_InrE thenM_InrE wrapM_InrE) (auto simp: em_apply)
  have wf: "\<forall>p. wfNet (wNet (snd (pfStart P ?w)) p)" by (rule assms(3)) (simp add: assms(5))
  from shutdown_clean [OF assms(1) wf sm] obtain pods where pods: "clListPodsByNode cl (rNodeName (wRec w')) = Inr pods"
    and clean: "\<forall>pod \<in> set pods. IsMultiNetworkpolicyTarget pod \<longrightarrow> podClean S (rHostPrefix (wRec w')) w' pod" by blast
  have "sameConfig ?r (wRec w')" using shutdown_config [OF assms(2) sm] by simp
  then have w': "rNodeName (wRec w') = cfgNodeName cfg" "rHostPrefix (wRec w') = cfgHostPrefix cfg"
    "rContainerRuntimeEndpoint (wRec w') = cfgContainerRuntimeEndpoint cfg"
    by (auto simp: sameConfig_def newReconciler_def)
  have "criOwn S (wRec (snd (pfStart P ?w)))" by (rule assms(4)) (simp add: criOwn_def newReconciler_def)
  with shutdown_clean [OF assms(1) wf sm] have own: "criOwn S (wRec w')" by blast
  have "\<exists>cri path. runtimeAt S (cfgContainerRuntimeEndpoint cfg) (cfgHostPrefix cfg) cri
      \<and> (\<exists>s \<in> set (podContainerStatuses pod). containerProc (sysJSON S) cri s path
           \<and> ((\<exists>t \<in> set (podContainerStatuses pod). csRunning t \<and> csContainerID t \<noteq> []) \<longrightarrow> csRunning s))
      \<and> noManaged (net' (netnsFile (cfgHostPrefix cfg) path))" if "podClean S (rHostPrefix (wRec w')) w' pod" for pod
  proof -
    from that obtain c path where c: "rCriClient (wRec w') = Some c" "noManaged (net' (netnsFile (cfgHostPrefix cfg) path))"
      and path: "GetPodNetNSPathWithContext (sysJSON S) (Some c) pod = Inr path"
      unfolding podClean_def net' w' by blast
    moreover have "runtimeAt S (cfgContainerRuntimeEndpoint cfg) (cfgHostPrefix cfg) c" using own c(1) unfolding criOwn_def w' by blast
    ultimately show ?thesis using netns_process [OF path] by blast
  qed
  then show ?thesis using cfg cl pods clean w'(1) by (intro exI [of _ cfg] exI [of _ cl] exI [of _ pods]) simp
qed

definition exPlatform :: platform where
  "exPlatform = \<lparr>pfHostname = Inr [], pfInClusterConfig = Inr (), pfKubeconfig = (\<lambda>k m. Inr ()), pfSetupScheme = Inr (),
     pfNewManager = (\<lambda>n. Inr exClient), pfSetupIndexes = Inr (), pfSetupReconciler = Inr (), pfNewClient = Inr exClient,
     pfStart = retM (), pfCanceled = False, pfCleanupCtx = (\<lambda>_. None)\<rparr>"

theorem run_ends_clean_witness:
  "\<exists>net' path. run exSys exPlatform exOptions (\<lambda>_. exRules) = (Inr (), net')
     \<and> containerProc exCodec (\<lambda>cid. Inr [(''info'', cid)]) \<lparr>csName = ''app'', csContainerID = ''cri://7'', csRunning = True\<rparr> path
     \<and> noManaged (net' (netnsFile [] path))"
proof -
  obtain cfg opts where cfg: "BuildReconcilerConfig (Inr []) exOptions = (Inr cfg, opts)" "cfgKubeconfig cfg = []"
    "cfgContainerRuntimeEndpoint cfg = ''/run/cri.sock''"
    using exOptions_config by blast
  obtain w' where "startManagerAndCleanup (retM ()) False (CleanupOnShutdown exSys (\<lambda>_. None) exClient)
      \<lparr>wRec = newReconciler exClient cfg, wNet = \<lambda>_. exRules\<rparr> = (Inr (), w')"
    using exShutdown_run [of "\<lparr>wRec = newReconciler exClient cfg, wNet = \<lambda>_. exRules\<rparr>"] cfg(3)
    by (auto simp: newReconciler_def)
  then have run: "run exSys exPlatform exOptions (\<lambda>_. exRules) = (Inr (), wNet (snd (onRec (CloseCRI exSys) w')))"
    by (simp add: run_def exPlatform_def cfg withReconciler_def run_simps)
  have hp: "cfgHostPrefix cfg = []"
    using cfg(1) unfolding BuildReconcilerConfig_def
    by (elim thenM_InrE wrapM_InrE bindM_InrE Validate_Inr) (auto simp: em_apply exOptions_def AddFlags_def NewOptions_def)
  have "\<exists>cfg cl pods. fst (BuildReconcilerConfig (pfHostname exPlatform) exOptions) = Inr cfg \<and> pfNewClient exPlatform = Inr cl
     \<and> clListPodsByNode cl (cfgNodeName cfg) = Inr pods
     \<and> (\<forall>pod \<in> set pods. IsMultiNetworkpolicyTarget pod \<longrightarrow>
          (\<exists>cri path. runtimeAt exSys (cfgContainerRuntimeEndpoint cfg) (cfgHostPrefix cfg) cri
             \<and> (\<exists>s \<in> set (podContainerStatuses pod). containerProc (sysJSON exSys) cri s path
                  \<and> ((\<exists>t \<in> set (podContainerStatuses pod). csRunning t \<and> csContainerID t \<noteq> []) \<longrightarrow> csRunning s))
             \<and> noManaged (wNet (snd (onRec (CloseCRI exSys) w')) (netnsFile (cfgHostPrefix cfg) path))))"
  proof (rule run_ends_clean [OF _ _ _ _ _ run])
    show "goodKernels (sysOS exSys)" by (simp add: goodKernels_def exSys_def exFlush_ok)
    show "keeps keepsConfig (pfStart exPlatform)" by (simp add: exPlatform_def config.keeps_ret)
    show "\<forall>p. wfNet exRules" using exFlush_ok by (simp add: wfNet_def)
  qed (simp_all add: exPlatform_def)
  moreover have "cri = (\<lambda>cid. Inr [(''info'', cid)])" if "runtimeAt exSys ep hp cri" for ep hp cri
    using that by (auto simp: runtimeAt_def exSys_def exDial_def)
  ultimately obtain path where "containerProc exCodec (\<lambda>cid. Inr [(''info'', cid)]) \<lparr>csName = ''app'', csContainerID = ''cri://7'', csRunning = True\<rparr> path"
    "noManaged (wNet (snd (onRec (CloseCRI exSys) w')) (netnsFile [] path))"
    using exPod_target cfg(1) hp by (auto simp: exPlatform_def exClient_def exSys_def exPod_def)
  with run show ?thesis by blast
qed

end
