(* ===== verification/System_Safety.thy ===== *)
theory System_Safety
  imports Isolation Daemon
begin

text \<open>
  What the daemon as a whole may do to the network namespaces of the node.  The reconciler relies on
  whatever applies the rules of a pod through a contract (\<open>rule_applier\<close>), which the implementations of
  both platforms keep; any sequence of reconciles, runtime lookups and shutdowns then leaves everything
  that is not the daemon's own as it was, in every namespace.
\<close>

section \<open>The contract of the appliers\<close>

definition netInv :: "netns_map \<Rightarrow> netns_map \<Rightarrow> bool" where
  "netInv net0 net \<longleftrightarrow> (\<forall>p. wfNet (net p) \<and> foreignParts (net p) = foreignParts (net0 p))"

text \<open>
  The kernel, as far as the program relies on it: a transaction that is accepted has its documented
  effect, and one that would leave a rule outside of any chain, a duplicate set and the like is not
  accepted.
\<close>

definition safeKernels :: "os_env \<Rightarrow> bool" where
  "safeKernels OS \<longleftrightarrow> (\<forall>p. kernelOK (osNft OS p) \<and> kernelKeeps wfNet (osNft OS p))"

lemma netInv_start: "\<forall>p. wfNet (net p) \<Longrightarrow> netInv net net"
  by (simp add: netInv_def)

lemma netInv_upd: "netInv net0 net \<Longrightarrow> wfNet rs \<Longrightarrow> foreignParts rs = foreignParts (net p) \<Longrightarrow> netInv net0 (net(p := rs))"
  by (simp add: netInv_def)

lemma spec_applyRules:
  assumes "safeKernels OS"
  shows "spec (netInv net0) (applyRulesForPod OS deps cfg policyMap pod podInfo hp) anyV"
proof (rule specI)
  fix net assume inv: "netInv net0 net"
  let ?p = "netnsFile hp (piNetNSPath podInfo)"
  let ?rs = "kernel (snd (ApplyPolicyRulesForPodAndFamily (osNft OS ?p) deps cfg policyMap pod (Some podInfo) (newConn (net ?p))))"
  have ok: "kernelOK (osNft OS ?p)" "kernelKeeps wfNet (osNft OS ?p)" "wfNet (net ?p)"
    using assms inv by (auto simp: safeKernels_def netInv_def)
  then have "wfNet ?rs" "foreignParts ?rs = foreignParts (net ?p)"
    using apply_wfNet [OF ok(1,2), of "newConn (net ?p)"] apply_foreign [OF ok(1), of "newConn (net ?p)"] by (auto simp: wfNet_def)
  with netInv_upd [OF inv] applyRulesForPod_cases [OF prod.collapse [symmetric], of OS deps cfg policyMap pod podInfo hp net] inv
  show "netInv net0 (snd (applyRulesForPod OS deps cfg policyMap pod podInfo hp net))
      \<and> (\<forall>x. fst (applyRulesForPod OS deps cfg policyMap pod podInfo hp net) = Inr x \<longrightarrow> anyV x)"
    by (auto simp: Let_def)
qed

lemma spec_flushRules:
  assumes "safeKernels OS"
  shows "spec (netInv net0) (flushRulesForPod OS path hp) anyV"
proof (rule specI)
  fix net assume inv: "netInv net0 net"
  let ?p = "netnsFile hp path"
  obtain r net' where run: "flushRulesForPod OS path hp net = (r, net')" by (cases "flushRulesForPod OS path hp net")
  have ok: "kernelOK (osNft OS ?p)" "wfNet (net ?p)" "wfRules (net ?p)"
    using assms inv by (auto simp: safeKernels_def netInv_def wfNet_def)
  have "netInv net0 net'"
    using flushRulesForPod_cases [OF run]
  proof
    assume "\<exists>c. flushTables (osNft OS ?p) (newConn (net ?p)) = (r, c) \<and> net' = net(?p := kernel c)"
    then obtain c where c: "flushTables (osNft OS ?p) (newConn (net ?p)) = (r, c)" "net' = net(?p := kernel c)" by blast
    from wfNet_flushTables [OF ok(1) _ _ c(1)] flushTables_foreign [OF ok(1), of "newConn (net ?p)"] c ok
    show ?thesis by (simp add: netInv_upd [OF inv])
  qed (use inv in simp)
  with run show "netInv net0 (snd (flushRulesForPod OS path hp net)) \<and> (\<forall>x. fst (flushRulesForPod OS path hp net) = Inr x \<longrightarrow> anyV x)"
    by simp
qed

section \<open>The reconciler over an applier\<close>

definition worldInv :: "apply_func option set \<Rightarrow> netns_map \<Rightarrow> world \<Rightarrow> bool" where
  "worldInv A net0 w \<longleftrightarrow> netInv net0 (wNet w) \<and> rApplyRulesForPodFunc (wRec w) \<in> A"

lemma spec_catch: "spec I m Q \<Longrightarrow> spec I (catchM m) anyV"
  by (simp add: spec_def triple_def catchM_apply)

lemma spec_onRec:
  assumes "\<And>r. sameConfig r (snd (m r))"
  shows "spec (worldInv A net0) (onRec m) anyV"
proof (rule specI)
  fix w assume "worldInv A net0 w"
  moreover obtain r rec where run: "m (wRec w) = (r, rec)" by (cases "m (wRec w)")
  moreover have "rApplyRulesForPodFunc rec = rApplyRulesForPodFunc (wRec w)"
    using assms [of "wRec w"] run by (auto simp: sameConfig_def)
  ultimately show "worldInv A net0 (snd (onRec m w)) \<and> (\<forall>x. fst (onRec m w) = Inr x \<longrightarrow> anyV x)"
    by (simp add: worldInv_def onRec_def)
qed

lemma spec_onNet: "spec (netInv net0) m Q \<Longrightarrow> spec (worldInv A net0) (onNet m) anyV"
proof (rule specI)
  fix w assume m: "spec (netInv net0) m Q" and w: "worldInv A net0 w"
  obtain r net where run: "m (wNet w) = (r, net)" by (cases "m (wNet w)")
  from specD [OF m _ this] w show "worldInv A net0 (snd (onNet m w)) \<and> (\<forall>x. fst (onNet m w) = Inr x \<longrightarrow> anyV x)"
    by (simp add: worldInv_def onNet_def run)
qed

locale rule_applier =
  fixes applier :: "os_env \<Rightarrow> apply_func"
  assumes applier_keeps: "safeKernels OS \<Longrightarrow> spec (netInv net0) (applier OS deps cfg policyMap pod podInfo hp) anyV"
begin

lemma spec_reconcilerApply:
  assumes "safeKernels (sysOS S)"
  shows "spec (worldInv {None, Some (applier (sysOS S))} net0) (reconcilerApply S policyMap pod podInfo) anyV"
  unfolding reconcilerApply_def Let_def
  by (rule spec_bind [OF spec_get])
    (auto simp: worldInv_def intro!: spec_onNet [OF applier_keeps] spec_onNet [OF spec_applyRules] assms)

lemma spec_Reconcile:
  assumes "safeKernels (sysOS S)"
  shows "spec (worldInv {None, Some (applier (sysOS S))} net0) (Reconcile S order n) anyV"
proof -
  have info: "spec (worldInv A net0) (onRec (depsGetPodInfo S pod)) anyV" for A pod
    by (rule spec_onRec)
      (auto simp: depsGetPodInfo_def run_simps sameConfig_refl sameConfig_GetPodInfo split: option.splits)
  have pod: "spec (worldInv {None, Some (applier (sysOS S))} net0) (reconcilePod S order pm acc pod) anyV" for pm acc pod
    unfolding reconcilePod_def
    by (rule spec_intros spec_catch [OF info] spec_catch [OF spec_reconcilerApply [OF assms]])+
  show ?thesis
    unfolding Reconcile_def Let_def
    by (rule spec_intros spec_any [OF spec_get] spec_fold [OF pod])+
qed

end

interpretation linux: rule_applier applyRulesForPod
  by unfold_locales (rule spec_applyRules)

interpretation other: rule_applier "\<lambda>OS deps cfg policyMap pod podInfo hp. applyRulesForPod_other"
  by unfold_locales (simp add: applyRulesForPod_other_def spec_throw)

section \<open>Shutdown\<close>

lemma spec_CleanupOnShutdown:
  assumes "safeKernels (sysOS S)"
  shows "spec (worldInv A net0) (CleanupOnShutdown S ctxErr cl) anyV"
proof -
  have "spec (worldInv A net0) (cleanupPods S ctxErr i pods cri errs) anyV" for i pods cri errs
  proof (induction pods arbitrary: i cri errs)
    case (Cons pod pods)
    show ?case
      unfolding cleanupPods.simps
      by (rule spec_intros Cons.IH spec_onRec sameConfig_cri spec_catch [OF spec_onNet [OF spec_flushRules [OF assms]]])+
  qed (simp add: spec_lift)
  then show ?thesis
    unfolding CleanupOnShutdown_def cleanupAllPods_def by - (rule spec_intros | assumption)+
qed

section \<open>The daemon as a state machine\<close>

text \<open>
  The steps of the running daemon.  Between two reconciles the API server may answer differently, so
  each reconcile sees its own client; the policy map is iterated in any order.
\<close>

inductive daemonStep :: "sys \<Rightarrow> world \<Rightarrow> world \<Rightarrow> bool" for S where
  reconcile: "Reconcile S order n (w\<lparr>wRec := (wRec w)\<lparr>rClient := cl\<rparr>\<rparr>) = (res, w') \<Longrightarrow> daemonStep S w w'"
| shutdown: "CleanupOnShutdown S ctxErr cl w = (res, w') \<Longrightarrow> daemonStep S w w'"
| closeRuntime: "onRec (CloseCRI S) w = (res, w') \<Longrightarrow> daemonStep S w w'"

lemma worldInv_client: "worldInv A net0 w \<Longrightarrow> worldInv A net0 (w\<lparr>wRec := (wRec w)\<lparr>rClient := cl\<rparr>\<rparr>)"
  by (simp add: worldInv_def)

lemma worldInv_close: "worldInv A net0 w \<Longrightarrow> worldInv A net0 (snd (onRec (CloseCRI S) w))"
  using CloseCRI_run [of S "wRec w"] by (cases "CloseCRI S (wRec w)") (simp add: worldInv_def onRec_def)

lemma worldInv_step:
  assumes "safeKernels (sysOS S)" "daemonStep S w w'" "worldInv {None, Some (applyRulesForPod (sysOS S))} net0 w"
  shows "worldInv {None, Some (applyRulesForPod (sysOS S))} net0 w'"
  using assms(2)
proof cases
  case (reconcile order n cl res)
  from specD [OF linux.spec_Reconcile [OF assms(1)] worldInv_client [OF assms(3)] this] show ?thesis ..
next
  case (shutdown ctxErr cl res)
  from specD [OF spec_CleanupOnShutdown [OF assms(1)] assms(3) this] show ?thesis ..
next
  case (closeRuntime res)
  with worldInv_close [OF assms(3), of S] show ?thesis by simp
qed

lemma worldInv_reachable:
  assumes "safeKernels (sysOS S)" "(daemonStep S)\<^sup>*\<^sup>* w w'" "worldInv {None, Some (applyRulesForPod (sysOS S))} net0 w"
  shows "worldInv {None, Some (applyRulesForPod (sysOS S))} net0 w'"
  using assms(2,3) by (induction rule: rtranclp_induct) (auto intro: worldInv_step [OF assms(1)])

text \<open>(C5)
  Isolation of the whole daemon: in every state that any sequence of reconciles (with any pods, policies
  and answers of the API server, failing or not), shutdowns and reconnections reaches, every network
  namespace of the node still has all tables, chains, sets and rules that are not the daemon's own, in
  order, and its ruleset is well-formed.
\<close>

theorem daemon_isolation:
  assumes "safeKernels (sysOS S)" "(daemonStep S)\<^sup>*\<^sup>* w w'" "rApplyRulesForPodFunc (wRec w) = None"
    and "\<forall>p. wfNet (wNet w p)"
  shows "foreignParts (wNet w' p) = foreignParts (wNet w p) \<and> wfNet (wNet w' p)"
proof -
  have "worldInv {None, Some (applyRulesForPod (sysOS S))} (wNet w) w"
    using assms(3,4) by (simp add: worldInv_def netInv_start)
  from worldInv_reachable [OF assms(1,2) this] show ?thesis by (simp add: worldInv_def netInv_def)
qed

text \<open>
  A kernel that checks what it accepts, for the examples: a transaction that would leave a well-formed
  ruleset ill-formed is refused.
\<close>

definition strictEnv :: "(gobval \<Rightarrow> byte list) \<Rightarrow> nft_env" where
  "strictEnv gob = (idealEnv gob)\<lparr>envCommit := (\<lambda>rs ms.
     if wfNet rs \<longrightarrow> wfNet (applyMsgs rs ms) then Inr (applyMsgs rs ms) else Inl ErrNotExist)\<rparr>"

definition exStrictSys :: sys where
  "exStrictSys = exSys\<lparr>sysOS := exOS\<lparr>osNft := (\<lambda>p. strictEnv (\<lambda>_. []))\<rparr>\<rparr>"

lemma exStrictSys_safe: "safeKernels (sysOS exStrictSys)"
  by (auto simp: safeKernels_def exStrictSys_def strictEnv_def kernelOK_def kernelKeeps_def split: if_splits)

definition exBusyWorld :: world where
  "exBusyWorld = \<lparr>wRec = exRec, wNet = (\<lambda>_. exRules)\<rparr>"

theorem daemon_isolation_witness:
  "\<exists>w'. (daemonStep exStrictSys)\<^sup>*\<^sup>* exBusyWorld w' \<and> (\<forall>p. exForeign \<in> set (ksTables (wNet w' p)))"
proof -
  let ?w1 = "snd (Reconcile exStrictSys (\<lambda>_ m. map snd m) ''node1'' exBusyWorld)"
  let ?w2 = "snd (CleanupOnShutdown exStrictSys (\<lambda>_. None) exClient ?w1)"
  have same: "exBusyWorld\<lparr>wRec := (wRec exBusyWorld)\<lparr>rClient := exClient\<rparr>\<rparr> = exBusyWorld"
    by (simp add: exBusyWorld_def exRec_def)
  have "daemonStep exStrictSys exBusyWorld ?w1"
    by (rule daemonStep.reconcile [where cl = exClient and n = "''node1''" and order = "\<lambda>_ m. map snd m"])
      (subst same, rule prod.collapse [symmetric])
  moreover have "daemonStep exStrictSys ?w1 ?w2"
    by (rule daemonStep.shutdown [where cl = exClient and ctxErr = "\<lambda>_. None"]) (rule prod.collapse [symmetric])
  ultimately have steps: "(daemonStep exStrictSys)\<^sup>*\<^sup>* exBusyWorld ?w2" by simp
  have "exForeign \<in> set (ksTables (wNet ?w2 p))" for p
    using daemon_isolation [OF exStrictSys_safe steps, of p] exFlush_ok
    by (intro exForeign_kept) (simp add: exBusyWorld_def exRec_def wfNet_def)
  with steps show ?thesis by blast
qed

section \<open>A run of the process\<close>

text \<open>What the manager does while it runs: it calls the reconciler.\<close>

definition managerRuns :: "sys \<Rightarrow> platform \<Rightarrow> bool" where
  "managerRuns S P \<longleftrightarrow> (\<forall>w. (daemonStep S)\<^sup>*\<^sup>* w (snd (pfStart P w)))"

lemma spec_start:
  assumes "safeKernels (sysOS S)" "managerRuns S P"
  shows "spec (worldInv {None, Some (applyRulesForPod (sysOS S))} net0)
     (startManagerAndCleanup (pfStart P) canceled (CleanupOnShutdown S ctxErr cl)) anyV"
proof -
  have "spec (worldInv {None, Some (applyRulesForPod (sysOS S))} net0) (pfStart P) anyV"
    by (rule specI) (use worldInv_reachable [OF assms(1)] assms(2) in \<open>auto simp: managerRuns_def\<close>)
  then show ?thesis
    unfolding startManagerAndCleanup_def
    by - (rule spec_intros spec_catch [OF spec_CleanupOnShutdown [OF assms(1)]] | erule spec_catch)+
qed

lemma spec_withReconciler:
  assumes "spec (worldInv A net0) m Q" "rApplyRulesForPodFunc r \<in> A"
  shows "spec (netInv net0) (withReconciler S r m) anyV"
proof (rule specI)
  fix net assume "netInv net0 net"
  then have inv: "worldInv A net0 \<lparr>wRec = r, wNet = net\<rparr>" using assms(2) by (simp add: worldInv_def)
  obtain res w where run: "m \<lparr>wRec = r, wNet = net\<rparr> = (res, w)" by (cases "m \<lparr>wRec = r, wNet = net\<rparr>")
  from worldInv_close [of A net0 w S] specD [OF assms(1) inv run] show
    "netInv net0 (snd (withReconciler S r m net)) \<and> (\<forall>x. fst (withReconciler S r m net) = Inr x \<longrightarrow> anyV x)"
    by (simp add: withReconciler_def run worldInv_def)
qed

text \<open>(C6)
  Whatever the configuration and however the process ends, by an error at any stage of the start, a
  crash of the manager, a failed or a complete shutdown: at exit every network namespace has all that
  is not the daemon's own, unchanged.
\<close>

theorem process_isolation:
  assumes "safeKernels (sysOS S)" "managerRuns S P" "\<forall>p. wfNet (net p)"
  shows "foreignParts (snd (main S P parseFlags net) p) = foreignParts (net p)"
proof -
  have safe: "spec (netInv net) (run S P opts) anyV" for opts
    unfolding run_def
    by (rule spec_intros spec_withReconciler spec_start assms | simp add: newReconciler_def)+
  have inv: "netInv net net'" if "run S P opts net = (r, net')" for opts r net'
    using specD [OF safe netInv_start [OF assms(3)] that] by blast
  show ?thesis
    by (auto simp: main_def netInv_def split: sum.splits prod.splits dest!: inv)
qed

text \<open>A manager that reconciles the node once and then ends.\<close>

definition exManager :: platform where
  "exManager = exPlatform\<lparr>pfStart := thenM (Reconcile exStrictSys (\<lambda>_ m. map snd m) ''node1'') (retM ())\<rparr>"

lemma exManager_runs: "managerRuns exStrictSys exManager"
  unfolding managerRuns_def
proof
  fix w :: world
  have "w\<lparr>wRec := (wRec w)\<lparr>rClient := rClient (wRec w)\<rparr>\<rparr> = w" by simp
  then have "daemonStep exStrictSys w (snd (Reconcile exStrictSys (\<lambda>_ m. map snd m) ''node1'' w))"
    by (metis daemonStep.reconcile prod.collapse)
  then show "(daemonStep exStrictSys)\<^sup>*\<^sup>* w (snd (pfStart exManager w))"
    by (cases "Reconcile exStrictSys (\<lambda>_ m. map snd m) ''node1'' w") (auto simp: exManager_def run_simps split: sum.splits)
qed

theorem process_isolation_witness:
  "\<forall>p. exForeign \<in> set (ksTables (snd (main exStrictSys exManager (\<lambda>_. Inr exOptions) (\<lambda>_. exRules)) p))"
  using process_isolation [OF exStrictSys_safe exManager_runs] exFlush_ok
  by (intro allI exForeign_kept) (simp add: wfNet_def)

end
