(* ===== verification/Packets.thy ===== *)
theory Packets
  imports Server
begin

text \<open>
  What nftables rules mean for a packet: the documented semantics of the expressions and verdicts the
  daemon uses.  A rule runs its expressions over a few registers until one breaks or gives a verdict;
  a chain runs its rules in order, and a jump returns to the rule after it.  The mark is the only
  part of the packet that rules change.
\<close>

section \<open>Packets and registers\<close>

record packet =
  pkIif :: "byte list"
  pkOif :: "byte list"
  pkNfproto :: byte
  pkL4proto :: byte
  pkNet :: "byte list"
  pkTrans :: "byte list"
  pkCt :: "32 word"

text \<open>The rules of the chains of one table, membership in its sets, and the byte order of the machine.\<close>

record fw =
  fwLittle :: bool
  fwChain :: "string \<Rightarrow> nft_expr list list"
  fwSet :: "string \<Rightarrow> byte list \<Rightarrow> bool"

type_synonym registers = "32 word \<Rightarrow> byte list"

definition nativeGetUint32 :: "bool \<Rightarrow> byte list \<Rightarrow> 32 word" where
  "nativeGetUint32 little bs = of_nat (beVal (if little then rev bs else bs))"

definition metaVal :: "bool \<Rightarrow> packet \<Rightarrow> 32 word \<Rightarrow> meta_key \<Rightarrow> byte list" where
  "metaVal little pk mk k =
     (case k of
        MetaKeyMARK \<Rightarrow> nativePutUint32 little mk
      | MetaKeyIIFNAME \<Rightarrow> pkIif pk
      | MetaKeyOIFNAME \<Rightarrow> pkOif pk
      | MetaKeyNFPROTO \<Rightarrow> [pkNfproto pk]
      | MetaKeyL4PROTO \<Rightarrow> [pkL4proto pk]
      | MetaKeyOther i \<Rightarrow> [])"

definition headerOf :: "packet \<Rightarrow> payload_base \<Rightarrow> byte list" where
  "headerOf pk base =
     (case base of
        PayloadBaseLLHeader \<Rightarrow> []
      | PayloadBaseNetworkHeader \<Rightarrow> pkNet pk
      | PayloadBaseTransportHeader \<Rightarrow> pkTrans pk)"

text \<open>The bytes a payload expression loads; a header that is too short breaks the rule.\<close>

definition payloadAt :: "packet \<Rightarrow> payload_base \<Rightarrow> 32 word \<Rightarrow> 32 word \<Rightarrow> byte list option" where
  "payloadAt pk base off len =
     (let hdr = headerOf pk base in
      if unat off + unat len \<le> length hdr then Some (take (unat len) (drop (unat off) hdr)) else None)"

definition bitwiseBytes :: "byte list \<Rightarrow> byte list \<Rightarrow> byte list \<Rightarrow> byte list" where
  "bitwiseBytes keep bits bs = map2 (\<lambda>x b. x XOR b) (map2 (\<lambda>b k. b AND k) bs keep) bits"

definition cmpHolds :: "cmp_op \<Rightarrow> byte list \<Rightarrow> byte list \<Rightarrow> bool" where
  "cmpHolds op reg data =
     (case op of
        CmpOpEq \<Rightarrow> take (length data) reg = data
      | CmpOpNeq \<Rightarrow> take (length data) reg \<noteq> data
      | CmpOpOther i \<Rightarrow> False)"

text \<open>The verdict of a rule, if it gives one, and the mark afterwards.\<close>

fun execExprs ::
  "fw \<Rightarrow> packet \<Rightarrow> nft_expr list \<Rightarrow> registers \<Rightarrow> 32 word \<Rightarrow> (verdict_kind \<times> string) option \<times> 32 word" where
  "execExprs F pk [] regs mk = (None, mk)"
| "execExprs F pk (Meta k False r # es) regs mk = execExprs F pk es (regs(r := metaVal (fwLittle F) pk mk k)) mk"
| "execExprs F pk (Meta k True r # es) regs mk =
     (if k = MetaKeyMARK then execExprs F pk es regs (nativeGetUint32 (fwLittle F) (regs r)) else (None, mk))"
| "execExprs F pk (Lookup s d isd i n neg # es) regs mk =
     (if isd \<or> fwSet F n (regs s) = neg then (None, mk) else execExprs F pk es regs mk)"
| "execExprs F pk (Verdict k c # es) regs mk = (Some (k, c), mk)"
| "execExprs F pk (Cmp op r data # es) regs mk =
     (if cmpHolds op (regs r) data then execExprs F pk es regs mk else (None, mk))"
| "execExprs F pk (Payload opn d s base off len a b c # es) regs mk =
     (if opn \<noteq> 0 then (None, mk)
      else case payloadAt pk base off len of
             None \<Rightarrow> (None, mk)
           | Some bs \<Rightarrow> execExprs F pk es (regs(d := bs)) mk)"
| "execExprs F pk (Ct r srcReg k dir isDir # es) regs mk =
     (if srcReg \<or> k \<noteq> CtKeySTATE then (None, mk)
      else execExprs F pk es (regs(r := nativePutUint32 (fwLittle F) (pkCt pk))) mk)"
| "execExprs F pk (Bitwise s d len keep bits # es) regs mk = execExprs F pk es (regs(d := bitwiseBytes keep bits (regs s))) mk"
| "execExprs F pk (Counter a b # es) regs mk = execExprs F pk es regs mk"
| "execExprs F pk (OtherExpr i # es) regs mk = (None, mk)"

definition execRule :: "fw \<Rightarrow> packet \<Rightarrow> nft_expr list \<Rightarrow> 32 word \<Rightarrow> (verdict_kind \<times> string) option \<times> 32 word" where
  "execRule F pk es mk = execExprs F pk es (\<lambda>_. []) mk"

section \<open>Chains\<close>

datatype outcome = Accepted | Dropped | Returned "32 word" | Ended "32 word"

text \<open>
  The first argument bounds the depth of nested jumps; the kernel refuses rulesets that nest deeper than
  16 (\<open>jumpStackSize\<close>).  A chain without a decision returned or reached its end, with the mark it left.
\<close>

definition jumpStackSize :: nat where
  "jumpStackSize = 16"

fun evalRules :: "nat \<Rightarrow> fw \<Rightarrow> packet \<Rightarrow> nft_expr list list \<Rightarrow> 32 word \<Rightarrow> outcome" where
  "evalRules d F pk [] mk = Ended mk"
| "evalRules d F pk (r # rs) mk =
     (case execRule F pk r mk of
        (None, mk') \<Rightarrow> evalRules d F pk rs mk'
      | (Some (k, c), mk') \<Rightarrow>
          (case k of
             VerdictAccept \<Rightarrow> Accepted
           | VerdictReturn \<Rightarrow> Returned mk'
           | VerdictContinue \<Rightarrow> evalRules d F pk rs mk'
           | VerdictJump \<Rightarrow>
               (case d of
                  0 \<Rightarrow> Dropped
                | Suc d' \<Rightarrow>
                    (case evalRules d' F pk (fwChain F c) mk' of
                       Returned mk'' \<Rightarrow> evalRules d F pk rs mk''
                     | Ended mk'' \<Rightarrow> evalRules d F pk rs mk''
                     | decided \<Rightarrow> decided))
           | _ \<Rightarrow> Dropped))"

text \<open>A base chain of the daemon has no policy of its own: what reaches its end is accepted.\<close>

definition hookVerdict :: "fw \<Rightarrow> packet \<Rightarrow> 32 word \<Rightarrow> string \<Rightarrow> bool" where
  "hookVerdict F pk mk base = (evalRules jumpStackSize F pk (fwChain F base) mk \<noteq> Dropped)"

section \<open>The rules a table of a ruleset has\<close>

definition setMember :: "nft_set \<times> set_element list \<Rightarrow> byte list \<Rightarrow> bool" where
  "setMember se key =
     (if sInterval (fst se) then covers (snd se) (beVal key) else (\<exists>e \<in> set (snd se). eKey e = key))"

definition fwOf :: "bool \<Rightarrow> table \<Rightarrow> ruleset \<Rightarrow> fw" where
  "fwOf little t rs =
     \<lparr>fwLittle = little,
      fwChain = (\<lambda>c. map rExprs (filter (inChain t c) (ksRules rs))),
      fwSet = (\<lambda>n key. case find (isSet t n) (ksSets rs) of None \<Rightarrow> False | Some se \<Rightarrow> setMember se key)\<rparr>"

section \<open>Running the expressions of the daemon\<close>

lemma evalRules_append:
  "evalRules d F pk (rs @ rs') mk =
     (case evalRules d F pk rs mk of Ended mk' \<Rightarrow> evalRules d F pk rs' mk' | decided \<Rightarrow> decided)"
  by (induction rs arbitrary: mk)
    (auto split: prod.splits option.splits verdict_kind.splits nat.splits outcome.splits)

text \<open>Marks go through the registers in the byte order of the machine.\<close>

lemma beBytes_4: "beBytes 4 (unat w) = map (\<lambda>k. ucast (drop_bit k w)) [24, 16, 8, 0]" for w :: "32 word"
proof -
  have part: "(of_nat (unat w div 2 ^ k mod 256) :: byte) = ucast (drop_bit k w)" for k
  proof -
    have "unat w div 2 ^ k = unat (drop_bit k w)"
      by (metis drop_bit_eq_div unsigned_drop_bit_eq drop_bit_nat_eq unat_drop_bit_eq)
    moreover have "(of_nat (x mod 256) :: byte) = of_nat x" for x :: nat
      by (simp only: word_of_nat_eq_iff take_bit_eq_mod) simp
    ultimately show ?thesis by simp
  qed
  have "beBytes 4 v = [of_nat (v div 2 ^ 24 mod 256), of_nat (v div 2 ^ 16 mod 256), of_nat (v div 2 ^ 8 mod 256),
      of_nat (v div 2 ^ 0 mod 256)]" for v :: nat
  proof -
    have "beBytes 4 v = beBytes (Suc (Suc (Suc (Suc 0)))) v" by (simp only: Suc_numeral One_nat_def [symmetric] Suc_1 add_num_simps)
    then show ?thesis by (simp add: div_mult2_eq [symmetric])
  qed
  then show ?thesis by (simp only: part list.map)
qed

lemma bytes_bitwise: "bitwiseBytes (nativePutUint32 l k) (nativePutUint32 l b) (nativePutUint32 l w) = nativePutUint32 l ((w AND k) XOR b)"
proof -
  have "ucast (drop_bit n ((w AND k) XOR b)) = (ucast (drop_bit n w) AND ucast (drop_bit n k) XOR ucast (drop_bit n b) :: byte)" for n
    by (rule bit_eqI) (simp add: bit_simps)
  then show ?thesis by (simp add: nativePutUint32_def beBytes_4 bitwiseBytes_def)
qed

lemma native_get_put [simp]: "nativeGetUint32 l (nativePutUint32 l w) = w"
proof -
  have "unat w < 256 ^ 4" using unsigned_less [of w, where 'a = nat] by simp
  then show ?thesis by (simp add: nativeGetUint32_def nativePutUint32_def beVal_beBytes)
qed

lemma nativePut_inj [simp]: "nativePutUint32 l v = nativePutUint32 l w \<longleftrightarrow> v = w"
  by (metis native_get_put)

text \<open>A lookup names its set; the ID it carries inside a transaction plays no role.\<close>

lemma execExprs_wire: "execExprs F pk (map wireExpr es) regs mk = execExprs F pk es regs mk"
proof (induction es arbitrary: regs mk)
  case (Cons e es)
  show ?case
  proof (cases e)
    case (Meta k b r)
    then show ?thesis by (cases b) (simp_all add: Cons.IH fun_upd_def)
  qed (simp_all add: Cons.IH fun_upd_def split: option.splits)
qed simp

lemma execRule_wire: "execRule F pk (map wireExpr es) = execRule F pk es"
  by (simp add: execRule_def execExprs_wire fun_eq_iff)

lemma set_mark_word: "((mk AND NOT m) XOR m) = mk OR m" for mk m :: "32 word"
  by (rule bit_eqI) (auto simp: bit_simps)

definition fullMark :: "32 word \<Rightarrow> bool" where
  "fullMark mk \<longleftrightarrow> mk AND matchRuleMark = matchRuleMark"

text \<open>Whether the destination port and the source or destination address of a packet are in a set.\<close>

definition portHit :: "fw \<Rightarrow> packet \<Rightarrow> byte list \<Rightarrow> string \<Rightarrow> bool" where
  "portHit F pk proto n \<longleftrightarrow> [pkL4proto pk] = proto
     \<and> (case payloadAt pk PayloadBaseTransportHeader 2 2 of None \<Rightarrow> False | Some bs \<Rightarrow> fwSet F n bs)"

definition addrHit :: "fw \<Rightarrow> packet \<Rightarrow> string \<Rightarrow> bool \<Rightarrow> string \<Rightarrow> bool" where
  "addrHit F pk chainName isV6 n \<longleftrightarrow> pkNfproto pk = nfProtocolOf isV6
     \<and> (case payloadAt pk PayloadBaseNetworkHeader (addrOffset chainName isV6) (addrLen isV6) of
          None \<Rightarrow> False | Some bs \<Rightarrow> fwSet F n bs)"

lemma exec_setMark:
  "fwLittle F = envLittle E \<Longrightarrow>
   execExprs F pk (setMarkExprs E m @ es) regs mk = execExprs F pk es (regs(1 := nativePutUint32 (envLittle E) (mk OR m))) (mk OR m)"
  by (simp add: setMarkExprs_def maskMark_def metaVal_def bytes_bitwise set_mark_word)

lemma exec_addrLookup:
  "addrHit F pk c v6 (sName s) \<Longrightarrow> \<exists>regs'. execExprs F pk (addrLookup c v6 s @ es) regs mk = execExprs F pk es regs' mk"
  "\<not> addrHit F pk c v6 (sName s) \<Longrightarrow> execExprs F pk (addrLookup c v6 s @ es) regs mk = (None, mk)"
  by (auto simp: addrHit_def addrLookup_def matchProto_def cmpEq_def cmpHolds_def metaVal_def split: option.splits)

lemma exec_reset:
  "fwLittle F = envLittle E \<Longrightarrow>
   execRule F pk [metaLoad MetaKeyMARK, maskMark E (NOT matchRuleMark) zeroRuleMark, metaStore MetaKeyMARK, zeroCounter] mk
     = (None, mk AND NOT matchRuleMark)"
  by (simp add: execRule_def maskMark_def metaVal_def bytes_bitwise zeroRuleMark_def)

lemma exec_check:
  "fwLittle F = envLittle E \<Longrightarrow>
   execRule F pk (checkMarkExprs E) mk = (if fullMark mk then Some (VerdictReturn, []) else None, mk)"
  by (auto simp: execRule_def checkMarkExprs_def maskMark_def metaVal_def bytes_bitwise zeroRuleMark_def cmpEq_def
      cmpHolds_def fullMark_def)

lemma exec_markAll:
  "fwLittle F = envLittle E \<Longrightarrow> execRule F pk (zeroCounter # setMarkExprs E m) mk = (None, mk OR m)"
  using exec_setMark [of F E pk m "[]"] by (simp add: execRule_def)

lemma exec_port:
  "fwLittle F = envLittle E \<Longrightarrow>
   execRule F pk ([metaLoad MetaKeyL4PROTO, cmpEq [p], payloadLoad PayloadBaseTransportHeader 2 2,
        lookupSet n i, zeroCounter] @ setMarkExprs E m) mk
     = (None, if portHit F pk [p] n then mk OR m else mk)"
  using exec_setMark [of F E pk m "[]"]
  by (auto simp: execRule_def portHit_def cmpEq_def cmpHolds_def metaVal_def split: option.splits)

lemma exec_addr:
  "execRule F pk (addrLookup c v6 s @ [zeroCounter, Verdict k []]) mk
     = (if addrHit F pk c v6 (sName s) then Some (k, []) else None, mk)"
  using exec_addrLookup [of F pk c v6 s] by (auto simp: execRule_def) (metis execExprs.simps(5,10))

lemma exec_addr_mark:
  assumes "fwLittle F = envLittle E"
  shows "execRule F pk (addrLookup c v6 s @ setMarkExprs E m @ [zeroCounter, Verdict k []]) mk
     = (if addrHit F pk c v6 (sName s) then (Some (k, []), mk OR m) else (None, mk))"
proof (cases "addrHit F pk c v6 (sName s)")
  case True
  then obtain regs where "execRule F pk (addrLookup c v6 s @ setMarkExprs E m @ [zeroCounter, Verdict k []]) mk
      = execExprs F pk (setMarkExprs E m @ [zeroCounter, Verdict k []]) regs mk"
    using exec_addrLookup(1) unfolding execRule_def by blast
  with True show ?thesis by (simp add: exec_setMark [OF assms])
qed (simp add: execRule_def exec_addrLookup(2))

lemma exec_jump: "execRule F pk (jumpTo c) mk = (Some (VerdictJump, c), mk)"
  by (simp add: execRule_def jumpTo_def)

lemma exec_entry:
  "execRule F pk (entryExprs key s (Verdict k c)) mk
     = (if fwSet F (sName s) (metaVal (fwLittle F) pk mk key) then Some (k, c) else None, mk)"
  by (simp add: execRule_def entryExprs_def)

lemma exec_iface:
  "execRule F pk ([metaLoad key, cmpEq data] @ jumpTo c) mk
     = (if take (length data) (metaVal (fwLittle F) pk mk key) = data then Some (VerdictJump, c) else None, mk)"
  by (simp add: execRule_def jumpTo_def cmpEq_def cmpHolds_def)

lemmas exec_rules = exec_reset exec_check exec_markAll exec_port exec_addr exec_addr_mark exec_jump exec_entry exec_iface

end
