(* ===== verification/Emission.thy ===== *)
theory Emission
  imports Packets Isolation
begin

text \<open>
  What the rule generator writes.  In a network namespace that has no rules and sets of the filter
  table yet, a successful run of a generator function changes the pending ruleset by a list of
  operations that can be computed from its arguments alone: the rules appended to and inserted into
  chains, and the elements of sets.  The functions \<open>...Ops\<close> compute these lists, and every function of
  the generator is shown to write its list.
\<close>

section \<open>The view of a ruleset and its operations\<close>

record view =
  vChain :: "string \<Rightarrow> nft_expr list list"
  vSet :: "string \<Rightarrow> (bool \<times> set_element list) option"

definition viewOf :: "table \<Rightarrow> ruleset \<Rightarrow> view" where
  "viewOf t rs =
     \<lparr>vChain = (\<lambda>c. map rExprs (filter (inChain t c) (ksRules rs))),
      vSet = (\<lambda>n. map_option (\<lambda>se. (sInterval (fst se), snd se)) (find (isSet t n) (ksSets rs)))\<rparr>"

datatype gop =
    AddR string "nft_expr list"
  | InsR string "nft_expr list"
  | SetE string bool "set_element list"

fun applyOp :: "gop \<Rightarrow> view \<Rightarrow> view" where
  "applyOp (AddR c es) v = v\<lparr>vChain := (vChain v)(c := vChain v c @ [es])\<rparr>"
| "applyOp (InsR c es) v = v\<lparr>vChain := (vChain v)(c := es # vChain v c)\<rparr>"
| "applyOp (SetE n iv els) v =
     v\<lparr>vSet := (vSet v)(n := Some (case vSet v n of None \<Rightarrow> (iv, addElems [] els) | Some (b, old) \<Rightarrow> (b, addElems old els)))\<rparr>"

definition applyOps :: "gop list \<Rightarrow> view \<Rightarrow> view" where
  "applyOps ops v = fold applyOp ops v"

lemma applyOps_simps [simp]:
  "applyOps [] v = v" "applyOps (op # ops) v = applyOps ops (applyOp op v)"
  "applyOps (ops @ ops') v = applyOps ops' (applyOps ops v)"
  by (simp_all add: applyOps_def)

lemma viewOf_ext:
  assumes "\<And>c. map rExprs (filter (inChain t c) (ksRules rs)) = vChain v c"
    and "\<And>n. map_option (\<lambda>se. (sInterval (fst se), snd se)) (find (isSet t n) (ksSets rs)) = vSet v n"
  shows "viewOf t rs = v"
  using assms by (simp add: viewOf_def)

lemma find_append: "find P (xs @ ys) = (case find P xs of None \<Rightarrow> find P ys | Some x \<Rightarrow> Some x)"
  by (induction xs) auto

lemma sameTable_refl [simp]: "sameTable t t"
  by (simp add: sameTable_def)

lemma view_NewRule:
  assumes "sameTable (rTable r) t"
  shows "viewOf t (applyMsg rs (MsgNewRule OperationAdd r)) = applyOp (AddR (rChain r) (map wireExpr (rExprs r))) (viewOf t rs)"
    and "viewOf t (applyMsg rs (MsgNewRule OperationInsert r)) = applyOp (InsR (rChain r) (map wireExpr (rExprs r))) (viewOf t rs)"
  using assms by (auto simp: viewOf_def wireRule_def inChain_def)

lemma view_otherRule:
  assumes "\<not> sameTable (rTable r) t" "op \<noteq> OperationReplace"
  shows "viewOf t (applyMsg rs (MsgNewRule op r)) = viewOf t rs"
  using assms by (cases op) (auto simp: viewOf_def wireRule_def inChain_def)

lemma view_neutral:
  "viewOf t (applyMsg rs (MsgNewTable t')) = viewOf t rs" "viewOf t (applyMsg rs (MsgNewChain c)) = viewOf t rs"
  by (auto simp: viewOf_def)

lemma find_none_other:
  "\<not> sameTable (sTable s) t \<Longrightarrow> find (isSet t n) (ss @ [(s, es)]) = find (isSet t n) ss"
  by (simp add: find_append isSet_def split: option.splits)

lemma find_updElems_at:
  "find (isSet t n) (updElems s f ss) =
     map_option (\<lambda>se. if isSet (sTable s) (sName s) se then (fst se, f (snd se)) else se) (find (isSet t n) ss)"
  by (induction ss) (auto simp: updElems_def isSet_def)

lemma view_otherSet:
  assumes "\<not> sameTable (sTable s) t"
  shows "viewOf t (applyMsg rs (MsgNewSet s)) = viewOf t rs" "viewOf t (applyMsg rs (MsgNewSetElem s es)) = viewOf t rs"
proof -
  have "find (isSet t n) (updElems s f ss) = find (isSet t n) ss" for n f ss
    using assms by (induction ss) (auto simp: updElems_def isSet_def sameTable_def)
  then show "viewOf t (applyMsg rs (MsgNewSetElem s es)) = viewOf t rs" by (simp add: viewOf_def)
  show "viewOf t (applyMsg rs (MsgNewSet s)) = viewOf t rs"
    using assms find_none_other [of "s\<lparr>sID := 0\<rparr>" t] by (simp add: viewOf_def)
qed

lemma view_NewSet:
  assumes "sameTable (sTable s) t"
  shows "viewOf t (applyMsg rs (MsgNewSet s)) = applyOp (SetE (sName s) (sInterval s) []) (viewOf t rs)"
    and "viewOf t (applyMsg (applyMsg rs (MsgNewSet s)) (MsgNewSetElem s es)) = applyOp (SetE (sName s) (sInterval s) es) (viewOf t rs)"
proof -
  have same: "isSet (sTable s) n = isSet t n" for n using assms by (auto simp: isSet_def sameTable_def fun_eq_iff)
  have new: "isSet t n (s\<lparr>sID := 0\<rparr>, []) \<longleftrightarrow> n = sName s" for n using assms by (auto simp: isSet_def)
  have none: "find (isSet t n) ss = None \<longleftrightarrow> \<not> list_ex (isSet t n) ss" for n ss
    by (auto simp: find_None_iff list_ex_iff)
  have other: "isSet t (sName s) x \<Longrightarrow> isSet t n x \<Longrightarrow> n = sName s" for n x by (simp add: isSet_def)
  have ss: "find (isSet t n) (ksSets (applyMsg rs (MsgNewSet s))) =
      (case find (isSet t n) (ksSets rs) of None \<Rightarrow> if n = sName s then Some (s\<lparr>sID := 0\<rparr>, []) else None | Some x \<Rightarrow> Some x)" for n
    using none [of n "ksSets rs"] by (auto simp: same find_append new split: option.splits)
  then show "viewOf t (applyMsg rs (MsgNewSet s)) = applyOp (SetE (sName s) (sInterval s) []) (viewOf t rs)"
    by (auto simp: viewOf_def fun_eq_iff split: option.splits prod.splits)
  have upd: "find (isSet t n) (updElems s (\<lambda>old. addElems old es) xs)
      = (if n = sName s then map_option (\<lambda>se. (fst se, addElems (snd se) es)) (find (isSet t n) xs) else find (isSet t n) xs)" for n xs
    unfolding find_updElems_at same by (cases "find (isSet t n) xs") (auto dest: find_SomeD simp: isSet_def)
  have rules: "ksRules (applyMsg (applyMsg rs (MsgNewSet s)) (MsgNewSetElem s es)) = ksRules rs"
    "ksSets (applyMsg (applyMsg rs (MsgNewSet s)) (MsgNewSetElem s es))
      = updElems s (\<lambda>old. addElems old es) (ksSets (applyMsg rs (MsgNewSet s)))" by simp_all
  show "viewOf t (applyMsg (applyMsg rs (MsgNewSet s)) (MsgNewSetElem s es)) = applyOp (SetE (sName s) (sInterval s) es) (viewOf t rs)"
    unfolding viewOf_def rules upd ss by (auto simp: fun_eq_iff split: option.splits)
qed

section \<open>Running the generator in a fresh namespace\<close>

definition freshK :: "ruleset \<Rightarrow> bool" where
  "freshK rs \<longleftrightarrow> (\<forall>r \<in> set (ksRules rs). \<not> managedTable (rTable r)) \<and> (\<forall>s \<in> set (ksSets rs). \<not> managedTable (sTable (fst s)))"

definition pend :: "nftState \<Rightarrow> ruleset" where
  "pend n = applyMsgs (kernel (nft n)) (messages (nft n))"

text \<open>
  \<open>emits t P m Q v\<close>: from a state with the view \<open>v\<close> a successful run of \<open>m\<close> ends in a view and with a
  result that satisfy \<open>Q\<close>; \<open>P\<close> is what the run knows of the fixed parts of the state.
\<close>

definition emits ::
  "table \<Rightarrow> (nftState \<Rightarrow> bool) \<Rightarrow> (nftState, 'a) em \<Rightarrow> ('a \<Rightarrow> view \<Rightarrow> bool) \<Rightarrow> view \<Rightarrow> bool" where
  "emits t P m Q v \<longleftrightarrow> (\<forall>n x n'. P n \<longrightarrow> freshK (kernel (nft n)) \<longrightarrow> viewOf t (pend n) = v \<longrightarrow> m n = (Inr x, n') \<longrightarrow>
     P n' \<and> freshK (kernel (nft n')) \<and> Q x (viewOf t (pend n')))"

named_theorems emit_intros \<open>rules that compute what a generator function writes\<close>

lemma emitsI:
  "(\<And>n x n'. P n \<Longrightarrow> freshK (kernel (nft n)) \<Longrightarrow> viewOf t (pend n) = v \<Longrightarrow> m n = (Inr x, n') \<Longrightarrow>
     P n' \<and> freshK (kernel (nft n')) \<and> Q x (viewOf t (pend n'))) \<Longrightarrow> emits t P m Q v"
  unfolding emits_def by blast

lemma emits_ret [emit_intros]: "Q x v \<Longrightarrow> emits t P (retM x) Q v"
  by (auto simp: emits_def em_apply)

lemma emits_throw [emit_intros]: "emits t P (throwM e) Q v"
  by (auto simp: emits_def em_apply)

lemma emits_lift [emit_intros]: "(\<And>x. r = Inr x \<Longrightarrow> Q x v) \<Longrightarrow> emits t P (liftR r) Q v"
  by (auto simp: emits_def em_apply)

lemma emits_get [emit_intros]: "(\<And>n. P n \<Longrightarrow> Q n v) \<Longrightarrow> emits t P getM Q v"
  by (auto simp: emits_def em_apply)

lemma emitsD:
  "emits t P m Q v \<Longrightarrow> P n \<Longrightarrow> freshK (kernel (nft n)) \<Longrightarrow> viewOf t (pend n) = v \<Longrightarrow> m n = (Inr x, n') \<Longrightarrow>
   P n' \<and> freshK (kernel (nft n')) \<and> Q x (viewOf t (pend n'))"
  unfolding emits_def by blast

lemma emits_bind [emit_intros]:
  assumes "emits t P m (\<lambda>x. emits t P (f x) Q) v"
  shows "emits t P (bindM m f) Q v"
proof (rule emitsI)
  fix n y n'' assume n: "P n" "freshK (kernel (nft n))" "viewOf t (pend n) = v" "bindM m f n = (Inr y, n'')"
  from n(4) obtain x n' where m: "m n = (Inr x, n')" and f: "f x n' = (Inr y, n'')" by (rule bindM_InrE)
  from emitsD [OF assms n(1-3) m] have "P n'" "freshK (kernel (nft n'))" "emits t P (f x) Q (viewOf t (pend n'))" by auto
  from emitsD [OF this(3,1,2) refl f] show "P n'' \<and> freshK (kernel (nft n'')) \<and> Q y (viewOf t (pend n''))" .
qed

lemma emits_then [emit_intros]: "emits t P m (\<lambda>_. emits t P m' Q) v \<Longrightarrow> emits t P (thenM m m') Q v"
  unfolding thenM_def by (rule emits_bind)

lemma emits_wrap [emit_intros]: "emits t P m Q v \<Longrightarrow> emits t P (wrapM msg m) Q v"
  by (rule emitsI, erule wrapM_InrE) (rule emitsD)

lemma emits_when [emit_intros]: "(b \<Longrightarrow> emits t P m Q v) \<Longrightarrow> (\<not> b \<Longrightarrow> Q () v) \<Longrightarrow> emits t P (whenM b m) Q v"
  by (cases b) (simp_all add: emits_ret)

lemma emits_splits [emit_intros]:
  "(\<And>a b. p = (a, b) \<Longrightarrow> emits t P (f a b) Q v) \<Longrightarrow> emits t P (case p of (a, b) \<Rightarrow> f a b) Q v"
  "(c \<Longrightarrow> emits t P m Q v) \<Longrightarrow> (\<not> c \<Longrightarrow> emits t P m' Q v) \<Longrightarrow> emits t P (if c then m else m') Q v"
  "(\<And>x. z = Some x \<Longrightarrow> emits t P (g x) Q v) \<Longrightarrow> (z = None \<Longrightarrow> emits t P h Q v) \<Longrightarrow>
   emits t P (case z of None \<Rightarrow> h | Some x \<Rightarrow> g x) Q v"
  "(ys = [] \<Longrightarrow> emits t P m Q v) \<Longrightarrow> (\<And>y ys'. ys = y # ys' \<Longrightarrow> emits t P (k y ys') Q v) \<Longrightarrow>
   emits t P (case ys of [] \<Rightarrow> m | y # ys' \<Rightarrow> k y ys') Q v"
  by (auto split: prod.splits option.splits list.splits)

lemma emits_for:
  assumes "\<And>x Q v. x \<in> set xs \<Longrightarrow> Q () (applyOps (g x) v) \<Longrightarrow> emits t P (f x) Q v"
  shows "Q () (applyOps (concat (map g xs)) v) \<Longrightarrow> emits t P (forM xs f) Q v"
  using assms
proof (induction xs arbitrary: v)
  case (Cons x xs)
  then have "emits t P (f x) (\<lambda>_. emits t P (forM xs f) Q) v" by (intro Cons.prems(2)) auto
  then show ?case by (simp add: emits_then)
qed (simp add: emits_ret)

section \<open>Rules, sets and chains\<close>

text \<open>Facts about the state that the bookkeeping does not touch.\<close>

definition cfgOnly :: "(nftState \<Rightarrow> bool) \<Rightarrow> bool" where
  "cfgOnly P \<longleftrightarrow> (\<forall>n c rs ss cs. P n \<longrightarrow> P (n\<lparr>nft := c, nRules := rs, nSets := ss, nChains := cs\<rparr>))"

lemma cfgOnlyD:
  assumes "cfgOnly P" "P n"
  shows "P (n\<lparr>nft := c\<rparr>)" "P (n\<lparr>nft := c, nRules := rs\<rparr>)" "P (n\<lparr>nft := c, nSets := ss\<rparr>)" "P (n\<lparr>nft := c, nChains := cs\<rparr>)"
    "P (n\<lparr>nRules := rs\<rparr>)" "P (n\<lparr>nSets := ss\<rparr>)" "P (n\<lparr>nChains := cs\<rparr>)"
proof -
  have *: "P (n\<lparr>nft := c, nRules := rs, nSets := ss, nChains := cs\<rparr>)" for c rs ss cs
    using assms unfolding cfgOnly_def by blast
  show "P (n\<lparr>nft := c\<rparr>)" using * [where c = c and rs = "nRules n" and ss = "nSets n" and cs = "nChains n"] by simp
  show "P (n\<lparr>nft := c, nRules := rs\<rparr>)" using * [where c = c and rs = rs and ss = "nSets n" and cs = "nChains n"] by simp
  show "P (n\<lparr>nft := c, nSets := ss\<rparr>)" using * [where c = c and rs = "nRules n" and ss = ss and cs = "nChains n"] by simp
  show "P (n\<lparr>nft := c, nChains := cs\<rparr>)" using * [where c = c and rs = "nRules n" and ss = "nSets n" and cs = cs] by simp
  show "P (n\<lparr>nRules := rs\<rparr>)" using * [where c = "nft n" and rs = rs and ss = "nSets n" and cs = "nChains n"] by simp
  show "P (n\<lparr>nSets := ss\<rparr>)" using * [where c = "nft n" and rs = "nRules n" and ss = ss and cs = "nChains n"] by simp
  show "P (n\<lparr>nChains := cs\<rparr>)" using * [where c = "nft n" and rs = "nRules n" and ss = "nSets n" and cs = cs] by simp
qed

lemma fresh_rules: "freshK rs \<Longrightarrow> managedTable t \<Longrightarrow> filter (inChain t c) (ksRules rs) = []"
  by (auto simp: freshK_def filter_empty_conv inChain_def dest: managed_same)

lemma fresh_sets: "freshK rs \<Longrightarrow> managedTable t \<Longrightarrow> find (isSet t c) (ksSets rs) = None"
  by (force simp: freshK_def find_None_iff isSet_def dest: managed_same)

lemma updateRule_fresh:
  assumes "freshK (kernel (nft n))" "managedTable (rTable r)" "\<And>c. action r c = connNewRule r op c" "rHandle r = 0"
    and "updateRule E r action force n = (Inr x, n')"
  shows "x \<and> (\<exists>i rs. n' = n\<lparr>nft := (nft n)\<lparr>lastID := i, messages := messages (nft n) @ [MsgNewRule op (r\<lparr>rID := i\<rparr>)]\<rparr>, nRules := rs\<rparr>)"
proof -
  have none: "y = None \<and> n1 = n" if "findRule E r n = (Inr y, n1)" for y n1
    using that fresh_rules [OF assms(1,2), of "rChain r"]
    by (auto simp: findRule_def run_simps onConn_apply GetRules_def readM_apply Let_def split: option.splits)
  have new: "\<exists>i. onConn (action r) n = (Inr (r\<lparr>rID := i\<rparr>),
      n\<lparr>nft := (nft n)\<lparr>lastID := i, messages := messages (nft n) @ [MsgNewRule op (r\<lparr>rID := i\<rparr>)]\<rparr>\<rparr>)"
    using assms(3,4)
    by (auto simp: onConn_apply connNewRule_def run_simps allocateTransactionID_def queueMsg_apply Let_def)
  from assms(5) show ?thesis
    unfolding updateRule_def
  proof (elim bindM_InrE wrapM_InrE)
    fix cm n0 y n1
    assume cm: "liftR (udGetString (rUserData r) TypeComment) n = (Inr cm, n0)" and f: "findRule E r n0 = (Inr y, n1)"
      and rest: "(case y of Some r0 \<Rightarrow>
           (if \<not> force then thenM (recordRule E r0) (retM False)
            else
              thenM (wrapM ''failed to delete existing rule'' (onConn (connDelRule r0)))
                (bindM (onConn (action (r\<lparr>rExprs := copyCounter (rExprs r0) (rExprs r)\<rparr>)))
                  (\<lambda>r1. thenM (recordRule E r1) (retM False))))
       | None \<Rightarrow> bindM (onConn (action r)) (\<lambda>r1. thenM (recordRule E r1) (retM True))) n1 = (Inr x, n')"
    from cm have "n0 = n" by (simp add: em_apply)
    with none f have y: "y = None" "n1 = n" by auto
    obtain i where i: "onConn (action r) n = (Inr (r\<lparr>rID := i\<rparr>),
      n\<lparr>nft := (nft n)\<lparr>lastID := i, messages := messages (nft n) @ [MsgNewRule op (r\<lparr>rID := i\<rparr>)]\<rparr>\<rparr>)" using new by blast
    with rest y show ?thesis
      by (auto simp: recordRule_def run_simps split: sum.splits)
  qed
qed

lemma pend_snoc: "pend (n\<lparr>nft := (nft n)\<lparr>lastID := i, messages := messages (nft n) @ [m]\<rparr>, nRules := rs\<rparr>) = applyMsg (pend n) m"
  by (simp add: pend_def applyMsgs_def)

lemma emits_updateRule:
  assumes "cfgOnly P" "managedTable (rTable r)" "rHandle r = 0"
  shows "Q True (if sameTable (rTable r) t then applyOp (AddR (rChain r) (map wireExpr (rExprs r))) v else v)
      \<Longrightarrow> emits t P (updateRule E r connAddRule force) Q v"
    and "Q True (if sameTable (rTable r) t then applyOp (InsR (rChain r) (map wireExpr (rExprs r))) v else v)
      \<Longrightarrow> emits t P (updateRule E r connInsertRule force) Q v"
proof -
  have ops: "connAddRule r c = connNewRule r OperationAdd c" "connInsertRule r c = connNewRule r OperationInsert c" for c
    using assms(3) by (simp_all add: connAddRule_def connInsertRule_def)
  show "emits t P (updateRule E r connAddRule force) Q v"
    if Q: "Q True (if sameTable (rTable r) t then applyOp (AddR (rChain r) (map wireExpr (rExprs r))) v else v)"
  proof (rule emitsI)
    fix n x n' assume n: "P n" "freshK (kernel (nft n))" "viewOf t (pend n) = v" "updateRule E r connAddRule force n = (Inr x, n')"
    from updateRule_fresh [OF n(2) assms(2) ops(1) assms(3) n(4)] Q n(1-3)
    show "P n' \<and> freshK (kernel (nft n')) \<and> Q x (viewOf t (pend n'))"
      by (auto simp: pend_snoc view_NewRule(1) view_otherRule cfgOnlyD [OF assms(1)] simp del: applyMsg.simps split: if_splits)
  qed
  show "emits t P (updateRule E r connInsertRule force) Q v"
    if Q: "Q True (if sameTable (rTable r) t then applyOp (InsR (rChain r) (map wireExpr (rExprs r))) v else v)"
  proof (rule emitsI)
    fix n x n' assume n: "P n" "freshK (kernel (nft n))" "viewOf t (pend n) = v" "updateRule E r connInsertRule force n = (Inr x, n')"
    from updateRule_fresh [OF n(2) assms(2) ops(2) assms(3) n(4)] Q n(1-3)
    show "P n' \<and> freshK (kernel (nft n')) \<and> Q x (viewOf t (pend n'))"
      by (auto simp: pend_snoc view_NewRule(2) view_otherRule cfgOnlyD [OF assms(1)] simp del: applyMsg.simps split: if_splits)
  qed
qed

lemma sameTable_eq [simp]: "sameTable a b \<longleftrightarrow> a = b"
  by (cases a; cases b) (simp add: sameTable_def)

lemma connAddSet_run:
  assumes "\<not> sAnonymous s"
  shows "\<exists>i j. connAddSet s els c = (Inr (s\<lparr>sID := i\<rparr>), c\<lparr>lastID := j, messages := messages c @ MsgNewSet (s\<lparr>sID := i\<rparr>)
      # (if els = [] then [] else [MsgNewSetElem (s\<lparr>sID := i\<rparr>) els])\<rparr>)"
proof (cases "sID s = 0")
  case True
  then show ?thesis
    using assms by (auto simp: connAddSet_def run_simps allocateTransactionID_def appendElemList_def queueMsg_apply Let_def)
next
  case False
  have "s\<lparr>sID := sID s\<rparr> = s" "c\<lparr>lastID := lastID c\<rparr> = c" by simp_all
  then show ?thesis
    using assms False
    by (intro exI [of _ "sID s"] exI [of _ "lastID c"]) (simp add: connAddSet_def run_simps appendElemList_def queueMsg_apply)
qed

lemma updateSet_fresh:
  assumes "freshK (kernel (nft n))" "managedTable (sTable s)" "\<not> sAnonymous s" "updateSet E s els n = (Inr s', n')"
  shows "\<exists>i j ss. s' = s\<lparr>sName := shortName (sName s), sID := i\<rparr>
     \<and> n' = n\<lparr>nft := (nft n)\<lparr>lastID := j, messages := messages (nft n) @ MsgNewSet s' # (if els = [] then [] else [MsgNewSetElem s' els])\<rparr>,
              nSets := ss\<rparr>"
proof -
  let ?s = "s\<lparr>sName := shortName (sName s)\<rparr>"
  obtain i j where add: "onConn (connAddSet ?s els) n = (Inr (?s\<lparr>sID := i\<rparr>), n\<lparr>nft := (nft n)\<lparr>lastID := j, messages := messages (nft n)
      @ MsgNewSet (?s\<lparr>sID := i\<rparr>) # (if els = [] then [] else [MsgNewSetElem (?s\<lparr>sID := i\<rparr>) els])\<rparr>\<rparr>)"
    using connAddSet_run [of ?s els "nft n"] assms(3) by (auto simp: onConn_apply)
  have get: "\<exists>e. onConn (GetSetByName E (sTable ?s) (sName ?s)) n = (Inl e, n)"
    using fresh_sets [OF assms(1), of "sTable ?s"] assms(2)
    by (auto simp: onConn_apply GetSetByName_def readM_apply split: option.splits)
  from get obtain e where e: "onConn (GetSetByName E (sTable ?s) (sName ?s)) n = (Inl e, n)" by blast
  have run: "(if \<not> errorsIs e ErrNotExist then throwM (ErrWrap ''failed to get set'' e)
       else bindM (wrapM ''failed to add set'' (onConn (connAddSet ?s els))) (\<lambda>s1.
              thenM (recordSet (setKey (sTable ?s) (sName ?s)) s1) (retM s1))) n = (Inr s', n')"
    using assms(4) e unfolding updateSet_def Let_def by (simp add: run_simps)
  with add show ?thesis by (auto simp: run_simps recordSet_def split: if_splits)
qed

lemma pend_snocs:
  "pend (n\<lparr>nft := (nft n)\<lparr>lastID := i, messages := messages (nft n) @ ms\<rparr>, nSets := ss\<rparr>) = applyMsgs (pend n) ms"
  by (simp add: pend_def applyMsgs_append)

lemma emits_updateSet:
  assumes "cfgOnly P" "managedTable (sTable s)" "\<not> sAnonymous s"
    and "\<And>s'. sName s' = shortName (sName s) \<Longrightarrow> Q s' (if sTable s = t then applyOp (SetE (shortName (sName s)) (sInterval s) els) v else v)"
  shows "emits t P (updateSet E s els) Q v"
proof (rule emitsI)
  fix n s' n' assume n: "P n" "freshK (kernel (nft n))" "viewOf t (pend n) = v" "updateSet E s els n = (Inr s', n')"
  from updateSet_fresh [OF n(2) assms(2,3) n(4)] obtain i j ss where s': "s' = s\<lparr>sName := shortName (sName s), sID := i\<rparr>"
    and n': "n' = n\<lparr>nft := (nft n)\<lparr>lastID := j, messages := messages (nft n) @ MsgNewSet s' # (if els = [] then [] else [MsgNewSetElem s' els])\<rparr>,
              nSets := ss\<rparr>" by blast
  have "viewOf t (pend n') = (if sTable s = t then applyOp (SetE (shortName (sName s)) (sInterval s) els) v else v)"
    unfolding n' pend_snocs
    using view_NewSet [of s' t "pend n"] view_otherSet [of s' t] n(3) s' by (auto simp del: applyMsg.simps applyOp.simps)
  moreover have "P n'" "freshK (kernel (nft n'))" unfolding n' using n(1,2) by (simp_all add: cfgOnlyD [OF assms(1)])
  ultimately show "P n' \<and> freshK (kernel (nft n')) \<and> Q s' (viewOf t (pend n'))" using assms(4) [of s'] s' by simp
qed

lemma addChain_run:
  assumes "addChain E ch n = (Inr c, n')"
  shows "\<exists>ms cs. n' = n\<lparr>nft := (nft n)\<lparr>messages := messages (nft n) @ ms\<rparr>, nChains := cs\<rparr> \<and> cName c = shortName (cName ch)
     \<and> cTable c = cTable ch \<and> (ms = [] \<or> ms = [MsgNewChain (ch\<lparr>cName := shortName (cName ch)\<rparr>)])"
proof -
  let ?ch = "ch\<lparr>cName := shortName (cName ch)\<rparr>"
  obtain got where got: "onConn (ListChain E (cTable ?ch) (cName ?ch)) n = (got, n)"
    by (simp add: onConn_apply ListChain_def readM_apply)
  show ?thesis
  proof (cases got)
    case (Inl e)
    with assms got have "bindM (onConn (connAddChain ?ch)) recordChain n = (Inr c, n')"
      unfolding addChain_def Let_def by (simp add: run_simps)
    then show ?thesis
      by (intro exI [of _ "[MsgNewChain ?ch]"] exI [of _ "(nChains n)(chainID ?ch \<mapsto> ?ch)"])
        (auto simp: run_simps recordChain_def onConn_apply conn_run)
  next
    case (Inr x)
    with assms got have c: "c = x" "n' = n\<lparr>nChains := (nChains n)(chainID x \<mapsto> x)\<rparr>"
      unfolding addChain_def Let_def by (auto simp: run_simps recordChain_def)
    from got Inr have "cName x = shortName (cName ch) \<and> cTable x = cTable ch"
      by (auto simp: onConn_apply ListChain_def readM_apply isChain_def dest!: find_SomeD split: option.splits)
    with c show ?thesis by (intro exI [of _ "[]"] exI [of _ "(nChains n)(chainID x \<mapsto> x)"]) simp
  qed
qed

lemma emits_addChain:
  assumes "cfgOnly P" "\<And>c. cName c = shortName (cName ch) \<Longrightarrow> cTable c = cTable ch \<Longrightarrow> Q c v"
  shows "emits t P (addChain E ch) Q v"
proof (rule emitsI)
  fix n c n' assume n: "P n" "freshK (kernel (nft n))" "viewOf t (pend n) = v" "addChain E ch n = (Inr c, n')"
  from addChain_run [OF n(4)] obtain ms cs ch'
    where n': "n' = n\<lparr>nft := (nft n)\<lparr>messages := messages (nft n) @ ms\<rparr>, nChains := cs\<rparr>"
      and c: "cName c = shortName (cName ch)" "cTable c = cTable ch" and ms: "ms = [] \<or> ms = [MsgNewChain ch']" by blast
  have "pend n' = applyMsgs (pend n) ms" unfolding n' by (simp add: pend_def applyMsgs_append)
  then have "viewOf t (pend n') = v" using ms n(3) by (auto simp: view_neutral simp del: applyMsg.simps)
  then show "P n' \<and> freshK (kernel (nft n')) \<and> Q c (viewOf t (pend n'))"
    unfolding n' using assms(2) c n(1,2) by (simp add: cfgOnlyD [OF assms(1)])
qed

lemma emits_addRules:
  assumes "cfgOnly P" "managedTable t'"
  shows "Q () (if t' = t then applyOp (AddR (cName c) (map wireExpr es)) v else v) \<Longrightarrow> emits t P (addRule E t' c cm es) Q v"
    and "Q () (if t' = t then applyOp (InsR (cName c) (map wireExpr es)) v else v) \<Longrightarrow> emits t P (insertRule E t' c cm es) Q v"
proof -
  let ?r = "newRuleOf t' c cm es"
  have r: "managedTable (rTable ?r)" "rHandle ?r = 0" "rTable ?r = t'" "rChain ?r = cName c" "rExprs ?r = es"
    using assms(2) by (simp_all add: newRuleOf_def)
  show "emits t P (addRule E t' c cm es) Q v" if "Q () (if t' = t then applyOp (AddR (cName c) (map wireExpr es)) v else v)"
    unfolding addRule_def using that
    by (intro emits_then emits_updateRule(1) [OF assms(1) r(1,2)] emits_ret) (auto simp: newRuleOf_def simp del: applyOp.simps split: if_splits)
  show "emits t P (insertRule E t' c cm es) Q v" if "Q () (if t' = t then applyOp (InsR (cName c) (map wireExpr es)) v else v)"
    unfolding insertRule_def using that
    by (intro emits_then emits_updateRule(2) [OF assms(1) r(1,2)] emits_ret) (auto simp: newRuleOf_def simp del: applyOp.simps split: if_splits)
qed

section \<open>The operations of the generator functions\<close>

definition filterTable :: table where
  "filterTable = \<lparr>tName = FilterTableName, tFamily = TableFamilyINet\<rparr>"

definition natTable :: table where
  "natTable = \<lparr>tName = NatTableName, tFamily = TableFamilyINet\<rparr>"

lemma tables [simp]: "managedTable filterTable" "managedTable natTable" "natTable \<noteq> filterTable" "filterTable \<noteq> natTable"
  by (simp_all add: filterTable_def natTable_def managedTable_def FilterTableName_def NatTableName_def)

text \<open>A set as a rule in the kernel refers to it: by name.\<close>

definition setRef :: "string \<Rightarrow> nft_set" where
  "setRef nm = (nilSet filterTable)\<lparr>sName := nm\<rparr>"

lemma setRef_simps [simp]: "sName (setRef nm) = nm" "sID (setRef nm) = 0"
  by (simp_all add: setRef_def nilSet_def)

definition portSetName :: "string \<Rightarrow> string \<Rightarrow> string" where
  "portSetName portsName proto = shortName (nftNameWithSuffix (getSetName portsName) ''_'' (fst (getProtocolInfo proto)))"

definition portSetOps :: "nft_env \<Rightarrow> string \<Rightarrow> string \<Rightarrow> string \<Rightarrow> set_element list \<Rightarrow> gop list" where
  "portSetOps E portsName c proto els =
     (if els = [] then []
      else
        [SetE (portSetName portsName proto) True els,
         AddR c ([metaLoad MetaKeyL4PROTO, cmpEq (snd (getProtocolInfo proto)), payloadLoad PayloadBaseTransportHeader 2 2,
                  lookupSet (portSetName portsName proto) 0, zeroCounter] @ setMarkExprs E portRuleMark)])"

definition portsNameOf :: "string \<Rightarrow> nat \<Rightarrow> string" where
  "portsNameOf chainName i = nftNameWithSuffix chainName ''-'' (portsChainSuffix @ ''-'' @ itoa i)"

definition peersNameOf :: "string \<Rightarrow> nat \<Rightarrow> string" where
  "peersNameOf chainName i = nftNameWithSuffix chainName ''-'' (peersChainSuffix @ ''-'' @ itoa i)"

definition noPorts :: port_acc where
  "noPorts = \<lparr>portsTCP = [], portsUDP = [], portsSCTP = []\<rparr>"

definition portChainOps :: "nft_env \<Rightarrow> string \<Rightarrow> string \<Rightarrow> policy_port list \<Rightarrow> gop list" where
  "portChainOps E portsName c ports =
     (case collectPorts ports noPorts of
        Inl _ \<Rightarrow> []
      | Inr acc \<Rightarrow>
          portSetOps E portsName c ''TCP'' (portsTCP acc)
          @ portSetOps E portsName c ''UDP'' (portsUDP acc)
          @ portSetOps E portsName c ''SCTP'' (portsSCTP acc)
          @ (if ports = [] \<or> (portsTCP acc = [] \<and> portsUDP acc = [] \<and> portsSCTP acc = [])
             then [AddR c (zeroCounter # setMarkExprs E portRuleMark)] else []))"

definition addrMarkRule :: "nft_env \<Rightarrow> string \<Rightarrow> bool \<Rightarrow> string \<Rightarrow> nft_expr list" where
  "addrMarkRule E chainName isV6 nm =
     addrLookup chainName isV6 (setRef nm) @ setMarkExprs E peerRuleMark @ [zeroCounter, Verdict VerdictReturn []]"

definition addrVerdictRule :: "string \<Rightarrow> bool \<Rightarrow> string \<Rightarrow> verdict_kind \<Rightarrow> nft_expr list" where
  "addrVerdictRule chainName isV6 nm k = addrLookup chainName isV6 (setRef nm) @ [zeroCounter, Verdict k []]"

definition prefixOps ::
  "nft_env \<Rightarrow> string \<Rightarrow> string \<Rightarrow> nat \<Rightarrow> set_element list \<Rightarrow> set_element list \<Rightarrow> bool \<Rightarrow> gop list" where
  "prefixOps E peersName c i prefixes exceptPrefixes isV6 =
     (if prefixes = [] then []
      else
        (if exceptPrefixes \<noteq> [] then
           [SetE (shortName (ipBlockSetName peersName peerIPBlockExceptPrefix isV6 i)) True exceptPrefixes,
            AddR c (addrVerdictRule peersName isV6 (shortName (ipBlockSetName peersName peerIPBlockExceptPrefix isV6 i)) VerdictDrop)]
         else [])
        @ [SetE (shortName (ipBlockSetName peersName peerIPBlockPrefix isV6 i)) True prefixes,
           AddR c (addrMarkRule E peersName isV6 (shortName (ipBlockSetName peersName peerIPBlockPrefix isV6 i)))])"

definition blockOps :: "nft_env \<Rightarrow> string \<Rightarrow> string \<Rightarrow> nat \<Rightarrow> ip_block \<Rightarrow> gop list" where
  "blockOps E peersName c i block =
     (case (getPrefixesAsSetInterval (ibExcept block), getPrefixesAsSetInterval [ibCIDR block]) of
        (Inr (v4Except, v6Except), Inr (v4, v6)) \<Rightarrow>
          prefixOps E peersName c i v4 v4Except False @ prefixOps E peersName c i v6 v6Except True
      | _ \<Rightarrow> [])"

definition selectorHashOf :: "policy_peer \<Rightarrow> string" where
  "selectorHashOf peer =
     hashString (case peerPodSelector peer of Some s \<Rightarrow> selectorString s | None \<Rightarrow> ''<all>'')"

definition selectorSetName :: "string \<Rightarrow> nat \<Rightarrow> policy_peer \<Rightarrow> bool \<Rightarrow> string" where
  "selectorSetName peersName i peer isV6 =
     shortName (peersName @ ''_'' @ getAddressSuffix peersName @ ''_'' @ itoa i @ ''_'' @ protocolOf isV6 @ ''_'' @ selectorHashOf peer)"

definition addrOps :: "nft_env \<Rightarrow> string \<Rightarrow> string \<Rightarrow> nat \<Rightarrow> policy_peer \<Rightarrow> string list \<Rightarrow> gop list" where
  "addrOps E peersName c i peer addrs =
     (case addrs of
        [] \<Rightarrow> []
      | a # _ \<Rightarrow>
          let isV6 = (to4 (netParseIP a) = None) in
          [SetE (selectorSetName peersName i peer isV6) False (map (\<lambda>x. startAt (addrKey x)) addrs),
           AddR c (addrMarkRule E peersName isV6 (selectorSetName peersName i peer isV6))])"

text \<open>The addresses a selector peer stands for.\<close>

definition selectorAddrs :: "policy_deps \<Rightarrow> pod_info \<Rightarrow> string list \<Rightarrow> policy_peer \<Rightarrow> string list res" where
  "selectorAddrs D podInfo nets peer =
     bindR (case peerPodSelector peer of
              Some ps \<Rightarrow> wrapR ''pod selector'' (LabelSelectorAsSelector ps)
            | None \<Rightarrow> Inr (SelAll [])) (\<lambda>podSelector.
     bindR (depListPods D podSelector) (\<lambda>pods.
     bindR (case peerNamespaceSelector peer of
              Some ns \<Rightarrow> bindR (wrapR ''namespace selector'' (LabelSelectorAsSelector ns)) (\<lambda>s. Inr (Some s))
            | None \<Rightarrow> Inr None) (\<lambda>nsSelector.
     Inr (fst (foldl (collectPod D podInfo nets nsSelector) ([], []) pods)))))"

definition selectorOps ::
  "nft_env \<Rightarrow> policy_deps \<Rightarrow> pod_info \<Rightarrow> string list \<Rightarrow> string \<Rightarrow> string \<Rightarrow> nat \<Rightarrow> policy_peer \<Rightarrow> gop list" where
  "selectorOps E D podInfo nets peersName c i peer =
     (case bindR (selectorAddrs D podInfo nets peer) (\<lambda>as. splitFamilies as [] []) of
        Inl _ \<Rightarrow> []
      | Inr (v4, v6) \<Rightarrow> addrOps E peersName c i peer v4 @ addrOps E peersName c i peer v6)"

definition peerOps ::
  "nft_env \<Rightarrow> policy_deps \<Rightarrow> pod_info \<Rightarrow> string list \<Rightarrow> string \<Rightarrow> string \<Rightarrow> nat \<times> policy_peer \<Rightarrow> gop list" where
  "peerOps E D podInfo nets peersName c ip =
     (case ip of (i, peer) \<Rightarrow>
        case peerIPBlock peer of
          Some block \<Rightarrow> blockOps E peersName c i block
        | None \<Rightarrow> selectorOps E D podInfo nets peersName c i peer)"

definition peerChainOps ::
  "nft_env \<Rightarrow> policy_deps \<Rightarrow> pod_info \<Rightarrow> string list \<Rightarrow> string \<Rightarrow> string \<Rightarrow> policy_peer list \<Rightarrow> gop list" where
  "peerChainOps E D podInfo nets peersName c peers =
     concat (map (peerOps E D podInfo nets peersName c) (enumerate 0 peers))
     @ (if peers = [] then [AddR c (zeroCounter # setMarkExprs E peerRuleMark)] else [])"

definition resetExprs :: "nft_env \<Rightarrow> nft_expr list" where
  "resetExprs E = [metaLoad MetaKeyMARK, maskMark E (NOT matchRuleMark) zeroRuleMark, metaStore MetaKeyMARK, zeroCounter]"

definition ruleOps ::
  "nft_env \<Rightarrow> policy_deps \<Rightarrow> pod_info \<Rightarrow> string list \<Rightarrow> string \<Rightarrow> nat \<times> policy_rule \<Rightarrow> gop list" where
  "ruleOps E D podInfo nets chainName ir =
     (case ir of (i, r) \<Rightarrow>
        let c = shortName chainName; pc = shortName (portsNameOf chainName i); qc = shortName (peersNameOf chainName i) in
        [AddR c (resetExprs E), AddR c (jumpTo pc)] @ portChainOps E (portsNameOf chainName i) pc (prPorts r)
        @ [AddR c (jumpTo qc)] @ peerChainOps E D podInfo nets (peersNameOf chainName i) qc (prPeers r)
        @ [AddR c (checkMarkExprs E)])"

definition policyChainNameOf :: "string \<Rightarrow> policy \<Rightarrow> string" where
  "policyChainNameOf entry policy =
     entry @ ''-'' @ truncateNftName (policyRuleNamespacedName policy) (nftNameMaxLen - int (length entry) - 1)"

definition directionRules :: "string \<Rightarrow> policy \<Rightarrow> policy_rule list" where
  "directionRules entry policy =
     rulesOf (if isIngressChain (policyChainNameOf entry policy) then polIngress policy else polEgress policy)"

definition ifaceRule :: "string \<Rightarrow> string \<Rightarrow> interface_info \<Rightarrow> nft_expr list" where
  "ifaceRule entry c intf =
     [metaLoad (getMetaKeyInterface entry), cmpEq (ifname (interfaceName intf))] @ jumpTo c"

definition policyOps :: "nft_env \<Rightarrow> policy_deps \<Rightarrow> pod_info \<Rightarrow> string \<Rightarrow> internal_policy \<Rightarrow> gop list" where
  "policyOps E D podInfo entry ip =
     map (\<lambda>intf. AddR entry (ifaceRule entry (shortName (policyChainNameOf entry (ipPolicy ip))) intf))
       (filter (\<lambda>intf. ifCheckPolicyNetwork intf (ipNetworks ip)) (piInterfaces podInfo))
     @ concat (map (ruleOps E D podInfo (ipNetworks ip) (policyChainNameOf entry (ipPolicy ip)))
         (enumerate 0 (directionRules entry (ipPolicy ip))))"

definition directionOps ::
  "nft_env \<Rightarrow> policy_deps \<Rightarrow> pod_info \<Rightarrow> string \<Rightarrow> internal_policy list \<Rightarrow> gop list" where
  "directionOps E D podInfo entry ips =
     (if ips = [] then []
      else concat (map (\<lambda>ip. policyOps E D podInfo entry ip @ [AddR entry (checkMarkExprs E)]) ips)
           @ [AddR entry [zeroCounter, Verdict VerdictDrop []]])"

definition icmpRule :: "bool \<Rightarrow> nft_expr list" where
  "icmpRule isV6 = [metaLoad MetaKeyL4PROTO, cmpEq (if isV6 then [IPPROTO_ICMPV6] else [IPPROTO_ICMP]), zeroCounter, Verdict VerdictAccept []]"

definition ndpRule :: "nft_expr list" where
  "ndpRule = matchProto NFPROTO_IPV6
     @ [metaLoad MetaKeyL4PROTO, cmpEq [IPPROTO_ICMPV6], payloadLoad PayloadBaseTransportHeader 0 1,
        lookupSet ''ndp_set'' 0, zeroCounter, Verdict VerdictAccept []]"

definition conntrackRule :: "nft_env \<Rightarrow> nft_expr list" where
  "conntrackRule E =
     [Ct 1 False CtKeySTATE 0 False,
      Bitwise 1 1 4 (nativePutUint32 (envLittle E) (CtStateBitESTABLISHED OR CtStateBitRELATED))
        (nativePutUint32 (envLittle E) zeroRuleMark),
      Cmp CmpOpNeq 1 [0, 0, 0, 0], zeroCounter, Verdict VerdictAccept []]"

definition commonSetName :: "string \<Rightarrow> bool \<Rightarrow> string" where
  "commonSetName c isV6 = shortName (commonName @ ''_'' @ protocolOf isV6 @ ''_'' @ getAddressSuffix c)"

definition commonPrefixOps :: "string \<Rightarrow> bool \<Rightarrow> set_element list \<Rightarrow> gop list" where
  "commonPrefixOps c isV6 els =
     (if els = [] then []
      else [SetE (commonSetName c isV6) True els, AddR c (addrVerdictRule c isV6 (commonSetName c isV6) VerdictAccept)])"

definition commonPrefixesOps :: "string \<Rightarrow> string list \<Rightarrow> gop list" where
  "commonPrefixesOps c prefixes =
     (if prefixes = [] then []
      else case getPrefixesAsSetInterval prefixes of
             Inl _ \<Rightarrow> []
           | Inr (v4, v6) \<Rightarrow> commonPrefixOps c False v4 @ commonPrefixOps c True v6)"

definition commonIngressName :: string where
  "commonIngressName = ingressChainName @ ''-'' @ commonName"

definition commonEgressName :: string where
  "commonEgressName = egressChainName @ ''-'' @ commonName"

definition commonOps :: "nft_env \<Rightarrow> common_rule_config \<Rightarrow> gop list" where
  "commonOps E cfg =
     (let ic = commonIngressName; ec = commonEgressName in
      (if acceptICMPv6 cfg then [AddR ic (icmpRule True), AddR ec (icmpRule True)]
       else [SetE ''ndp_set'' False ndpElements, InsR ic ndpRule, SetE ''ndp_set'' False ndpElements, InsR ec ndpRule])
      @ (if acceptICMP cfg then [AddR ic (icmpRule False), AddR ec (icmpRule False)] else [])
      @ commonPrefixesOps ic (allowSrcPrefix cfg) @ commonPrefixesOps ec (allowDstPrefix cfg)
      @ [AddR ic (conntrackRule E), AddR ec (conntrackRule E)])"

definition bootOps :: "interface_info list \<Rightarrow> gop list" where
  "bootOps ifs =
     [SetE podInterfacesName False (interfaceSetElements ifs),
      InsR ''input'' (entryExprs MetaKeyIIFNAME (setRef podInterfacesName) (Verdict VerdictJump ingressChainName)),
      InsR ''output'' (entryExprs MetaKeyOIFNAME (setRef podInterfacesName) (Verdict VerdictJump egressChainName)),
      InsR ingressChainName (jumpTo commonIngressName),
      InsR egressChainName (jumpTo commonEgressName)]"

definition renderOps ::
  "nft_env \<Rightarrow> policy_deps \<Rightarrow> common_rule_config \<Rightarrow> policy list \<Rightarrow> pod \<Rightarrow> pod_info \<Rightarrow> gop list" where
  "renderOps E D cfg policyMap pod podInfo =
     (case collectPolicies pod podInfo policyMap ([], []) of
        (ingressPolicies, egressPolicies) \<Rightarrow>
          commonOps E cfg @ directionOps E D podInfo ingressChainName (sortPolicies ingressPolicies)
          @ directionOps E D podInfo egressChainName (sortPolicies egressPolicies))"

section \<open>Every generator function writes its operations\<close>

lemma wire_simps [simp]:
  "map wireExpr (addrLookup cn v6 s) = addrLookup cn v6 (setRef (sName s))"
  "map wireExpr (setMarkExprs E m) = setMarkExprs E m"
  "map wireExpr (checkMarkExprs E) = checkMarkExprs E"
  "map wireExpr (resetExprs E) = resetExprs E"
  "map wireExpr (jumpTo c) = jumpTo c"
  "map wireExpr (matchProto b) = matchProto b"
  "map wireExpr (ifaceRule e c i) = ifaceRule e c i"
  "map wireExpr (entryExprs key s (Verdict k c)) = entryExprs key (setRef (sName s)) (Verdict k c)"
  "wireExpr (metaLoad key) = metaLoad key" "wireExpr (cmpEq d) = cmpEq d" "wireExpr (payloadLoad pb x y) = payloadLoad pb x y"
  "wireExpr (lookupSet nm j) = lookupSet nm 0"
  by (simp_all add: addrLookup_def matchProto_def cmpEq_def setMarkExprs_def maskMark_def checkMarkExprs_def jumpTo_def
      resetExprs_def ifaceRule_def entryExprs_def)

locale emission =
  fixes P :: "nftState \<Rightarrow> bool"
  assumes cfg: "cfgOnly P"
    and tabs: "P n \<Longrightarrow> nFilter n = filterTable \<and> nNat n = natTable"
begin

lemma add:
  "Q () (applyOps [AddR (cName c) (map wireExpr es)] v) \<Longrightarrow> emits filterTable P (addRule E filterTable c cm es) Q v"
  by (rule emits_addRules(1) [OF cfg]) simp_all

lemma ins:
  "Q () (applyOps [InsR (cName c) (map wireExpr es)] v) \<Longrightarrow> emits filterTable P (insertRule E filterTable c cm es) Q v"
  by (rule emits_addRules(2) [OF cfg]) simp_all

lemma set:
  assumes "\<not> sAnonymous s" "sTable s = filterTable"
    and "\<And>s'. sName s' = shortName (sName s) \<Longrightarrow> Q s' (applyOps [SetE (shortName (sName s)) (sInterval s) els] v)"
  shows "emits filterTable P (updateSet E s els) Q v"
  by (rule emits_updateSet [OF cfg]) (use assms in simp_all)

lemma chain:
  assumes "\<And>c. cName c = shortName nm \<Longrightarrow> cTable c = filterTable \<Longrightarrow> Q c v"
  shows "emits filterTable P (addChain E (regularChain filterTable nm)) Q v"
  by (rule emits_addChain [OF cfg]) (use assms in \<open>simp_all add: regularChain_def\<close>)

lemma portSet:
  assumes "cTable chain = filterTable" "cTable portChain = filterTable"
  shows "Q () (applyOps (portSetOps E pn (cName portChain) proto els) v) \<Longrightarrow>
    emits filterTable P (applyPortSet E pn chain portChain pol proto els) Q v"
  unfolding applyPortSet_def portSetOps_def applyProtoPortsRules_def assms
  apply (intro emits_when emits_splits emits_bind emits_wrap set add)
     apply (auto simp: getInetSet_def nilSet_def assms portSetName_def Let_def split: prod.splits simp del: applyOp.simps)
  done

lemma ports:
  assumes "cTable chain = filterTable"
  shows "Q () (applyOps (AddR (cName chain) (jumpTo (shortName (portsNameOf cn i))) # portChainOps E (portsNameOf cn i) (shortName (portsNameOf cn i)) ps) v) \<Longrightarrow>
    emits filterTable P (applyPolicyPortsRules E cn chain pol ps i) Q v"
  unfolding applyPolicyPortsRules_def Let_def portsNameOf_def [symmetric] assms noPorts_def [symmetric] portChainOps_def
  by (intro emits_bind emits_wrap chain emits_then add emits_lift portSet emits_when)
    (auto simp: assms simp del: applyOp.simps)

lemma exceptPrefixes:
  assumes "cTable chain = filterTable"
  shows "Q () (applyOps [SetE (shortName (ipBlockSetName cn peerIPBlockExceptPrefix v6 i)) True els,
      AddR (cName chain) (addrVerdictRule cn v6 (shortName (ipBlockSetName cn peerIPBlockExceptPrefix v6 i)) VerdictDrop)] v) \<Longrightarrow>
    emits filterTable P (applyExceptPrefixes E cn chain pol cidr i els v6) Q v"
  unfolding applyExceptPrefixes_def assms
  by (intro emits_bind emits_wrap set add) (auto simp: nilSet_def addrVerdictRule_def simp del: applyOp.simps)

lemma prefixes:
  assumes "cTable chain = filterTable"
  shows "Q () (applyOps (prefixOps E cn (cName chain) i els exc v6) v) \<Longrightarrow>
    emits filterTable P (applyPrefixes E cn chain pol cidr i els exc v6) Q v"
  unfolding applyPrefixes_def prefixOps_def assms
  by (intro emits_splits(2) emits_ret emits_bind emits_then emits_wrap emits_when set add exceptPrefixes)
    (auto simp: assms nilSet_def addrMarkRule_def simp del: applyOp.simps)

lemma block:
  assumes "cTable chain = filterTable"
  shows "Q () (applyOps (blockOps E cn (cName chain) i blk) v) \<Longrightarrow>
    emits filterTable P (applyPolicyPeersRulesIPBlock E cn chain pol blk i) Q v"
  unfolding applyPolicyPeersRulesIPBlock_def blockOps_def
  by (intro emits_bind emits_wrap emits_lift emits_splits(1) emits_then prefixes assms) simp

lemma addrs:
  assumes "cTable chain = filterTable"
  shows "Q () (applyOps (addrOps E cn (cName chain) i peer as) v) \<Longrightarrow>
    emits filterTable P (addIPRule E cn as chain pol peer i) Q v"
  unfolding addIPRule_def addrOps_def Let_def assms selectorSetName_def selectorHashOf_def
  by (intro emits_splits(4) emits_ret emits_bind set add) (auto simp: nilSet_def addrMarkRule_def simp del: applyOp.simps)

lemma selector:
  assumes "cTable chain = filterTable"
  shows "Q () (applyOps (selectorOps E D podInfo nets cn (cName chain) i peer) v) \<Longrightarrow>
    emits filterTable P (applyPolicyPeersRulesSelector E D cn chain pol peer podInfo nets i) Q v"
  unfolding applyPolicyPeersRulesSelector_def addIPRules_def selectorOps_def selectorAddrs_def
  by (intro emits_bind emits_wrap emits_lift emits_splits(1) emits_then addrs assms) simp

lemma peer:
  assumes "cTable chain = filterTable"
  shows "Q () (applyOps (peerOps E D podInfo nets cn (cName chain) ip) v) \<Longrightarrow>
    emits filterTable P (applyPeer E D cn chain pol podInfo nets ip) Q v"
  unfolding applyPeer_def peerOps_def
  by (intro emits_splits emits_wrap block selector assms emits_throw) simp_all

lemma peers:
  assumes "cTable chain = filterTable"
  shows "Q () (applyOps (AddR (cName chain) (jumpTo (shortName (peersNameOf cn i)))
      # peerChainOps E D podInfo nets (peersNameOf cn i) (shortName (peersNameOf cn i)) ps) v) \<Longrightarrow>
    emits filterTable P (applyPolicyPeersRules E D cn chain pol ps podInfo nets i) Q v"
  unfolding applyPolicyPeersRules_def Let_def peersNameOf_def [symmetric] assms peerChainOps_def
  apply (intro emits_bind emits_wrap chain emits_then add)
  apply (rule emits_for [where g = "peerOps E D podInfo nets (peersNameOf cn i) (shortName (peersNameOf cn i))"])
  apply (rule peer)
  apply (auto simp: assms intro!: emits_when add simp del: applyOp.simps)
  done

lemma addF:
  "P n \<Longrightarrow> Q () (applyOps [AddR (cName c) (map wireExpr es)] v) \<Longrightarrow> emits filterTable P (addRule E (nFilter n) c cm es) Q v"
  by (simp add: tabs add)

lemma insF:
  "P n \<Longrightarrow> Q () (applyOps [InsR (cName c) (map wireExpr es)] v) \<Longrightarrow> emits filterTable P (insertRule E (nFilter n) c cm es) Q v"
  by (simp add: tabs ins)

lemma rule:
  assumes "cTable chain = filterTable" "cName chain = shortName cn"
  shows "Q () (applyOps (ruleOps E D podInfo nets cn ir) v) \<Longrightarrow>
    emits filterTable P (applyPolicyRule E D cn chain nm pol podInfo nets ir) Q v"
  unfolding applyPolicyRule_def applyMarkReset_def applyMarkCheck_def ruleOps_def Let_def assms(1) resetExprs_def [symmetric]
  by (intro emits_splits(1) emits_then emits_wrap emits_bind emits_get addF ports peers add assms(1))
    (simp_all add: assms del: applyOp.simps)

lemma interfaces:
  "Q (fold (\<lambda>x b. ifCheckPolicyNetwork x nets \<or> b) ifs b)
     (applyOps (map (\<lambda>intf. AddR (cName chain) (ifaceRule (cName chain) (cName pc) intf)) (filter (\<lambda>x. ifCheckPolicyNetwork x nets) ifs)) v) \<Longrightarrow>
   emits filterTable P (foldM (podInterfaceStep E chain pc pol nets) b ifs) Q v"
proof (induction ifs arbitrary: b v)
  case (Cons x ifs)
  have step: "emits filterTable P (applyPodInterfaceRules E chain pc pol x) R w"
    if "R True (applyOps [AddR (cName chain) (ifaceRule (cName chain) (cName pc) x)] w)" for R w
    unfolding applyPodInterfaceRules_def ifaceRule_def [symmetric]
  proof (intro emits_bind emits_get)
    fix n assume "P n"
    then show "emits filterTable P (updateRule E (newRuleOf (nFilter n) chain
         (''policy:'' @ policyNamespacedName pol @ '', name:'' @ cName chain
          @ '', net-attach-def:'' @ netattachName x @ '', interface:'' @ interfaceName x
          @ '', cni:'' @ interfaceType x @ '', jump:'' @ cName pc) (ifaceRule (cName chain) (cName pc) x)) connAddRule False) R w"
      using that by (intro emits_updateRule(1) [OF cfg]) (auto simp: newRuleOf_def tabs simp del: applyOp.simps)
  qed
  have "emits filterTable P (podInterfaceStep E chain pc pol nets b x)
      (\<lambda>b. emits filterTable P (foldM (podInterfaceStep E chain pc pol nets) b ifs) Q) v"
    unfolding podInterfaceStep_def [of E chain pc pol nets b x]
    by (intro emits_bind emits_splits(2) emits_wrap step emits_ret Cons.IH) (use Cons.prems in \<open>simp_all del: applyOp.simps\<close>)
  then show ?case unfolding foldM.simps by (rule emits_bind)
qed (simp add: emits_ret)

lemma policy:
  assumes "cTable chain = filterTable" "\<And>b. Q b (applyOps (policyOps E D podInfo (cName chain) ip) v)"
  shows "emits filterTable P (applyPodRules E D chain podInfo (ipPolicy ip) (ipNetworks ip)) Q v"
proof -
  let ?cn = "policyChainNameOf (cName chain) (ipPolicy ip)"
  let ?rules = "ruleOps E D podInfo (ipNetworks ip) ?cn"
  have rules: "emits filterTable P (forM irs (applyPolicyRule E D ?cn c nm (ipPolicy ip) podInfo (ipNetworks ip))) R w"
    if "cName c = shortName ?cn" "cTable c = filterTable" "R () (applyOps (concat (map ?rules irs)) w)" for c irs nm R w
    by (rule emits_for [where g = ?rules]) (use that in \<open>auto intro: rule\<close>)
  show ?thesis
    unfolding applyPodRules_def Let_def policyChainNameOf_def [symmetric]
  proof (rule emits_bind, rule emits_get)
    fix n assume n: "P n"
    show "emits filterTable P (bindM (wrapM ''failed to create policy chain'' (addChain E (regularChain (nFilter n) ?cn))) (\<lambda>c.
        bindM (foldM (podInterfaceStep E chain c (ipPolicy ip) (ipNetworks ip)) False (piInterfaces podInfo)) (\<lambda>b.
          thenM (if isIngressChain ?cn
            then forM (enumerate 0 (rulesOf (polIngress (ipPolicy ip)))) (applyPolicyRule E D ?cn c (policyNamespacedName (ipPolicy ip)) (ipPolicy ip) podInfo (ipNetworks ip))
            else forM (enumerate 0 (rulesOf (polEgress (ipPolicy ip)))) (applyPolicyRule E D ?cn c (polName (ipPolicy ip)) (ipPolicy ip) podInfo (ipNetworks ip)))
           (retM b)))) Q v"
      unfolding tabs [OF n, THEN conjunct1]
      by (intro emits_bind emits_wrap chain interfaces emits_then emits_splits(2) rules emits_ret)
        (use assms(2) in \<open>simp_all add: policyOps_def directionRules_def del: applyOp.simps\<close>)
  qed
qed

lemma policies:
  assumes "cTable chain = filterTable"
  shows "(\<And>b. Q b (applyOps (concat (map (\<lambda>ip. policyOps E D podInfo (cName chain) ip @ [AddR (cName chain) (checkMarkExprs E)]) ips)) v)) \<Longrightarrow>
    emits filterTable P (foldM (policyStep E D chain podInfo) b ips) Q v"
proof (induction ips arbitrary: b v)
  case (Cons ip ips)
  have "emits filterTable P (policyStep E D chain podInfo b ip) (\<lambda>b. emits filterTable P (foldM (policyStep E D chain podInfo) b ips) Q) v"
    unfolding policyStep_def [of E D chain podInfo b ip] applyGeneralMarkCheck_def
    by (intro emits_bind emits_wrap policy emits_then emits_get assms addF emits_ret Cons.IH)
      (use Cons.prems in \<open>simp_all del: applyOp.simps\<close>)
  then show ?case unfolding foldM.simps by (rule emits_bind)
qed (simp add: emits_ret)

lemma direction:
  assumes "cTable chain = filterTable" "Q () (applyOps (directionOps E D podInfo (cName chain) ips) v)"
  shows "emits filterTable P (applyDirection E D chain podInfo ips) Q v"
  unfolding applyDirection_def applyDropRemaining_def assms(1)
  by (intro emits_when emits_bind policies assms(1) emits_wrap emits_then emits_updateRule(1) [OF cfg] emits_ret)
    (use assms(2) in \<open>auto simp: directionOps_def newRuleOf_def simp del: applyOp.simps\<close>)

end

section \<open>The whole run\<close>

text \<open>The tables and chains as the bootstrap leaves them.\<close>

definition genCfg :: "nftState \<Rightarrow> bool" where
  "genCfg n \<longleftrightarrow> nFilter n = filterTable \<and> nNat n = natTable
     \<and> cName (nInput n) = ''input'' \<and> cName (nOutput n) = ''output''
     \<and> cName (nIngressChain n) = ingressChainName \<and> cTable (nIngressChain n) = filterTable
     \<and> cName (nEgressChain n) = egressChainName \<and> cTable (nEgressChain n) = filterTable
     \<and> cName (commonIngressChain n) = commonIngressName \<and> cName (commonEgressChain n) = commonEgressName"

interpretation gen: emission genCfg
  by unfold_locales (auto simp: cfgOnly_def genCfg_def)

lemma emits_modify:
  "(\<And>n. nft (f n) = nft n) \<Longrightarrow> (\<And>n. P n \<Longrightarrow> P (f n)) \<Longrightarrow> Q () v \<Longrightarrow> emits t P (modifyM f) Q v"
  by (auto simp: emits_def em_apply pend_def)

lemma short_fixed [simp]:
  "shortName ''ndp_set'' = ''ndp_set''" "shortName podInterfacesName = podInterfacesName"
  "shortName ''input'' = ''input''" "shortName ''output'' = ''output''" "shortName ''prerouting'' = ''prerouting''"
  "shortName ingressChainName = ingressChainName" "shortName egressChainName = egressChainName"
  "shortName commonIngressName = commonIngressName" "shortName commonEgressName = commonEgressName"
  by (simp_all add: shortName_def podInterfacesName_def ingressChainName_def egressChainName_def commonIngressName_def
      commonEgressName_def commonName_def)

lemma emits_icmp:
  "Q () (applyOps [AddR (cName c) (icmpRule v6)] v) \<Longrightarrow> emits filterTable genCfg (allowICMP E c v6) Q v"
  unfolding allowICMP_def Let_def icmpRule_def
  by (intro emits_bind emits_get gen.addF) (auto simp del: applyOp.simps)

lemma emits_ndp:
  "Q () (applyOps [SetE ''ndp_set'' False ndpElements, InsR (cName c) ndpRule] v) \<Longrightarrow>
   emits filterTable genCfg (allowNeighborDiscovery E c) Q v"
  unfolding allowNeighborDiscovery_def
  by (intro emits_bind emits_get emits_wrap gen.insF gen.set)
    (auto simp: genCfg_def nilSet_def ndpRule_def simp del: applyOp.simps)

lemma emits_conntrack:
  "Q () (applyOps [AddR (cName c) (conntrackRule E)] v) \<Longrightarrow> emits filterTable genCfg (allowConntracked E c) Q v"
  unfolding allowConntracked_def conntrackRule_def
  by (intro emits_bind emits_get gen.addF) (auto simp del: applyOp.simps)

lemma emits_commonPrefix:
  "els \<noteq> [] \<Longrightarrow> Q () (applyOps (commonPrefixOps (cName c) v6 els) v) \<Longrightarrow>
   emits filterTable genCfg (commonPrefixRule E c commonName v6 els) Q v"
  unfolding commonPrefixRule_def
  by (intro emits_bind emits_get emits_wrap gen.addF gen.set)
    (auto simp: genCfg_def nilSet_def commonPrefixOps_def commonSetName_def addrVerdictRule_def simp del: applyOp.simps)

lemma emits_commonPrefixes:
  "ps \<noteq> [] \<Longrightarrow> Q () (applyOps (commonPrefixesOps (cName c) ps) v) \<Longrightarrow>
   emits filterTable genCfg (applyCommonPrefixRules E c ps commonName) Q v"
  unfolding applyCommonPrefixRules_def commonPrefixesOps_def
  by (intro emits_bind emits_wrap emits_lift emits_splits(1) emits_then emits_when emits_commonPrefix)
    (simp_all add: commonPrefixOps_def del: applyOp.simps)

lemma emits_common:
  "Q () (applyOps (commonOps E cfg) v) \<Longrightarrow> emits filterTable genCfg (applyCommonChainRules E cfg) Q v"
  unfolding applyCommonChainRules_def Let_def
proof (rule emits_bind, rule emits_get)
  fix n assume Q: "Q () (applyOps (commonOps E cfg) v)" and "genCfg n"
  then have names: "cName (commonIngressChain n) = commonIngressName" "cName (commonEgressChain n) = commonEgressName"
    by (simp_all add: genCfg_def)
  have none: "commonPrefixesOps c [] = []" for c by (simp add: commonPrefixesOps_def)
  show "emits filterTable genCfg
     (thenM (if acceptICMPv6 cfg then
              thenM (wrapM ''failed to allow ICMPv6 in common ingress chain'' (allowICMP E (commonIngressChain n) True))
                    (wrapM ''failed to allow ICMPv6 in common egress chain'' (allowICMP E (commonEgressChain n) True))
            else
              thenM (wrapM ''failed to allow ICMPv6 neighbor discovery in common ingress chain''
                       (allowNeighborDiscovery E (commonIngressChain n)))
                    (wrapM ''failed to allow ICMPv6 neighbor discovery in common egress chain''
                       (allowNeighborDiscovery E (commonEgressChain n)))) (
     thenM (whenM (acceptICMP cfg)
              (thenM (wrapM ''failed to allow ICMP in common ingress chain'' (allowICMP E (commonIngressChain n) False))
                     (wrapM ''failed to allow ICMP in common egress chain'' (allowICMP E (commonEgressChain n) False)))) (
     thenM (whenM (allowSrcPrefix cfg \<noteq> [])
              (wrapM ''failed to apply common ingress rules''
                 (applyCommonPrefixRules E (commonIngressChain n) (allowSrcPrefix cfg) commonName))) (
     thenM (whenM (allowDstPrefix cfg \<noteq> [])
              (wrapM ''failed to apply common egress rules''
                 (applyCommonPrefixRules E (commonEgressChain n) (allowDstPrefix cfg) commonName))) (
     thenM (wrapM ''failed to apply common ingress conntrack rules'' (allowConntracked E (commonIngressChain n)))
           (wrapM ''failed to apply common egress conntrack rules'' (allowConntracked E (commonEgressChain n))))))))
     Q v"
    by (intro emits_then emits_splits(2) emits_wrap emits_icmp emits_ndp emits_when emits_commonPrefixes emits_conntrack)
      (use Q in \<open>simp_all add: names none commonOps_def del: applyOp.simps\<close>)
qed

lemma emits_render:
  assumes "Q () (applyOps (renderOps E D cfg ps pod podInfo) v)"
  shows "emits filterTable genCfg (renderPolicies E D cfg ps pod podInfo) Q v"
  unfolding renderPolicies_def Let_def
  by (intro emits_splits(1) emits_then emits_wrap emits_common emits_bind emits_get gen.direction)
    (use assms in \<open>auto simp: genCfg_def renderOps_def simp del: applyOp.simps\<close>)

lemma emits_interfaces:
  assumes "Q () (applyOps (bootOps ifs) v)"
  shows "emits filterTable genCfg (bootstrapInterfaceRules E ifs) Q v"
  unfolding bootstrapInterfaceRules_def Let_def
proof (rule emits_bind, rule emits_get)
  fix n assume n: "genCfg n"
  note c = n [unfolded genCfg_def]
  have cfg: "cfgOnly genCfg" by (rule gen.cfg)
  have nat: "emits filterTable genCfg (insertRule E natTable ch cm es) R w" if "R () w" for ch cm es R w
    using that by (intro emits_addRules(2) [OF cfg]) auto
  have natSet: "emits filterTable genCfg (updateSet E (ifaceSet natTable cm) els) R w" if "\<And>s. R s w" for cm els R w
    using that by (intro emits_updateSet [OF cfg]) (auto simp: ifaceSet_def nilSet_def)
  show "emits filterTable genCfg
     (bindM (wrapM ''failed to update set'' (updateSet E (ifaceSet (nFilter n) ''Pod interfaces'') (interfaceSetElements ifs))) (\<lambda>fs.
     thenM (modifyM (\<lambda>n. n\<lparr>interfaceFilterSet := fs\<rparr>)) (
     thenM (wrapM ''failed to install rule''
       (insertRule E (nFilter n) (nInput n) inputInterfaceFilterComment
          (entryExprs MetaKeyIIFNAME fs (Verdict VerdictJump (cName (nIngressChain n)))))) (
     thenM (wrapM ''failed to install rule''
       (insertRule E (nFilter n) (nOutput n) outputInterfaceFilterComment
          (entryExprs MetaKeyOIFNAME fs (Verdict VerdictJump (cName (nEgressChain n)))))) (
     bindM (wrapM ''failed to update set'' (updateSet E (ifaceSet (nNat n) ''Pod interfaces NAT'') (interfaceSetElements ifs))) (\<lambda>ns.
     thenM (modifyM (\<lambda>n. n\<lparr>interfaceNatSet := ns\<rparr>)) (
     thenM (insertRule E (nNat n) (nPrerouting n) natFilterRuleComment
          (entryExprs MetaKeyIIFNAME ns (Verdict VerdictReturn []))) (
     thenM (insertRule E (nFilter n) (nIngressChain n) ''common-ingress-chain'' (jumpTo (cName (commonIngressChain n)))) (
     insertRule E (nFilter n) (nEgressChain n) ''common-egress-chain'' (jumpTo (cName (commonEgressChain n)))))))))))) Q v"
    unfolding c [THEN conjunct1] c [THEN conjunct2, THEN conjunct1]
    by (intro emits_bind emits_wrap natSet nat gen.set emits_then emits_modify gen.ins)
      (use assms c in \<open>simp_all add: genCfg_def ifaceSet_def nilSet_def bootOps_def del: applyOp.simps\<close>)
qed

text \<open>The chains of the bootstrap add no rules.\<close>

definition sameView :: "nftState \<Rightarrow> nftState \<Rightarrow> bool" where
  "sameView n n' \<longleftrightarrow> viewOf filterTable (pend n') = viewOf filterTable (pend n) \<and> kernel (nft n') = kernel (nft n)
     \<and> nFilter n' = nFilter n \<and> nNat n' = nNat n"

lemma addChain_same:
  assumes "addChain E ch n = (Inr c, n')"
  shows "sameView n n' \<and> cName c = shortName (cName ch) \<and> cTable c = cTable ch \<and> nInput n' = nInput n \<and> nOutput n' = nOutput n
    \<and> nIngressChain n' = nIngressChain n \<and> nEgressChain n' = nEgressChain n
    \<and> commonIngressChain n' = commonIngressChain n \<and> commonEgressChain n' = commonEgressChain n"
proof -
  from addChain_run [OF assms] obtain ms cs ch'
    where n': "n' = n\<lparr>nft := (nft n)\<lparr>messages := messages (nft n) @ ms\<rparr>, nChains := cs\<rparr>"
      and c: "cName c = shortName (cName ch)" "cTable c = cTable ch" and ms: "ms = [] \<or> ms = [MsgNewChain ch']" by blast
  have "pend n' = applyMsgs (pend n) ms" unfolding n' by (simp add: pend_def applyMsgs_append)
  with ms have "viewOf filterTable (pend n') = viewOf filterTable (pend n)"
    by (auto simp: view_neutral simp del: applyMsg.simps)
  with c show ?thesis by (simp add: n' sameView_def)
qed

lemma pend_upd [simp]:
  "pend (n\<lparr>nInput := c\<rparr>) = pend n" "pend (n\<lparr>nOutput := c\<rparr>) = pend n" "pend (n\<lparr>nPrerouting := c\<rparr>) = pend n"
  "pend (n\<lparr>nIngressChain := c\<rparr>) = pend n" "pend (n\<lparr>nEgressChain := c\<rparr>) = pend n"
  "pend (n\<lparr>commonIngressChain := c\<rparr>) = pend n" "pend (n\<lparr>commonEgressChain := c\<rparr>) = pend n"
  by (simp_all add: pend_def)

lemma bootstrapChains_same:
  assumes "bootstrapNetfilterChains E n = (Inr x, n')" "nFilter n = filterTable" "nNat n = natTable"
  shows "genCfg n' \<and> viewOf filterTable (pend n') = viewOf filterTable (pend n) \<and> kernel (nft n') = kernel (nft n)"
  using assms(1) unfolding bootstrapNetfilterChains_def Let_def thenM_def
proof (elim bindM_InrE wrapM_InrE)
  fix a0 n0 c1 m1 u1 n1 c2 m2 u2 n2 c3 m3 u3 n3 c4 m4 u4 n4 c5 m5 u5 n5 c6 m6 u6 n6 c7 m7
  assume g: "getM n = (Inr a0, n0)"
    and a: "addChain E (baseChain (nFilter a0) ''input'' 1 0 ''filter'') n0 = (Inr c1, m1)"
      "addChain E (baseChain (nFilter a0) ''output'' 3 0 ''filter'') n1 = (Inr c2, m2)"
      "addChain E (baseChain (nNat a0) ''prerouting'' 0 (-100) ''nat'') n2 = (Inr c3, m3)"
      "addChain E (regularChain (nFilter a0) ingressChainName) n3 = (Inr c4, m4)"
      "addChain E (regularChain (nFilter a0) egressChainName) n4 = (Inr c5, m5)"
      "addChain E (regularChain (nFilter a0) (ingressChainName @ ''-'' @ commonName)) n5 = (Inr c6, m6)"
      "addChain E (regularChain (nFilter a0) (egressChainName @ ''-'' @ commonName)) n6 = (Inr c7, m7)"
    and m: "modifyM (\<lambda>n. n\<lparr>nInput := c1\<rparr>) m1 = (Inr u1, n1)" "modifyM (\<lambda>n. n\<lparr>nOutput := c2\<rparr>) m2 = (Inr u2, n2)"
      "modifyM (\<lambda>n. n\<lparr>nPrerouting := c3\<rparr>) m3 = (Inr u3, n3)" "modifyM (\<lambda>n. n\<lparr>nIngressChain := c4\<rparr>) m4 = (Inr u4, n4)"
      "modifyM (\<lambda>n. n\<lparr>nEgressChain := c5\<rparr>) m5 = (Inr u5, n5)" "modifyM (\<lambda>n. n\<lparr>commonIngressChain := c6\<rparr>) m6 = (Inr u6, n6)"
      "modifyM (\<lambda>n. n\<lparr>commonEgressChain := c7\<rparr>) m7 = (Inr x, n')"
  from g have n0: "n0 = n" "a0 = n" by (auto simp: em_apply)
  have upd: "n1 = m1\<lparr>nInput := c1\<rparr>" "n2 = m2\<lparr>nOutput := c2\<rparr>" "n3 = m3\<lparr>nPrerouting := c3\<rparr>" "n4 = m4\<lparr>nIngressChain := c4\<rparr>"
    "n5 = m5\<lparr>nEgressChain := c5\<rparr>" "n6 = m6\<lparr>commonIngressChain := c6\<rparr>" "n' = m7\<lparr>commonEgressChain := c7\<rparr>"
    using m by (simp_all add: em_apply)
  note a = a [folded commonIngressName_def commonEgressName_def, THEN addChain_same]
  show ?thesis using a unfolding upd n0 sameView_def
    by (simp add: assms(2,3) genCfg_def baseChain_def regularChain_def)
qed

definition emptyView :: view where
  "emptyView = \<lparr>vChain = (\<lambda>_. []), vSet = (\<lambda>_. None)\<rparr>"

lemma fresh_view: "freshK rs \<Longrightarrow> viewOf filterTable rs = emptyView"
  by (simp add: viewOf_def emptyView_def fresh_rules fresh_sets)

lemma freshK_sub:
  "freshK rs \<Longrightarrow> set (ksRules rs') \<subseteq> set (ksRules rs) \<Longrightarrow> set (ksSets rs') \<subseteq> set (ksSets rs) \<Longrightarrow> freshK rs'"
  unfolding freshK_def by blast

lemma legacy_fresh:
  assumes "legacyInv K c" "freshK K"
  shows "freshK (kernel c) \<and> viewOf filterTable (applyMsgs (kernel c) (messages c)) = emptyView"
proof -
  have k: "freshK (kernel c)" using legacyInv_rules [OF assms(1)] freshK_sub [OF assms(2)] by blast
  have "list_all (allowedDel K) (messages c)" using assms(1) by (simp add: legacyInv_def)
  from applyMsgs_del_subset [OF this, of "kernel c"] have "freshK (applyMsgs (kernel c) (messages c))"
    using freshK_sub [OF k] by blast
  with k show ?thesis by (simp add: fresh_view)
qed

lemma addTable_run:
  assumes "addTable E t c = (Inr t', c')"
  shows "t' = t \<and> kernel c' = kernel c
    \<and> viewOf filterTable (applyMsgs (kernel c') (messages c')) = viewOf filterTable (applyMsgs (kernel c) (messages c))"
proof -
  obtain got where got: "ListTableOfFamily E (tName t) (tFamily t) c = (got, c)" by (simp add: ListTableOfFamily_def readM_apply)
  have "t' = t \<and> (c' = c \<or> c' = c\<lparr>messages := messages c @ [MsgNewTable t]\<rparr>)"
  proof (cases got)
    case (Inl e)
    with assms got show ?thesis
      by (auto simp: addTable_def run_simps connAddTable_def queueMsg_apply split: if_splits)
  next
    case (Inr t0)
    with got have "sameTable t0 t"
      unfolding ListTableOfFamily_def readM_apply sameTable_def by (auto dest: find_SomeD split: option.splits)
    with assms got Inr show ?thesis by (auto simp: addTable_def run_simps)
  qed
  then show ?thesis by (auto simp: applyMsgs_append view_neutral simp del: applyMsg.simps)
qed

lemma bootstrap_view:
  assumes "kernelOK E" "wfRules (kernel c)" "messages c = []" "freshK (kernel c)"
    and "bootstrapNetfilterRules E p c = (Inr (podInfo, n), c')"
  shows "\<exists>p0. p = Some p0 \<and> podInfo = p0\<lparr>piInterfaces := sortInterfaces (piInterfaces p0)\<rparr> \<and> genCfg n \<and> freshK (kernel (nft n))
    \<and> nft n = c' \<and> viewOf filterTable (pend n) = applyOps (bootOps (piInterfaces podInfo)) emptyView"
proof -
  from assms(5) obtain p0 where p: "p = Some p0" by (cases p) (auto simp: bootstrapNetfilterRules_def em_apply)
  let ?ifs = "sortInterfaces (piInterfaces p0)"
  have "thenM (CleanupLegacyTables E) (
      bindM (wrapM ''failed to add table'' (addTable E filterTable)) (\<lambda>f.
      bindM (wrapM ''failed to add table'' (addTable E natTable)) (\<lambda>t.
      bindM getM (\<lambda>c.
      bindM (withState (newNftState c f t) (thenM (bootstrapNetfilterChains E) (bootstrapInterfaceRules E ?ifs))) (\<lambda>(_, n).
        retM (p0\<lparr>piInterfaces := ?ifs\<rparr>, n)))))) c = (Inr (podInfo, n), c')"
    using assms(5) unfolding p bootstrapNetfilterRules_def filterTable_def natTable_def
    by (cases "piInterfaces p0 = []") (simp_all add: em_apply Let_def)
  then show ?thesis
    unfolding thenM_def [of "CleanupLegacyTables E"]
  proof (elim bindM_InrE wrapM_InrE)
    fix u c1 f c2 t c3 c4 c5 x c6
    assume leg: "CleanupLegacyTables E c = (Inr u, c1)" and f: "addTable E filterTable c1 = (Inr f, c2)"
      and t: "addTable E natTable c2 = (Inr t, c3)" and g: "getM c3 = (Inr c4, c5)"
      and w: "withState (newNftState c4 f t) (thenM (bootstrapNetfilterChains E) (bootstrapInterfaceRules E ?ifs)) c5 = (Inr x, c6)"
      and r: "(case x of (_, n) \<Rightarrow> retM (p0\<lparr>piInterfaces := ?ifs\<rparr>, n)) c6 = (Inr (podInfo, n), c')"
    have "legacyInv (kernel c) c1"
      using triple_CleanupLegacyTables [OF assms(1,2)] legacyInv_start [OF assms(3)] leg unfolding triple_def by (metis snd_conv)
    from legacy_fresh [OF this assms(4)] addTable_run [OF f] addTable_run [OF t]
    have c3: "freshK (kernel c3)" "viewOf filterTable (applyMsgs (kernel c3) (messages c3)) = emptyView" "f = filterTable" "t = natTable"
      by auto
    from g have eq: "c4 = c3" "c5 = c3" by (auto simp: em_apply)
    let ?n = "(newNftState c3 filterTable natTable)\<lparr>nft := c3\<rparr>"
    from r have x: "x = (fst x, n)" "podInfo = p0\<lparr>piInterfaces := ?ifs\<rparr>" "c' = c6" by (cases x; simp add: em_apply)+
    from w x(1) have w': "thenM (bootstrapNetfilterChains E) (bootstrapInterfaceRules E ?ifs) ?n = (Inr (fst x), n)" and c6: "nft n = c6"
      unfolding withState_def eq c3 by (auto split: prod.splits sum.splits)
    from w' obtain y n1 where b: "bootstrapNetfilterChains E ?n = (Inr y, n1)" and i: "bootstrapInterfaceRules E ?ifs n1 = (Inr (fst x), n)"
      unfolding thenM_def by (rule bindM_InrE)
    have n: "nFilter ?n = filterTable" "nNat ?n = natTable" "nft ?n = c3" by (simp_all add: newNftState_def)
    from bootstrapChains_same [OF b n(1,2)] c3 n(3)
    have "genCfg n1" "freshK (kernel (nft n1))" "viewOf filterTable (pend n1) = emptyView" by (auto simp: pend_def)
    from emitsD [OF emits_interfaces [where Q = "\<lambda>_ v. v = applyOps (bootOps ?ifs) emptyView", OF refl] this i] x c6
    show ?thesis by (simp add: p)
  qed
qed

text \<open>The run for a pod up to and including its one flush; what remains is the cleanup.\<close>

definition installRules ::
  "nft_env \<Rightarrow> policy_deps \<Rightarrow> common_rule_config \<Rightarrow> policy list \<Rightarrow> pod \<Rightarrow> pod_info option \<Rightarrow> (conn, pod_info \<times> nftState) em" where
  "installRules E D cfg policyMap pod podInfo0 =
     bindM (wrapM ''bootstrap netfilter rules failed'' (bootstrapNetfilterRules E podInfo0)) (\<lambda>(podInfo, n).
     bindM (withState n
       (thenM (renderPolicies E D cfg policyMap pod podInfo) (wrapM ''nft flush failed'' (onConn (connFlush E))))) (\<lambda>(_, n').
     retM (podInfo, n')))"

lemma withState_then:
  "withState n (thenM m (thenM k l)) c = bindM (withState n (thenM m k)) (\<lambda>(_, n'). withState n' l) c"
proof -
  have nft: "nft n' = c' \<Longrightarrow> n'\<lparr>nft := c'\<rparr> = n'" for n' c' by auto
  show ?thesis
    by (auto simp: withState_def run_simps nft split: prod.splits sum.splits)
qed

lemma apply_install:
  "ApplyPolicyRulesForPodAndFamily E D cfg ps pod p =
     bindM (installRules E D cfg ps pod p) (\<lambda>(_, n). thenM (withState n (wrapM ''failed to cleanup nft'' (cleanup E))) (retM ()))"
  unfolding ApplyPolicyRulesForPodAndFamily_def installRules_def
  by (auto simp: fun_eq_iff run_simps withState_then split: prod.splits sum.splits)

lemma rendered_view:
  assumes "kernelOK E" "wfRules (kernel c)" "messages c = []" "freshK (kernel c)"
    and "bootstrapNetfilterRules E p c = (Inr (podInfo, n0), c0)" "renderPolicies E D cfg ps pod podInfo n0 = (Inr (), n1)"
  shows "nft n0 = c0 \<and> (\<exists>p0. p = Some p0 \<and> podInfo = p0\<lparr>piInterfaces := sortInterfaces (piInterfaces p0)\<rparr>)
    \<and> viewOf filterTable (pend n1) = applyOps (bootOps (piInterfaces podInfo) @ renderOps E D cfg ps pod podInfo) emptyView"
proof -
  from bootstrap_view [OF assms(1-5)] obtain p0 where p: "p = Some p0" "podInfo = p0\<lparr>piInterfaces := sortInterfaces (piInterfaces p0)\<rparr>"
    and n0: "genCfg n0" "freshK (kernel (nft n0))" "nft n0 = c0"
    and v0: "viewOf filterTable (pend n0) = applyOps (bootOps (piInterfaces podInfo)) emptyView" by blast
  from emitsD [OF emits_render [where Q = "\<lambda>_ v. v = applyOps (renderOps E D cfg ps pod podInfo) (applyOps (bootOps (piInterfaces podInfo)) emptyView)", OF refl]
      n0(1,2) v0 assms(6)] p n0(3)
  show ?thesis by simp
qed

lemma install_view:
  assumes "kernelOK E" "wfRules (kernel c)" "messages c = []" "freshK (kernel c)"
    and "installRules E D cfg ps pod p c = (Inr (podInfo, n), c')"
  shows "\<exists>p0. p = Some p0 \<and> podInfo = p0\<lparr>piInterfaces := sortInterfaces (piInterfaces p0)\<rparr>
    \<and> viewOf filterTable (kernel c') = applyOps (bootOps (piInterfaces podInfo) @ renderOps E D cfg ps pod podInfo) emptyView"
proof -
  from assms(5) obtain n0 c0 where boot: "bootstrapNetfilterRules E p c = (Inr (podInfo, n0), c0)"
    and rest: "withState n0 (thenM (renderPolicies E D cfg ps pod podInfo) (wrapM ''nft flush failed'' (onConn (connFlush E)))) c0 = (Inr ((), n), c')"
    unfolding installRules_def
    by (elim bindM_InrE wrapM_InrE) (auto simp: em_apply split: prod.splits elim!: bindM_InrE)
  from bootstrap_view [OF assms(1-4) boot] have same: "n0\<lparr>nft := c0\<rparr> = n0" by auto
  from rest have run: "thenM (renderPolicies E D cfg ps pod podInfo) (wrapM ''nft flush failed'' (onConn (connFlush E))) n0 = (Inr (), n)"
    and c': "c' = nft n"
    unfolding withState_def same by (auto split: prod.splits sum.splits)
  from run obtain n1 where r: "renderPolicies E D cfg ps pod podInfo n0 = (Inr (), n1)" and f: "onConn (connFlush E) n1 = (Inr (), n)"
    unfolding thenM_def by (elim bindM_InrE wrapM_InrE) auto
  have "kernel (nft n) = pend n1"
    using f assms(1) unfolding kernelOK_def
    by (auto simp: onConn_apply connFlush_def pend_def Let_def split: if_splits option.splits sum.splits)
  with rendered_view [OF assms(1-4) boot r] c' show ?thesis by simp
qed

end
