(* ===== verification/Progress.thy ===== *)
theory Progress
  imports Emission
begin

text \<open>
  When the rules of a pod are installed.  With a kernel that answers its reads, in a network namespace
  that has no managed rules and no legacy tables yet, the run for a pod reaches its flush whenever the
  policies that select it and the operator's prefixes are valid; then the kernel decides.
\<close>

section \<open>Runs that succeed\<close>

definition answers :: "nft_env \<Rightarrow> bool" where
  "answers E \<longleftrightarrow> (\<forall>q rs. envFault E q rs = None) \<and> (\<forall>v. \<not> is_err (envGob E v))"

lemma answersD: "answers E \<Longrightarrow> envFault E q rs = None"
  by (simp add: answers_def)

lemma answers_hash:
  assumes "answers E"
  shows "\<exists>k. hashRule E r = Inr k"
proof -
  have "\<not> is_err (envGob E v)" for v using assms by (simp add: answers_def)
  then have gob: "\<exists>bs. envGob E v = Inr bs" for v by (metis is_err_simps(1) obj_sumE)
  have val: "\<exists>h. hashVal E v = Inr h" for v using gob [of v] by (auto simp: hashVal_def)
  have "\<exists>hs. hashExprs E es = Inr hs" for es
  proof (induction es)
    case (Cons e es)
    then show ?case using val [of "GobExpr e"] by auto
  qed simp
  then obtain hs where "hashExprs E (rExprs r) = Inr hs" by blast
  then show ?thesis using val by (simp add: hashRule_def newRuleData_def)
qed

definition ready :: "conn \<Rightarrow> bool" where
  "ready c \<longleftrightarrow> freshK (kernel c) \<and> connErr c = None"

text \<open>\<open>runs P m R\<close>: from every state with \<open>P\<close> over a fresh kernel \<open>m\<close> succeeds with a result that satisfies \<open>R\<close>.\<close>

definition runs :: "(nftState \<Rightarrow> bool) \<Rightarrow> (nftState, 'a) em \<Rightarrow> ('a \<Rightarrow> bool) \<Rightarrow> bool" where
  "runs P m R \<longleftrightarrow> (\<forall>n. P n \<longrightarrow> ready (nft n) \<longrightarrow> (\<exists>x n'. m n = (Inr x, n') \<and> P n' \<and> ready (nft n') \<and> R x))"

lemma runs_ret: "R x \<Longrightarrow> runs P (retM x) R"
  by (simp add: runs_def em_apply)

lemma runs_lift: "\<not> is_err r \<Longrightarrow> (\<And>x. r = Inr x \<Longrightarrow> R x) \<Longrightarrow> runs P (liftR r) R"
  by (cases r) (auto simp: runs_def em_apply)

lemma runs_get: "(\<And>n. P n \<Longrightarrow> R n) \<Longrightarrow> runs P getM R"
  by (auto simp: runs_def em_apply)

lemma runs_modify: "(\<And>n. nft (f n) = nft n) \<Longrightarrow> (\<And>n. P n \<Longrightarrow> P (f n)) \<Longrightarrow> R () \<Longrightarrow> runs P (modifyM f) R"
  by (auto simp: runs_def em_apply)

lemma runsD: "runs P m R \<Longrightarrow> P n \<Longrightarrow> ready (nft n) \<Longrightarrow> \<exists>x n'. m n = (Inr x, n') \<and> P n' \<and> ready (nft n') \<and> R x"
  unfolding runs_def by blast

lemma runs_bind: "runs P m (\<lambda>x. runs P (f x) R) \<Longrightarrow> runs P (bindM m f) R"
  unfolding runs_def by (metis (no_types, lifting) bindM_Inr)

lemma runs_then: "runs P m (\<lambda>_. runs P m' R) \<Longrightarrow> runs P (thenM m m') R"
  unfolding thenM_def by (rule runs_bind)

lemma runs_wrap: "runs P m R \<Longrightarrow> runs P (wrapM msg m) R"
  unfolding runs_def by (fastforce simp: run_simps)

lemma runs_when: "(b \<Longrightarrow> runs P m R) \<Longrightarrow> (\<not> b \<Longrightarrow> R ()) \<Longrightarrow> runs P (whenM b m) R"
  by (cases b) (simp_all add: runs_ret)

lemma runs_splits:
  "(\<And>a b. p = (a, b) \<Longrightarrow> runs P (f a b) R) \<Longrightarrow> runs P (case p of (a, b) \<Rightarrow> f a b) R"
  "(c \<Longrightarrow> runs P m R) \<Longrightarrow> (\<not> c \<Longrightarrow> runs P m' R) \<Longrightarrow> runs P (if c then m else m') R"
  "(ys = [] \<Longrightarrow> runs P m R) \<Longrightarrow> (\<And>y ys'. ys = y # ys' \<Longrightarrow> runs P (k y ys') R) \<Longrightarrow>
   runs P (case ys of [] \<Rightarrow> m | y # ys' \<Rightarrow> k y ys') R"
  by (auto split: prod.splits list.splits)

lemma runs_for: "(\<And>x. x \<in> set xs \<Longrightarrow> runs P (f x) (\<lambda>_. True)) \<Longrightarrow> R () \<Longrightarrow> runs P (forM xs f) R"
proof (induction xs)
  case (Cons x xs)
  then have "runs P (f x) (\<lambda>_. runs P (forM xs f) R)" unfolding runs_def by (metis list.set_intros)
  then show ?case by (simp add: runs_then)
qed (simp add: runs_ret)

lemma runs_fold: "(\<And>b x. x \<in> set xs \<Longrightarrow> runs P (f b x) (\<lambda>_. True)) \<Longrightarrow> (\<And>b. R b) \<Longrightarrow> runs P (foldM f b xs) R"
proof (induction xs arbitrary: b)
  case (Cons x xs)
  then have "runs P (f b x) (\<lambda>b. runs P (foldM f b xs) R)" unfolding runs_def by (metis list.set_intros)
  then show ?case by (simp add: runs_bind)
qed (simp add: runs_ret)

lemma runs_any: "runs P m (\<lambda>_. True) \<Longrightarrow> (\<And>x. R x) \<Longrightarrow> runs P m R"
  unfolding runs_def by blast

section \<open>Rules, sets and chains\<close>

lemma readyI: "ready (nft n) \<Longrightarrow> ready ((nft n)\<lparr>lastID := i, messages := ms\<rparr>)" "ready (nft n) \<Longrightarrow> ready ((nft n)\<lparr>messages := ms\<rparr>)"
  by (simp_all add: ready_def)

lemma runs_updateRule:
  assumes "cfgOnly P" "answers E" "managedTable (rTable r)" "rHandle r = 0" "rUserData r = userDataComment cm"
    and "action = connAddRule \<or> action = connInsertRule" "R True"
  shows "runs P (updateRule E r action force) R"
  unfolding runs_def
proof (intro allI impI)
  fix n assume n: "P n" "ready (nft n)"
  have op: "\<exists>op. \<forall>c. action r c = connNewRule r op c"
    using assms(4,6) by (auto simp: connAddRule_def connInsertRule_def)
  then obtain op where op: "action r c = connNewRule r op c" for c by blast
  obtain i where act: "onConn (action r) n = (Inr (r\<lparr>rID := i\<rparr>),
      n\<lparr>nft := (nft n)\<lparr>lastID := i, messages := messages (nft n) @ [MsgNewRule op (r\<lparr>rID := i\<rparr>)]\<rparr>\<rparr>)"
    using op assms(4) by (auto simp: onConn_apply connNewRule_def run_simps allocateTransactionID_def queueMsg_apply Let_def)
  have find: "findRule E r n = (Inr None, n)"
    using fresh_rules [of "kernel (nft n)" "rTable r" "rChain r"] n(2) assms(3) answersD [OF assms(2)]
    by (simp add: ready_def findRule_def run_simps onConn_apply GetRules_def readM_apply Let_def)
  obtain k where k: "hashRule E (r\<lparr>rID := i\<rparr>) = Inr k" using answers_hash [OF assms(2)] by blast
  have "updateRule E r action force n = (Inr True,
      n\<lparr>nft := (nft n)\<lparr>lastID := i, messages := messages (nft n) @ [MsgNewRule op (r\<lparr>rID := i\<rparr>)]\<rparr>, nRules := (nRules n)(k \<mapsto> r\<lparr>rID := i\<rparr>)\<rparr>)"
    unfolding updateRule_def assms(5) by (simp add: run_simps find act recordRule_def k)
  then show "\<exists>x n'. updateRule E r action force n = (Inr x, n') \<and> P n' \<and> ready (nft n') \<and> R x"
    using n assms(7) by (auto simp: cfgOnlyD [OF assms(1)] readyI)
qed

lemma runs_updateSet:
  assumes "cfgOnly P" "answers E" "managedTable (sTable s)" "\<not> sAnonymous s" "\<And>s'. R s'"
  shows "runs P (updateSet E s els) R"
  unfolding runs_def
proof (intro allI impI)
  fix n assume n: "P n" "ready (nft n)"
  let ?s = "s\<lparr>sName := shortName (sName s)\<rparr>"
  have get: "onConn (GetSetByName E (sTable ?s) (sName ?s)) n = (Inl (ErrWrap ''receive'' ErrNotExist), n)"
    using fresh_sets [of "kernel (nft n)" "sTable s"] n(2) assms(3) answersD [OF assms(2)]
    by (simp add: ready_def onConn_apply GetSetByName_def readM_apply)
  obtain i j ms where add: "connAddSet ?s els (nft n) = (Inr (?s\<lparr>sID := i\<rparr>), (nft n)\<lparr>lastID := j, messages := ms\<rparr>)"
    using connAddSet_run [of ?s els "nft n"] assms(4) by auto
  have nex: "errorsIs (ErrWrap ''receive'' ErrNotExist) ErrNotExist" by simp
  have "updateSet E s els n = (Inr (?s\<lparr>sID := i\<rparr>),
      n\<lparr>nft := (nft n)\<lparr>lastID := j, messages := ms\<rparr>, nSets := (nSets n)(setKey (sTable ?s) (sName ?s) \<mapsto> ?s\<lparr>sID := i\<rparr>)\<rparr>)"
    using get add nex unfolding updateSet_def Let_def by (simp add: run_simps onConn_apply recordSet_def)
  then show "\<exists>x n'. updateSet E s els n = (Inr x, n') \<and> P n' \<and> ready (nft n') \<and> R x"
    using n assms(5) by (simp add: cfgOnlyD [OF assms(1)] readyI)
qed

lemma addChain_run_total:
  obtains c n' where "addChain E ch n = (Inr c, n')"
proof -
  let ?ch = "ch\<lparr>cName := shortName (cName ch)\<rparr>"
  obtain got where got: "onConn (ListChain E (cTable ?ch) (cName ?ch)) n = (got, n)"
    by (simp add: onConn_apply ListChain_def readM_apply)
  show ?thesis
    by (cases got) (use got that in \<open>auto simp: addChain_def Let_def run_simps recordChain_def onConn_apply connAddChain_def queueMsg_apply\<close>)
qed

lemma runs_addChain:
  assumes "cfgOnly P" "\<And>c. cName c = shortName (cName ch) \<Longrightarrow> cTable c = cTable ch \<Longrightarrow> R c"
  shows "runs P (addChain E ch) R"
  unfolding runs_def
proof (intro allI impI)
  fix n assume n: "P n" "ready (nft n)"
  obtain c n' where run: "addChain E ch n = (Inr c, n')" by (rule addChain_run_total)
  from addChain_run [OF run] n show "\<exists>x n'. addChain E ch n = (Inr x, n') \<and> P n' \<and> ready (nft n') \<and> R x"
    using assms(2) [of c] by (auto simp: run readyI cfgOnlyD [OF assms(1)])
qed

section \<open>Valid policies\<close>

definition validBlock :: "ip_block \<Rightarrow> bool" where
  "validBlock block \<longleftrightarrow> \<not> is_err (getPrefixesAsSetInterval (ibExcept block)) \<and> \<not> is_err (getPrefixesAsSetInterval [ibCIDR block])"

definition validPeer :: "policy_deps \<Rightarrow> pod_info \<Rightarrow> string list \<Rightarrow> policy_peer \<Rightarrow> bool" where
  "validPeer D podInfo nets peer \<longleftrightarrow>
     (case peerIPBlock peer of
        Some block \<Rightarrow> validBlock block
      | None \<Rightarrow> (peerPodSelector peer \<noteq> None \<or> peerNamespaceSelector peer \<noteq> None)
               \<and> \<not> is_err (bindR (selectorAddrs D podInfo nets peer) (\<lambda>as. splitFamilies as [] [])))"

definition validRule :: "policy_deps \<Rightarrow> pod_info \<Rightarrow> string list \<Rightarrow> policy_rule \<Rightarrow> bool" where
  "validRule D podInfo nets r \<longleftrightarrow>
     \<not> is_err (collectPorts (prPorts r) noPorts) \<and> (\<forall>peer \<in> set (prPeers r). validPeer D podInfo nets peer)"

definition validPolicy :: "policy_deps \<Rightarrow> pod_info \<Rightarrow> string \<Rightarrow> internal_policy \<Rightarrow> bool" where
  "validPolicy D podInfo entry ip \<longleftrightarrow>
     (\<forall>r \<in> set (directionRules entry (ipPolicy ip)). validRule D podInfo (ipNetworks ip) r)"

definition validConfig :: "common_rule_config \<Rightarrow> bool" where
  "validConfig cfg \<longleftrightarrow> \<not> is_err (getPrefixesAsSetInterval (allowSrcPrefix cfg)) \<and> \<not> is_err (getPrefixesAsSetInterval (allowDstPrefix cfg))"

lemma snd_enumerate: "ix \<in> set (enumerate k xs) \<Longrightarrow> snd ix \<in> set xs"
  by (induction xs arbitrary: k) auto

context emission
begin

lemma runs_add: "answers E \<Longrightarrow> t = filterTable \<or> t = natTable \<Longrightarrow> R () \<Longrightarrow> runs P (addRule E t c cm es) R"
  unfolding addRule_def
  by (intro runs_then runs_updateRule [OF cfg, where cm = cm] runs_ret) (auto simp: newRuleOf_def)

lemma runs_ins: "answers E \<Longrightarrow> t = filterTable \<or> t = natTable \<Longrightarrow> R () \<Longrightarrow> runs P (insertRule E t c cm es) R"
  unfolding insertRule_def
  by (intro runs_then runs_updateRule [OF cfg, where cm = cm] runs_ret) (auto simp: newRuleOf_def)

lemma runs_addF: "answers E \<Longrightarrow> P n \<Longrightarrow> R () \<Longrightarrow> runs P (addRule E (nFilter n) c cm es) R"
  by (simp add: tabs runs_add)

lemma runs_insF: "answers E \<Longrightarrow> P n \<Longrightarrow> R () \<Longrightarrow> runs P (insertRule E (nFilter n) c cm es) R"
  by (simp add: tabs runs_ins)

lemma runs_set:
  "answers E \<Longrightarrow> sTable s = filterTable \<or> sTable s = natTable \<Longrightarrow> \<not> sAnonymous s \<Longrightarrow> (\<And>s'. R s') \<Longrightarrow> runs P (updateSet E s els) R"
  by (rule runs_updateSet [OF cfg]) auto

lemma runs_chain:
  "(\<And>c. cName c = shortName nm \<Longrightarrow> cTable c = filterTable \<Longrightarrow> R c) \<Longrightarrow> runs P (addChain E (regularChain filterTable nm)) R"
  by (rule runs_addChain [OF cfg]) (simp_all add: regularChain_def)

lemma runs_portSet:
  assumes "answers E" "cTable chain = filterTable" "cTable portChain = filterTable" "R ()"
  shows "runs P (applyPortSet E pn chain portChain pol proto els) R"
  unfolding applyPortSet_def applyProtoPortsRules_def assms(2,3)
  by (intro runs_when runs_splits runs_bind runs_wrap runs_set runs_add)
    (auto simp: assms getInetSet_def nilSet_def Let_def)

lemma runs_ports:
  assumes "answers E" "cTable chain = filterTable" "\<not> is_err (collectPorts ports noPorts)" "R ()"
  shows "runs P (applyPolicyPortsRules E cn chain pol ports i) R"
  unfolding applyPolicyPortsRules_def Let_def assms(2) noPorts_def [symmetric]
  by (intro runs_bind runs_wrap runs_chain runs_then runs_add runs_lift runs_portSet runs_when)
    (auto simp: assms)

lemma runs_prefixes:
  assumes "answers E" "cTable chain = filterTable" "R ()"
  shows "runs P (applyPrefixes E cn chain pol cidr i els exc v6) R"
  unfolding applyPrefixes_def applyExceptPrefixes_def assms(2)
  by (intro runs_splits(2) runs_ret runs_bind runs_then runs_wrap runs_when runs_set runs_add)
    (auto simp: assms nilSet_def)

lemma runs_block:
  assumes "answers E" "cTable chain = filterTable" "validBlock block" "R ()"
  shows "runs P (applyPolicyPeersRulesIPBlock E cn chain pol block i) R"
  unfolding applyPolicyPeersRulesIPBlock_def
  by (intro runs_bind runs_wrap runs_lift runs_splits(1) runs_then runs_prefixes) (use assms in \<open>auto simp: validBlock_def\<close>)

lemma runs_addrs:
  assumes "answers E" "cTable chain = filterTable" "R ()"
  shows "runs P (addIPRule E cn as chain pol peer i) R"
  unfolding addIPRule_def Let_def assms(2)
  by (intro runs_splits(3) runs_ret runs_bind runs_set runs_add) (auto simp: assms nilSet_def)

lemma runs_selector:
  assumes "answers E" "cTable chain = filterTable" "R ()"
    and "\<not> is_err (bindR (selectorAddrs D podInfo nets peer) (\<lambda>as. splitFamilies as [] []))"
  shows "runs P (applyPolicyPeersRulesSelector E D cn chain pol peer podInfo nets i) R"
  unfolding applyPolicyPeersRulesSelector_def addIPRules_def
  by (intro runs_bind runs_wrap runs_lift runs_splits(1) runs_then runs_addrs assms(1-3))
    (use assms(4) in \<open>auto simp: selectorAddrs_def is_err_def split: sum.splits\<close>)

lemma runs_peer:
  assumes "answers E" "cTable chain = filterTable" "R ()" "validPeer D podInfo nets (snd ip)"
  shows "runs P (applyPeer E D cn chain pol podInfo nets ip) R"
proof (cases ip)
  case (Pair i peer)
  show ?thesis
  proof (cases "peerIPBlock peer")
    case None
    then show ?thesis
      unfolding applyPeer_def Pair using assms Pair by (auto simp: validPeer_def intro!: runs_wrap runs_selector)
  next
    case (Some block)
    then show ?thesis
      unfolding applyPeer_def Pair using assms Pair by (auto simp: validPeer_def intro!: runs_wrap runs_block)
  qed
qed

lemma runs_peers:
  assumes "answers E" "cTable chain = filterTable" "R ()" "\<forall>peer \<in> set peers. validPeer D podInfo nets peer"
  shows "runs P (applyPolicyPeersRules E D cn chain pol peers podInfo nets i) R"
  unfolding applyPolicyPeersRules_def Let_def assms(2)
proof (intro runs_bind runs_wrap runs_chain runs_then runs_add runs_for runs_peer runs_when)
  show "validPeer D podInfo nets (snd ip)" if "ip \<in> set (enumerate 0 peers)" for ip
    using assms(4) snd_enumerate [OF that] by simp
qed (auto simp: assms)

lemma runs_rule:
  assumes "answers E" "cTable chain = filterTable" "R ()" "validRule D podInfo nets (snd ir)"
  shows "runs P (applyPolicyRule E D cn chain nm pol podInfo nets ir) R"
  unfolding applyPolicyRule_def applyMarkReset_def applyMarkCheck_def assms(2)
  by (intro runs_splits(1) runs_then runs_wrap runs_bind runs_get runs_addF runs_ports runs_peers runs_add)
    (use assms in \<open>auto simp: validRule_def\<close>)

lemma runs_interfaces:
  assumes "answers E" "\<And>b. R b"
  shows "runs P (foldM (podInterfaceStep E chain pc pol nets) b ifs) R"
proof (rule runs_fold)
  show "runs P (podInterfaceStep E chain pc pol nets b x) (\<lambda>_. True)" for b x
    unfolding podInterfaceStep_def applyPodInterfaceRules_def
    by (intro runs_splits(2) runs_bind runs_wrap runs_get runs_ret runs_updateRule [OF cfg assms(1), where cm = "''policy:'' @ policyNamespacedName pol @ '', name:'' @ cName chain
          @ '', net-attach-def:'' @ netattachName x @ '', interface:'' @ interfaceName x
          @ '', cni:'' @ interfaceType x @ '', jump:'' @ cName pc"])
      (auto simp: newRuleOf_def tabs)
qed (simp add: assms)

lemma runs_policy:
  assumes "answers E" "\<And>b. R b" "validPolicy D podInfo (cName chain) ip"
  shows "runs P (applyPodRules E D chain podInfo (ipPolicy ip) (ipNetworks ip)) R"
proof -
  let ?cn = "policyChainNameOf (cName chain) (ipPolicy ip)"
  have rules: "runs P (forM (enumerate 0 (directionRules (cName chain) (ipPolicy ip)))
      (applyPolicyRule E D ?cn c nm (ipPolicy ip) podInfo (ipNetworks ip))) S"
    if "cTable c = filterTable" "S ()" for c nm S
  proof (rule runs_for [OF runs_rule])
    show "validRule D podInfo (ipNetworks ip) (snd ir)" if "ir \<in> set (enumerate 0 (directionRules (cName chain) (ipPolicy ip)))" for ir
      using assms(3) snd_enumerate [OF that] by (simp add: validPolicy_def)
  qed (use assms(1) that in simp_all)
  have ing: "runs P (forM (enumerate 0 (rulesOf (polIngress (ipPolicy ip))))
      (applyPolicyRule E D ?cn c nm (ipPolicy ip) podInfo (ipNetworks ip))) S"
    if "isIngressChain ?cn" "cTable c = filterTable" "S ()" for c nm S
    using rules [where S = S, OF that(2,3)] that(1) by (simp add: directionRules_def)
  have eg: "runs P (forM (enumerate 0 (rulesOf (polEgress (ipPolicy ip))))
      (applyPolicyRule E D ?cn c nm (ipPolicy ip) podInfo (ipNetworks ip))) S"
    if "\<not> isIngressChain ?cn" "cTable c = filterTable" "S ()" for c nm S
    using rules [where S = S, OF that(2,3)] that(1) by (simp add: directionRules_def)
  show ?thesis
    unfolding applyPodRules_def Let_def policyChainNameOf_def [symmetric]
  proof (rule runs_bind, rule runs_get)
    fix n assume n: "P n"
    show "runs P (bindM (wrapM ''failed to create policy chain'' (addChain E (regularChain (nFilter n) ?cn))) (\<lambda>c.
        bindM (foldM (podInterfaceStep E chain c (ipPolicy ip) (ipNetworks ip)) False (piInterfaces podInfo)) (\<lambda>b.
          thenM (if isIngressChain ?cn
            then forM (enumerate 0 (rulesOf (polIngress (ipPolicy ip)))) (applyPolicyRule E D ?cn c (policyNamespacedName (ipPolicy ip)) (ipPolicy ip) podInfo (ipNetworks ip))
            else forM (enumerate 0 (rulesOf (polEgress (ipPolicy ip)))) (applyPolicyRule E D ?cn c (polName (ipPolicy ip)) (ipPolicy ip) podInfo (ipNetworks ip)))
           (retM b)))) R"
      unfolding tabs [OF n, THEN conjunct1]
      by (intro runs_bind runs_wrap runs_chain runs_interfaces runs_then runs_splits(2) assms(1) ing eg runs_ret assms(2))
  qed
qed

lemma runs_direction:
  assumes "answers E" "cTable chain = filterTable" "R ()" "\<forall>ip \<in> set ips. validPolicy D podInfo (cName chain) ip"
  shows "runs P (applyDirection E D chain podInfo ips) R"
proof -
  have step: "runs P (policyStep E D chain podInfo b ip) (\<lambda>_. True)" if "ip \<in> set ips" for b ip
    unfolding policyStep_def applyGeneralMarkCheck_def
    by (intro runs_bind runs_wrap runs_policy runs_then runs_get runs_addF runs_ret assms(1)) (use assms(4) that in auto)
  show ?thesis
    unfolding applyDirection_def applyDropRemaining_def assms(2)
    by (intro runs_when runs_bind runs_fold step runs_wrap runs_then runs_updateRule [OF cfg assms(1), where cm = "''drop-remaining''"] runs_ret)
      (auto simp: newRuleOf_def assms(3))
qed

end

section \<open>The whole run\<close>

lemma runs_common:
  assumes "answers E" "validConfig cfg" "R ()"
  shows "runs genCfg (applyCommonChainRules E cfg) R"
proof -
  have pre: "runs genCfg (commonPrefixRule E c commonName v6 els) S" if "S ()" for c v6 els S
    unfolding commonPrefixRule_def
    by (intro runs_bind runs_get runs_wrap gen.runs_addF gen.runs_set) (auto simp: assms that genCfg_def nilSet_def)
  have prefixes: "runs genCfg (applyCommonPrefixRules E c ps commonName) S" if "\<not> is_err (getPrefixesAsSetInterval ps)" "S ()" for c ps S
    unfolding applyCommonPrefixRules_def
    by (intro runs_bind runs_wrap runs_lift runs_splits(1) runs_then runs_when pre that)
  have icmp: "runs genCfg (allowICMP E c v6) S" if "S ()" for c v6 S
    unfolding allowICMP_def Let_def by (intro runs_bind runs_get gen.runs_addF) (auto simp: assms that)
  have ndp: "runs genCfg (allowNeighborDiscovery E c) S" if "S ()" for c S
    unfolding allowNeighborDiscovery_def
    by (intro runs_bind runs_get runs_wrap gen.runs_insF gen.runs_set) (auto simp: assms that genCfg_def nilSet_def)
  have ct: "runs genCfg (allowConntracked E c) S" if "S ()" for c S
    unfolding allowConntracked_def by (intro runs_bind runs_get gen.runs_addF) (auto simp: assms that)
  show ?thesis
    unfolding applyCommonChainRules_def Let_def
    by (intro runs_bind runs_get runs_then runs_splits(2) runs_wrap icmp ndp runs_when prefixes ct)
      (use assms in \<open>auto simp: validConfig_def\<close>)
qed

lemma runs_render:
  assumes "answers E" "validConfig cfg" "collectPolicies pod podInfo ps ([], []) = (ips, eps)" "R ()"
    and "\<forall>ip \<in> set ips. validPolicy D podInfo ingressChainName ip" "\<forall>ip \<in> set eps. validPolicy D podInfo egressChainName ip"
  shows "runs genCfg (renderPolicies E D cfg ps pod podInfo) R"
  unfolding renderPolicies_def Let_def assms(3) prod.case
  by (intro runs_then runs_wrap runs_common runs_bind runs_get gen.runs_direction)
    (use assms in \<open>auto simp: genCfg_def sortPolicies_def\<close>)

lemma runs_bootInterfaces:
  assumes "answers E" "R ()"
  shows "runs genCfg (bootstrapInterfaceRules E ifs) R"
  unfolding bootstrapInterfaceRules_def Let_def
  by (intro runs_bind runs_get runs_wrap runs_then runs_modify gen.runs_insF gen.runs_ins gen.runs_set)
    (auto simp: assms genCfg_def ifaceSet_def nilSet_def)

definition tabCfg :: "nftState \<Rightarrow> bool" where
  "tabCfg n \<longleftrightarrow> nFilter n = filterTable \<and> nNat n = natTable"

interpretation boot: emission tabCfg
  by unfold_locales (auto simp: cfgOnly_def tabCfg_def)

lemma runs_bootChains: "R () \<Longrightarrow> runs tabCfg (bootstrapNetfilterChains E) R"
  unfolding bootstrapNetfilterChains_def Let_def
  by (intro runs_bind runs_get runs_wrap runs_then runs_modify runs_addChain [OF boot.cfg]) (auto simp: tabCfg_def)

lemma legacy_nothing:
  assumes "answers E" "\<forall>t \<in> set (ksTables (kernel c)). \<not> legacyTable t"
  shows "CleanupLegacyTables E c = (Inr (), c)"
proof -
  have "forM ts (cleanupLegacyTable E) c = (Inr (), c)" if "\<forall>t \<in> set ts. tName t \<notin> set legacyNames" for ts
    using that by (induction ts) (simp_all add: cleanupLegacyTable_def em_apply)
  moreover have "\<forall>t \<in> set (filter (\<lambda>t. tFamily t = TableFamilyINet) (ksTables (kernel c))). tName t \<notin> set legacyNames"
    using assms(2) by (auto simp: legacyTable_def)
  ultimately show ?thesis
    unfolding CleanupLegacyTables_def ListTablesOfFamily_def by (simp add: run_simps readM_apply answersD [OF assms(1)])
qed

lemma addTable_total:
  assumes "answers E" "ready c"
  shows "\<exists>c'. addTable E t c = (Inr t, c') \<and> ready c'"
proof -
  obtain got where got: "ListTableOfFamily E (tName t) (tFamily t) c = (got, c)" by (simp add: ListTableOfFamily_def readM_apply)
  show ?thesis
  proof (cases got)
    case (Inl e)
    with got have "e = ErrNotExist"
      by (auto simp: ListTableOfFamily_def readM_apply answersD [OF assms(1)] split: option.splits)
    with got Inl assms(2) show ?thesis by (simp add: addTable_def run_simps connAddTable_def queueMsg_apply ready_def)
  next
    case (Inr t0)
    with got have "sameTable t0 t"
      unfolding ListTableOfFamily_def readM_apply sameTable_def by (auto dest: find_SomeD split: option.splits)
    with got Inr assms(2) show ?thesis by (simp add: addTable_def run_simps)
  qed
qed

lemma bootstrap_total:
  assumes "answers E" "ready c" "\<forall>t \<in> set (ksTables (kernel c)). \<not> legacyTable t" "piInterfaces p \<noteq> []"
  shows "\<exists>n c'. bootstrapNetfilterRules E (Some p) c = (Inr (p\<lparr>piInterfaces := sortInterfaces (piInterfaces p)\<rparr>, n), c')
    \<and> nft n = c' \<and> ready c' \<and> genCfg n \<and> kernel c' = kernel c"
proof -
  let ?ifs = "sortInterfaces (piInterfaces p)"
  from addTable_total [OF assms(1,2)] obtain c1 where c1: "addTable E filterTable c = (Inr filterTable, c1)" "ready c1" by blast
  from addTable_total [OF assms(1) c1(2)] obtain c2 where c2: "addTable E natTable c1 = (Inr natTable, c2)" "ready c2" by blast
  let ?n = "(newNftState c2 filterTable natTable)\<lparr>nft := c2\<rparr>"
  have "tabCfg ?n" "ready (nft ?n)" using c2(2) by (simp_all add: tabCfg_def newNftState_def)
  from runsD [OF runs_bootChains [where R = "\<lambda>_. True"] this] obtain x n1
    where n1: "bootstrapNetfilterChains E ?n = (Inr x, n1)" "ready (nft n1)" by blast
  have "genCfg n1" using bootstrapChains_same [OF n1(1)] by (simp add: newNftState_def)
  from runsD [OF runs_bootInterfaces [OF assms(1), where R = "\<lambda>_. True"] this n1(2)] obtain y n2
    where n2: "bootstrapInterfaceRules E ?ifs n1 = (Inr y, n2)" "ready (nft n2)" "genCfg n2" by blast
  have "bootstrapNetfilterRules E (Some p) c = (Inr (p\<lparr>piInterfaces := ?ifs\<rparr>, n2), nft n2)"
    using assms(4) legacy_nothing [OF assms(1,3)] c1(1) c2(1) n1(1) n2(1)
    unfolding bootstrapNetfilterRules_def filterTable_def [symmetric] natTable_def [symmetric]
    by (simp add: run_simps Let_def withState_def)
  moreover have "kernel (nft n2) = kernel c"
    using addTable_run [OF c1(1)] addTable_run [OF c2(1)] keepsD [OF keeps_bootstrapChains n1(1)] keepsD [OF keeps_bootstrapRules n2(1)]
    by (simp add: quietN_def quietC_def newNftState_def)
  ultimately show ?thesis using n2 by blast
qed

text \<open>
  The run for valid policies up to its flush: nothing has reached the kernel, the queue holds the
  transaction, and the result is that of the flush.
\<close>

lemma install_rendered:
  assumes "answers E" "ready c" "\<forall>t \<in> set (ksTables (kernel c)). \<not> legacyTable t" "piInterfaces p \<noteq> []"
    and "podInfo = p\<lparr>piInterfaces := sortInterfaces (piInterfaces p)\<rparr>" "validConfig cfg"
    and "collectPolicies pod podInfo ps ([], []) = (ips, eps)"
    and "\<forall>ip \<in> set ips. validPolicy D podInfo ingressChainName ip" "\<forall>ip \<in> set eps. validPolicy D podInfo egressChainName ip"
  obtains n n1 where "bootstrapNetfilterRules E (Some p) c = (Inr (podInfo, n), nft n)"
    and "renderPolicies E D cfg ps pod podInfo n = (Inr (), n1)" "kernel (nft n1) = kernel c" "connErr (nft n1) = None"
    and "installRules E D cfg ps pod (Some p) c =
      (case connFlush E (nft n1) of (r, c') \<Rightarrow> (case r of Inl e \<Rightarrow> Inl (ErrWrap ''nft flush failed'' e) | Inr _ \<Rightarrow> Inr (podInfo, n1\<lparr>nft := c'\<rparr>), c'))"
proof -
  from bootstrap_total [OF assms(1-4)] obtain n
    where n: "bootstrapNetfilterRules E (Some p) c = (Inr (podInfo, n), nft n)" "ready (nft n)" "genCfg n" "kernel (nft n) = kernel c"
    unfolding assms(5) by blast
  have nn: "n\<lparr>nft := nft n\<rparr> = n" by simp
  from runsD [OF runs_render [OF assms(1,6,7) _ assms(8,9), where R = "\<lambda>_. True"], of n] n obtain n1
    where n1: "renderPolicies E D cfg ps pod podInfo n = (Inr (), n1)" "ready (nft n1)" by auto
  have k: "kernel (nft n1) = kernel c"
    using keepsD [OF keeps_renderPolicies n1(1)] n(4) by (simp add: quietN_def quietC_def)
  have "installRules E D cfg ps pod (Some p) c =
      (case connFlush E (nft n1) of (r, c') \<Rightarrow> (case r of Inl e \<Rightarrow> Inl (ErrWrap ''nft flush failed'' e) | Inr _ \<Rightarrow> Inr (podInfo, n1\<lparr>nft := c'\<rparr>), c'))"
    unfolding installRules_def
    by (cases "connFlush E (nft n1)"; cases "fst (connFlush E (nft n1))")
      (simp_all add: n(1) n1(1) nn run_simps withState_def onConn_apply)
  with n(1) n1 k that show thesis by (auto simp: ready_def)
qed

text \<open>A kernel that also accepts every transaction, for the examples.\<close>

definition healthy :: "nft_env \<Rightarrow> bool" where
  "healthy E \<longleftrightarrow> answers E \<and> (\<forall>rs ms. envCommit E rs ms = Inr (applyMsgs rs ms) \<and> envLate E rs ms = None)"

lemma install_total:
  assumes "healthy E" "ready c" "\<forall>t \<in> set (ksTables (kernel c)). \<not> legacyTable t" "piInterfaces p \<noteq> []"
    and "podInfo = p\<lparr>piInterfaces := sortInterfaces (piInterfaces p)\<rparr>" "validConfig cfg"
    and "collectPolicies pod podInfo ps ([], []) = (ips, eps)"
    and "\<forall>ip \<in> set ips. validPolicy D podInfo ingressChainName ip" "\<forall>ip \<in> set eps. validPolicy D podInfo egressChainName ip"
  shows "\<exists>n c'. installRules E D cfg ps pod (Some p) c = (Inr (podInfo, n), c')"
proof -
  have "answers E" using assms(1) by (simp add: healthy_def)
  from this assms(2-9) obtain n n1 where n1: "connErr (nft n1) = None" and run: "installRules E D cfg ps pod (Some p) c =
      (case connFlush E (nft n1) of (r, c') \<Rightarrow> (case r of Inl e \<Rightarrow> Inl (ErrWrap ''nft flush failed'' e) | Inr _ \<Rightarrow> Inr (podInfo, n1\<lparr>nft := c'\<rparr>), c'))"
    by (rule install_rendered)
  have "fst (connFlush E (nft n1)) = Inr ()" using n1 assms(1) by (simp add: connFlush_def healthy_def Let_def)
  then show ?thesis unfolding run by (cases "connFlush E (nft n1)") simp
qed

end
