(* ===== verification/Enforcement.thy ===== *)
theory Enforcement
  imports Progress
begin

text \<open>
  What the rules of a pod do to its packets.  The policies have a meaning of their own, a function from
  packets to decisions that mentions no chains, sets and marks; the rules that a successful run installs
  in a fresh network namespace decide every packet the way the policies do.
\<close>

section \<open>The meaning of policies\<close>

text \<open>A decision that is still open, or the packet is allowed or denied.\<close>

type_synonym decision = "bool option"

fun firstOf :: "decision list \<Rightarrow> decision" where
  "firstOf [] = None"
| "firstOf (d # ds) = (case d of None \<Rightarrow> firstOf ds | Some b \<Rightarrow> Some b)"

definition memberOf :: "bool \<Rightarrow> set_element list \<Rightarrow> byte list \<Rightarrow> bool" where
  "memberOf interval els key = (if interval then covers els (beVal key) else (\<exists>e \<in> set els. eKey e = key))"

definition portIn :: "packet \<Rightarrow> string \<Rightarrow> set_element list \<Rightarrow> bool" where
  "portIn pk proto els \<longleftrightarrow> [pkL4proto pk] = snd (getProtocolInfo proto)
     \<and> (case payloadAt pk PayloadBaseTransportHeader 2 2 of None \<Rightarrow> False | Some bs \<Rightarrow> memberOf True els bs)"

definition addrIn :: "packet \<Rightarrow> string \<Rightarrow> bool \<Rightarrow> bool \<Rightarrow> set_element list \<Rightarrow> bool" where
  "addrIn pk chainName isV6 interval els \<longleftrightarrow> pkNfproto pk = nfProtocolOf isV6
     \<and> (case payloadAt pk PayloadBaseNetworkHeader (addrOffset chainName isV6) (addrLen isV6) of
          None \<Rightarrow> False | Some bs \<Rightarrow> memberOf interval els bs)"

definition portsMatch :: "packet \<Rightarrow> policy_port list \<Rightarrow> bool" where
  "portsMatch pk ports =
     (case collectPorts ports noPorts of
        Inl _ \<Rightarrow> False
      | Inr acc \<Rightarrow>
          (portsTCP acc = [] \<and> portsUDP acc = [] \<and> portsSCTP acc = [])
          \<or> portIn pk ''TCP'' (portsTCP acc) \<or> portIn pk ''UDP'' (portsUDP acc) \<or> portIn pk ''SCTP'' (portsSCTP acc))"

definition prefixDecision :: "packet \<Rightarrow> string \<Rightarrow> bool \<Rightarrow> set_element list \<Rightarrow> set_element list \<Rightarrow> decision" where
  "prefixDecision pk peersName isV6 prefixes exceptPrefixes =
     (if prefixes = [] then None
      else if addrIn pk peersName isV6 True exceptPrefixes then Some False
      else if addrIn pk peersName isV6 True prefixes then Some True else None)"

definition blockDecision :: "packet \<Rightarrow> string \<Rightarrow> ip_block \<Rightarrow> decision" where
  "blockDecision pk peersName block =
     (case (getPrefixesAsSetInterval (ibExcept block), getPrefixesAsSetInterval [ibCIDR block]) of
        (Inr (v4Except, v6Except), Inr (v4, v6)) \<Rightarrow>
          firstOf [prefixDecision pk peersName False v4 v4Except, prefixDecision pk peersName True v6 v6Except]
      | _ \<Rightarrow> None)"

definition addrsDecision :: "packet \<Rightarrow> string \<Rightarrow> string list \<Rightarrow> decision" where
  "addrsDecision pk peersName addrs =
     (case addrs of
        [] \<Rightarrow> None
      | a # _ \<Rightarrow>
          if addrIn pk peersName (to4 (netParseIP a) = None) False (map (\<lambda>x. startAt (addrKey x)) addrs) then Some True else None)"

definition selectorDecision :: "policy_deps \<Rightarrow> pod_info \<Rightarrow> string list \<Rightarrow> packet \<Rightarrow> string \<Rightarrow> policy_peer \<Rightarrow> decision" where
  "selectorDecision D podInfo nets pk peersName peer =
     (case bindR (selectorAddrs D podInfo nets peer) (\<lambda>as. splitFamilies as [] []) of
        Inl _ \<Rightarrow> None
      | Inr (v4, v6) \<Rightarrow> firstOf [addrsDecision pk peersName v4, addrsDecision pk peersName v6])"

definition peerDecision :: "policy_deps \<Rightarrow> pod_info \<Rightarrow> string list \<Rightarrow> packet \<Rightarrow> string \<Rightarrow> policy_peer \<Rightarrow> decision" where
  "peerDecision D podInfo nets pk peersName peer =
     (case peerIPBlock peer of
        Some block \<Rightarrow> blockDecision pk peersName block
      | None \<Rightarrow> selectorDecision D podInfo nets pk peersName peer)"

definition peersDecision :: "policy_deps \<Rightarrow> pod_info \<Rightarrow> string list \<Rightarrow> packet \<Rightarrow> string \<Rightarrow> policy_peer list \<Rightarrow> decision" where
  "peersDecision D podInfo nets pk peersName peers =
     (if peers = [] then Some True else firstOf (map (peerDecision D podInfo nets pk peersName) peers))"

definition ruleDecision ::
  "policy_deps \<Rightarrow> pod_info \<Rightarrow> string list \<Rightarrow> packet \<Rightarrow> string \<Rightarrow> nat \<times> policy_rule \<Rightarrow> decision" where
  "ruleDecision D podInfo nets pk chainName ir =
     (case ir of (i, r) \<Rightarrow>
        case peersDecision D podInfo nets pk (peersNameOf chainName i) (prPeers r) of
          Some True \<Rightarrow> if portsMatch pk (prPorts r) then Some True else None
        | d \<Rightarrow> d)"

definition ifaceOf :: "string \<Rightarrow> packet \<Rightarrow> byte list" where
  "ifaceOf entry pk = (if isIngressChain entry then pkIif pk else pkOif pk)"

definition onInterface :: "string \<Rightarrow> packet \<Rightarrow> interface_info \<Rightarrow> bool" where
  "onInterface entry pk intf \<longleftrightarrow> take 16 (ifaceOf entry pk) = ifname (interfaceName intf)"

definition policyDecision :: "policy_deps \<Rightarrow> pod_info \<Rightarrow> packet \<Rightarrow> string \<Rightarrow> internal_policy \<Rightarrow> decision" where
  "policyDecision D podInfo pk entry ip =
     (if \<exists>intf \<in> set (piInterfaces podInfo). ifCheckPolicyNetwork intf (ipNetworks ip) \<and> onInterface entry pk intf
      then firstOf (map (ruleDecision D podInfo (ipNetworks ip) pk (policyChainNameOf entry (ipPolicy ip)))
             (enumerate 0 (directionRules entry (ipPolicy ip))))
      else None)"

text \<open>Without policies in a direction everything is allowed, else what no policy allows is denied.\<close>

definition directionAllows :: "policy_deps \<Rightarrow> pod_info \<Rightarrow> packet \<Rightarrow> string \<Rightarrow> internal_policy list \<Rightarrow> bool" where
  "directionAllows D podInfo pk entry ips \<longleftrightarrow>
     ips = [] \<or> firstOf (map (policyDecision D podInfo pk entry) ips) = Some True"

definition prefixesAllow :: "packet \<Rightarrow> string \<Rightarrow> string list \<Rightarrow> bool" where
  "prefixesAllow pk c prefixes =
     (case getPrefixesAsSetInterval prefixes of
        Inl _ \<Rightarrow> False
      | Inr (v4, v6) \<Rightarrow> addrIn pk c False True v4 \<or> addrIn pk c True True v6)"

definition ndpPacket :: "packet \<Rightarrow> bool" where
  "ndpPacket pk \<longleftrightarrow> pkNfproto pk = NFPROTO_IPV6 \<and> pkL4proto pk = IPPROTO_ICMPV6
     \<and> (case payloadAt pk PayloadBaseTransportHeader 0 1 of None \<Rightarrow> False | Some bs \<Rightarrow> bs \<in> {[133], [134], [135], [136]})"

text \<open>What the operator allows for all pods, and what belongs to a known connection.\<close>

definition commonAllows :: "common_rule_config \<Rightarrow> packet \<Rightarrow> string \<Rightarrow> string list \<Rightarrow> bool" where
  "commonAllows cfg pk c prefixes \<longleftrightarrow>
     (if acceptICMPv6 cfg then pkL4proto pk = IPPROTO_ICMPV6 else ndpPacket pk)
     \<or> (acceptICMP cfg \<and> pkL4proto pk = IPPROTO_ICMP)
     \<or> prefixesAllow pk c prefixes
     \<or> pkCt pk AND (CtStateBitESTABLISHED OR CtStateBitRELATED) \<noteq> 0"

section \<open>Chains and sets of a list of operations\<close>

definition addsOf :: "string \<Rightarrow> gop list \<Rightarrow> nft_expr list list" where
  "addsOf c ops = concat (map (\<lambda>op. case op of AddR c' es \<Rightarrow> if c' = c then [es] else [] | _ \<Rightarrow> []) ops)"

definition insOf :: "string \<Rightarrow> gop list \<Rightarrow> nft_expr list list" where
  "insOf c ops = concat (map (\<lambda>op. case op of InsR c' es \<Rightarrow> if c' = c then [es] else [] | _ \<Rightarrow> []) ops)"

lemma addsOf_simps [simp]:
  "addsOf c [] = []" "addsOf c (ops @ ops') = addsOf c ops @ addsOf c ops'"
  "addsOf c (AddR c' es # ops) = (if c' = c then es # addsOf c ops else addsOf c ops)"
  "addsOf c (InsR c' es # ops) = addsOf c ops" "addsOf c (SetE n iv els # ops) = addsOf c ops"
  by (simp_all add: addsOf_def)

lemma insOf_simps [simp]:
  "insOf c [] = []" "insOf c (ops @ ops') = insOf c ops @ insOf c ops'"
  "insOf c (AddR c' es # ops) = insOf c ops"
  "insOf c (InsR c' es # ops) = (if c' = c then es # insOf c ops else insOf c ops)" "insOf c (SetE n iv els # ops) = insOf c ops"
  by (simp_all add: insOf_def)

lemma chain_ops: "vChain (applyOps ops v) c = rev (insOf c ops) @ vChain v c @ addsOf c ops"
proof (induction ops arbitrary: v)
  case (Cons op ops)
  then show ?case by (cases op) auto
qed simp

fun chainOf :: "gop \<Rightarrow> string list" where
  "chainOf (AddR c es) = [c]"
| "chainOf (InsR c es) = [c]"
| "chainOf (SetE n iv els) = []"

definition chainsIn :: "gop list \<Rightarrow> string set" where
  "chainsIn ops = set (concat (map chainOf ops))"

lemma chainsIn_simps [simp]:
  "chainsIn [] = {}" "chainsIn (op # ops) = set (chainOf op) \<union> chainsIn ops" "chainsIn (ops @ ops') = chainsIn ops \<union> chainsIn ops'"
  "chainsIn (concat (map f xs)) = (\<Union>x \<in> set xs. chainsIn (f x))"
  by (auto simp: chainsIn_def)

lemma notin_ops: "c \<notin> chainsIn ops \<Longrightarrow> addsOf c ops = [] \<and> insOf c ops = []"
proof (induction ops)
  case (Cons op ops)
  then show ?case by (cases op) auto
qed simp

lemma addsOf_part:
  assumes "x \<in> set xs" "distinct xs" "\<And>y. y \<in> set xs \<Longrightarrow> y \<noteq> x \<Longrightarrow> c \<notin> chainsIn (f y)"
  shows "addsOf c (concat (map f xs)) = addsOf c (f x)"
proof -
  from split_list [OF assms(1)] obtain ys zs where xs: "xs = ys @ x # zs" by blast
  with assms(2,3) have "c \<notin> chainsIn (concat (map f ys))" "c \<notin> chainsIn (concat (map f zs))" by auto
  then show ?thesis by (simp add: xs notin_ops)
qed

text \<open>Operations on a set agree when they give it the same elements.\<close>

definition setsAgree :: "gop list \<Rightarrow> bool" where
  "setsAgree ops \<longleftrightarrow> (\<forall>op \<in> set ops. \<forall>op' \<in> set ops.
     case (op, op') of (SetE n iv els, SetE n' iv' els') \<Rightarrow> n = n' \<longrightarrow> iv = iv' \<and> els = els' | _ \<Rightarrow> True)"

lemma setsAgreeD: "setsAgree ops \<Longrightarrow> SetE n iv els \<in> set ops \<Longrightarrow> SetE n iv' els' \<in> set ops \<Longrightarrow> iv' = iv \<and> els' = els"
  unfolding setsAgree_def by fastforce

lemma covers_ids: "covers els v \<longleftrightarrow> (\<exists>s \<in> elemId ` set els. \<not> snd s \<and> beVal (fst s) \<le> v
     \<and> (\<forall>e \<in> elemId ` set els. snd e \<longrightarrow> beVal (fst s) < beVal (fst e) \<longrightarrow> v < beVal (fst e)))"
  by (simp add: covers_def elemId_def)

lemma memberOf_ids: "elemId ` set els = elemId ` set els' \<Longrightarrow> memberOf iv els = memberOf iv els'"
proof -
  have keys: "(\<exists>e \<in> set es. eKey e = key) \<longleftrightarrow> key \<in> fst ` elemId ` set es" for es key by (auto simp: elemId_def image_def)
  assume "elemId ` set els = elemId ` set els'"
  then show ?thesis by (simp add: memberOf_def fun_eq_iff keys covers_ids del: bex_simps)
qed

lemma set_ops:
  assumes "\<And>iv' els'. SetE n iv' els' \<in> set ops \<Longrightarrow> iv' = iv \<and> els' = els"
    and "vSet v n = None \<and> SetE n iv els \<in> set ops \<or> (\<exists>els0. vSet v n = Some (iv, els0) \<and> elemId ` set els0 = elemId ` set els)"
  shows "\<exists>els0. vSet (applyOps ops v) n = Some (iv, els0) \<and> elemId ` set els0 = elemId ` set els"
  using assms
proof (induction ops arbitrary: v)
  case (Cons op ops)
  show ?case
  proof (cases "\<exists>iv' els'. op = SetE n iv' els'")
    case True
    then have op: "op = SetE n iv els" using Cons.prems(1) by auto
    have "\<exists>els0. vSet (applyOp op v) n = Some (iv, els0) \<and> elemId ` set els0 = elemId ` set els"
      using Cons.prems(2) by (auto simp: op ids_addElems)
    then show ?thesis unfolding applyOps_simps using Cons.prems(1) by (intro Cons.IH disjI2) auto
  next
    case False
    then have "vSet (applyOp op v) n = vSet v n" by (cases op) auto
    then have "vSet (applyOp op v) n = None \<and> SetE n iv els \<in> set ops
        \<or> (\<exists>els0. vSet (applyOp op v) n = Some (iv, els0) \<and> elemId ` set els0 = elemId ` set els)"
      using Cons.prems(2) False by auto
    from Cons.IH [OF _ this] show ?thesis using Cons.prems(1) by (metis applyOps_simps(2) list.set_intros(2))
  qed
qed simp

definition fwView :: "bool \<Rightarrow> view \<Rightarrow> fw" where
  "fwView little v =
     \<lparr>fwLittle = little, fwChain = vChain v,
      fwSet = (\<lambda>n key. case vSet v n of None \<Rightarrow> False | Some (iv, els) \<Rightarrow> memberOf iv els key)\<rparr>"

lemma fwOf_view: "fwOf little t rs = fwView little (viewOf t rs)"
  by (auto simp: fwOf_def fwView_def viewOf_def setMember_def memberOf_def fun_eq_iff split: option.splits)

section \<open>Evaluating the chains of a policy\<close>

text \<open>
  A firewall holds operations when its chains \<open>C\<close> have exactly the rules they append and its sets have
  their elements.
\<close>

definition holdsOps :: "fw \<Rightarrow> string set \<Rightarrow> gop list \<Rightarrow> bool" where
  "holdsOps F C ops \<longleftrightarrow> (\<forall>c \<in> C. fwChain F c = addsOf c ops)
     \<and> (\<forall>n iv els. SetE n iv els \<in> set ops \<longrightarrow> fwSet F n = memberOf iv els)"

lemma holdsOps_set: "holdsOps F C ops \<Longrightarrow> SetE n iv els \<in> set ops \<Longrightarrow> fwSet F n = memberOf iv els"
  by (simp add: holdsOps_def)

lemma holdsOps_sub: "holdsOps F C ops \<Longrightarrow> set ops' \<subseteq> set ops \<Longrightarrow> holdsOps F {} ops'"
  by (auto simp: holdsOps_def)

lemma holdsOps_part:
  assumes "holdsOps F C ops" "set ops' \<subseteq> set ops" "C' \<subseteq> C" "\<And>c. c \<in> C' \<Longrightarrow> addsOf c ops = addsOf c ops'"
  shows "holdsOps F C' ops'"
  using assms by (auto simp: holdsOps_def)

lemma marks: "matchRuleMark = portRuleMark OR peerRuleMark"
  by (simp add: matchRuleMark_def portRuleMark_def peerRuleMark_def)

text \<open>The mark after the port and peer chains of a rule.\<close>

definition markIf :: "bool \<Rightarrow> 32 word \<Rightarrow> 32 word \<Rightarrow> 32 word" where
  "markIf b m mk = (if b then mk OR m else mk)"

lemma markIf_or: "markIf a m (markIf b m mk) = markIf (a \<or> b) m mk"
  by (simp add: markIf_def or.assoc)

lemma full_both: "fullMark (markIf q peerRuleMark (markIf p portRuleMark (mk AND NOT matchRuleMark))) \<longleftrightarrow> p \<and> q"
proof -
  have dist: "portRuleMark AND matchRuleMark = portRuleMark" "peerRuleMark AND matchRuleMark = peerRuleMark"
    "portRuleMark \<noteq> matchRuleMark" "peerRuleMark \<noteq> matchRuleMark" "(0 :: 32 word) \<noteq> matchRuleMark"
    "portRuleMark OR peerRuleMark = matchRuleMark"
    by (simp_all add: matchRuleMark_def portRuleMark_def peerRuleMark_def)
  have clear: "(mk AND NOT matchRuleMark) AND matchRuleMark = 0" by (simp add: and.assoc)
  have "(x OR y) AND matchRuleMark = (x AND matchRuleMark) OR (y AND matchRuleMark)" for x y
    by (simp add: bit.conj_disj_distrib2)
  then show ?thesis by (simp add: markIf_def fullMark_def clear dist)
qed

lemma eval_portSet:
  assumes "fwLittle F = envLittle E" "holdsOps F {} (portSetOps E pn c proto els)" "snd (getProtocolInfo proto) = [p]"
  shows "evalRules d F pk (addsOf c (portSetOps E pn c proto els) @ rs) mk = evalRules d F pk rs (markIf (portIn pk proto els) portRuleMark mk)"
proof (cases "els = []")
  case True
  then show ?thesis by (auto simp: portSetOps_def markIf_def portIn_def memberOf_def covers_def split: option.splits)
next
  case False
  then have "fwSet F (portSetName pn proto) = memberOf True els"
    using assms(2) by (intro holdsOps_set) (auto simp: portSetOps_def)
  then have "portHit F pk [p] (portSetName pn proto) = portIn pk proto els"
    using assms(3) by (simp add: portHit_def portIn_def split: option.splits)
  with False exec_port [OF assms(1), where pk = pk and p = p and n = "portSetName pn proto" and i = 0 and m = portRuleMark and mk = mk] show ?thesis
    by (simp add: portSetOps_def assms(3) markIf_def)
qed

lemma eval_ports:
  assumes "fwLittle F = envLittle E" "holdsOps F {c} (portChainOps E pn c ports)"
  shows "evalRules d F pk (fwChain F c) mk = Ended (markIf (portsMatch pk ports) portRuleMark mk)"
proof (cases "collectPorts ports noPorts")
  case (Inl e)
  with assms(2) have "fwChain F c = []" by (simp add: holdsOps_def portChainOps_def)
  then show ?thesis by (simp add: portsMatch_def Inl markIf_def)
next
  case acc: (Inr acc)
  note run = portChainOps_def [of E pn c ports, unfolded acc sum.case]
  have sets: "holdsOps F {} (portSetOps E pn c ''TCP'' (portsTCP acc))" "holdsOps F {} (portSetOps E pn c ''UDP'' (portsUDP acc))"
    "holdsOps F {} (portSetOps E pn c ''SCTP'' (portsSCTP acc))"
    by (rule holdsOps_sub [OF assms(2)], auto simp: run)+
  have protos: "\<exists>p. snd (getProtocolInfo ''TCP'') = [p]" "\<exists>p. snd (getProtocolInfo ''UDP'') = [p]" "\<exists>p. snd (getProtocolInfo ''SCTP'') = [p]"
    by (simp_all add: getProtocolInfo_def)
  then obtain t u w where p: "snd (getProtocolInfo ''TCP'') = [t]" "snd (getProtocolInfo ''UDP'') = [u]" "snd (getProtocolInfo ''SCTP'') = [w]"
    by blast
  let ?none = "portsTCP acc = [] \<and> portsUDP acc = [] \<and> portsSCTP acc = []"
  have empty: "ports = [] \<Longrightarrow> ?none" using acc by (auto simp: noPorts_def)
  have chain: "fwChain F c = addsOf c (portChainOps E pn c ports)" using assms(2) by (simp add: holdsOps_def)
  have "evalRules d F pk (fwChain F c) mk = evalRules d F pk (if ?none then [zeroCounter # setMarkExprs E portRuleMark] else [])
      (markIf (portIn pk ''SCTP'' (portsSCTP acc) \<or> portIn pk ''UDP'' (portsUDP acc) \<or> portIn pk ''TCP'' (portsTCP acc)) portRuleMark mk)"
    using empty unfolding chain run addsOf_simps eval_portSet [OF assms(1) sets(1) p(1)] eval_portSet [OF assms(1) sets(2) p(2)]
      eval_portSet [OF assms(1) sets(3) p(3)] markIf_or by auto
  also have "\<dots> = Ended (markIf (portsMatch pk ports) portRuleMark mk)"
    using exec_markAll [OF assms(1), of pk portRuleMark] by (auto simp: portsMatch_def acc markIf_def or.assoc)
  finally show ?thesis .
qed

text \<open>Rules that take a decision in a peers chain: mark and return, or drop, or go on.\<close>

definition decides :: "nat \<Rightarrow> fw \<Rightarrow> packet \<Rightarrow> nft_expr list list \<Rightarrow> decision \<Rightarrow> bool" where
  "decides d F pk rules dec \<longleftrightarrow> (\<forall>mk rs. evalRules d F pk (rules @ rs) mk =
     (case dec of None \<Rightarrow> evalRules d F pk rs mk | Some b \<Rightarrow> if b then Returned (mk OR peerRuleMark) else Dropped))"

lemma decides_nil: "decides d F pk [] None"
  by (simp add: decides_def)

lemma decides_append: "decides d F pk rs a \<Longrightarrow> decides d F pk rs' b \<Longrightarrow> decides d F pk (rs @ rs') (firstOf [a, b])"
  by (auto simp: decides_def split: option.splits)

lemma decides_concat:
  "(\<And>x. x \<in> set xs \<Longrightarrow> decides d F pk (g x) (f x)) \<Longrightarrow> decides d F pk (concat (map g xs)) (firstOf (map f xs))"
  by (induction xs) (auto simp: decides_def split: option.splits)

lemma decides_addr:
  assumes "fwSet F nm = memberOf iv els"
  shows "fwLittle F = envLittle E \<Longrightarrow>
      decides d F pk [addrMarkRule E cn v6 nm] (if addrIn pk cn v6 iv els then Some True else None)"
    and "decides d F pk [addrVerdictRule cn v6 nm VerdictDrop] (if addrIn pk cn v6 iv els then Some False else None)"
proof -
  have hit: "addrHit F pk cn v6 (sName (setRef nm)) = addrIn pk cn v6 iv els"
    using assms by (simp add: addrHit_def addrIn_def split: option.splits)
  show "decides d F pk [addrMarkRule E cn v6 nm] (if addrIn pk cn v6 iv els then Some True else None)" if "fwLittle F = envLittle E"
    unfolding decides_def addrMarkRule_def using hit by (simp add: exec_addr_mark [OF that])
  show "decides d F pk [addrVerdictRule cn v6 nm VerdictDrop] (if addrIn pk cn v6 iv els then Some False else None)"
    unfolding decides_def addrVerdictRule_def using hit by (simp add: exec_addr)
qed

lemma addrIn_none: "\<not> addrIn pk cn v6 True []"
  by (simp add: addrIn_def memberOf_def covers_def split: option.splits)

lemma decides_prefix:
  assumes "fwLittle F = envLittle E" "holdsOps F {} (prefixOps E cn c i pre exc v6)"
  shows "decides d F pk (addsOf c (prefixOps E cn c i pre exc v6)) (prefixDecision pk cn v6 pre exc)"
proof (cases "pre = []")
  case True
  then show ?thesis by (simp add: prefixOps_def prefixDecision_def decides_nil)
next
  case False
  let ?p = "shortName (ipBlockSetName cn peerIPBlockPrefix v6 i)" and ?e = "shortName (ipBlockSetName cn peerIPBlockExceptPrefix v6 i)"
  have p: "fwSet F ?p = memberOf True pre" by (rule holdsOps_set [OF assms(2)]) (simp add: prefixOps_def False)
  show ?thesis
  proof (cases "exc = []")
    case True
    then show ?thesis
      using decides_addr(1) [OF p assms(1), of d pk cn v6] False addrIn_none [of pk cn v6] by (simp add: prefixOps_def prefixDecision_def)
  next
    case exc: False
    have e: "fwSet F ?e = memberOf True exc" by (rule holdsOps_set [OF assms(2)]) (simp add: prefixOps_def False exc)
    from decides_append [OF decides_addr(2) [OF e] decides_addr(1) [OF p assms(1)], of d pk cn v6 cn v6] False exc show ?thesis
      by (auto simp: prefixOps_def prefixDecision_def split: if_splits)
  qed
qed

lemma decides_addrs:
  assumes "fwLittle F = envLittle E" "holdsOps F {} (addrOps E cn c i peer as)"
  shows "decides d F pk (addsOf c (addrOps E cn c i peer as)) (addrsDecision pk cn as)"
proof (cases as)
  case Nil
  then show ?thesis by (simp add: addrOps_def addrsDecision_def decides_nil)
next
  case (Cons a as')
  let ?v6 = "to4 (netParseIP a) = None"
  have "fwSet F (selectorSetName cn i peer ?v6) = memberOf False (map (\<lambda>x. startAt (addrKey x)) as)"
    by (rule holdsOps_set [OF assms(2)]) (simp add: addrOps_def Cons Let_def)
  from decides_addr(1) [OF this assms(1), of d pk cn ?v6] show ?thesis by (simp add: Cons addrOps_def addrsDecision_def Let_def)
qed

lemma decides_peer:
  assumes "fwLittle F = envLittle E" "holdsOps F {} (peerOps E D podInfo nets cn c (i, peer))"
  shows "decides d F pk (addsOf c (peerOps E D podInfo nets cn c (i, peer))) (peerDecision D podInfo nets pk cn peer)"
proof (cases "peerIPBlock peer")
  case (Some block)
  show ?thesis
  proof (cases "getPrefixesAsSetInterval (ibExcept block)"; cases "getPrefixesAsSetInterval [ibCIDR block]")
    fix a b assume ab: "getPrefixesAsSetInterval (ibExcept block) = Inr a" "getPrefixesAsSetInterval [ibCIDR block] = Inr b"
    have "holdsOps F {} (prefixOps E cn c i (fst b) (fst a) False)" "holdsOps F {} (prefixOps E cn c i (snd b) (snd a) True)"
      by (rule holdsOps_sub [OF assms(2)], cases a; cases b; auto simp: peerOps_def Some blockOps_def ab)+
    from decides_append [OF this [THEN decides_prefix [OF assms(1)]]] show ?thesis
      by (cases a; cases b) (simp add: peerOps_def peerDecision_def Some blockOps_def blockDecision_def ab)
  qed (simp_all add: peerOps_def peerDecision_def Some blockOps_def blockDecision_def decides_nil split: prod.splits)
next
  case None
  show ?thesis
  proof (cases "bindR (selectorAddrs D podInfo nets peer) (\<lambda>as. splitFamilies as [] [])")
    case (Inr a)
    have "holdsOps F {} (addrOps E cn c i peer (fst a))" "holdsOps F {} (addrOps E cn c i peer (snd a))"
      by (rule holdsOps_sub [OF assms(2)], cases a; auto simp: peerOps_def None selectorOps_def Inr)+
    from decides_append [OF this [THEN decides_addrs [OF assms(1)]]] show ?thesis
      by (cases a) (simp add: peerOps_def peerDecision_def None selectorOps_def selectorDecision_def Inr)
  qed (simp add: peerOps_def peerDecision_def None selectorOps_def selectorDecision_def decides_nil)
qed

lemma addsOf_concat: "addsOf c (concat opss) = concat (map (addsOf c) opss)"
  by (induction opss) simp_all

lemma map_enumerate: "map (\<lambda>ip. f (snd ip)) (enumerate k xs) = map f xs"
  by (induction xs arbitrary: k) simp_all

lemma jump_rule:
  "evalRules (Suc d) F pk (jumpTo c # rs) mk =
     (case evalRules d F pk (fwChain F c) mk of
        Returned mk' \<Rightarrow> evalRules (Suc d) F pk rs mk' | Ended mk' \<Rightarrow> evalRules (Suc d) F pk rs mk' | decided \<Rightarrow> decided)"
  by (simp add: exec_jump split: outcome.splits)

lemma eval_peers:
  assumes "fwLittle F = envLittle E" "holdsOps F {c} (peerChainOps E D podInfo nets cn c peers)"
  shows "evalRules (Suc d) F pk (jumpTo c # rs) mk =
     (case peersDecision D podInfo nets pk cn peers of
        Some False \<Rightarrow> Dropped
      | dec \<Rightarrow> evalRules (Suc d) F pk rs (markIf (dec = Some True) peerRuleMark mk))"
proof -
  have chain: "fwChain F c = addsOf c (peerChainOps E D podInfo nets cn c peers)" using assms(2) by (simp add: holdsOps_def)
  show ?thesis
  proof (cases "peers = []")
    case True
    then show ?thesis
      unfolding jump_rule chain
      using exec_markAll [OF assms(1), of pk peerRuleMark] by (simp add: peerChainOps_def peersDecision_def markIf_def)
  next
    case False
    have "holdsOps F {} (peerOps E D podInfo nets cn c ip)" if "ip \<in> set (enumerate 0 peers)" for ip
      by (rule holdsOps_sub [OF assms(2)]) (use that in \<open>auto simp: peerChainOps_def\<close>)
    then have "decides d F pk (addsOf c (peerOps E D podInfo nets cn c ip)) (peerDecision D podInfo nets pk cn (snd ip))"
      if "ip \<in> set (enumerate 0 peers)" for ip
      using decides_peer [OF assms(1)] that by (cases ip) simp
    from decides_concat [where xs = "enumerate 0 peers" and f = "\<lambda>ip. peerDecision D podInfo nets pk cn (snd ip)"
        and g = "\<lambda>ip. addsOf c (peerOps E D podInfo nets cn c ip)", OF this]
    have "decides d F pk (fwChain F c) (firstOf (map (peerDecision D podInfo nets pk cn) peers))"
      using False unfolding chain peerChainOps_def map_enumerate by (simp add: addsOf_concat comp_def)
    then have "evalRules d F pk (fwChain F c @ []) mk =
        (case peersDecision D podInfo nets pk cn peers of None \<Rightarrow> evalRules d F pk [] mk | Some b \<Rightarrow> if b then Returned (mk OR peerRuleMark) else Dropped)"
      using False unfolding decides_def peersDecision_def by (simp del: append_Nil2)
    then show ?thesis
      unfolding jump_rule by (simp add: markIf_def split: option.splits bool.splits)
  qed
qed

text \<open>
  A rule of a policy, and all of them.  After rules without a decision the full mark is not set, unless
  it was before and there were none.
\<close>

definition ruleNames :: "string \<Rightarrow> nat \<Rightarrow> string list" where
  "ruleNames chainName i = [shortName (portsNameOf chainName i), shortName (peersNameOf chainName i)]"

fun settled :: "decision \<Rightarrow> 32 word \<Rightarrow> outcome \<Rightarrow> bool" where
  "settled (Some False) mk out = (out = Dropped)"
| "settled (Some True) mk out = (\<exists>mk'. out = Returned mk' \<and> fullMark mk')"
| "settled None mk out = (\<exists>mk'. out = Ended mk' \<and> (\<not> fullMark mk \<longrightarrow> \<not> fullMark mk'))"

definition settles :: "bool \<Rightarrow> nat \<Rightarrow> fw \<Rightarrow> packet \<Rightarrow> nft_expr list list \<Rightarrow> decision \<Rightarrow> bool" where
  "settles clean d F pk rules dec \<longleftrightarrow> (\<forall>mk. (clean \<longrightarrow> \<not> fullMark mk) \<longrightarrow> settled dec mk (evalRules d F pk rules mk))"

lemma settles_nil: "settles clean d F pk [] None"
  by (simp add: settles_def)

lemma settledE:
  assumes "settled dec mk out"
  obtains (dropped) "dec = Some False" "out = Dropped"
    | (returned) mk' where "dec = Some True" "out = Returned mk'" "fullMark mk'"
    | (ended) mk' where "dec = None" "out = Ended mk'" "\<not> fullMark mk \<longrightarrow> \<not> fullMark mk'"
  using assms by (cases "(dec, mk, out)" rule: settled.cases) auto

lemma settled_trans: "settled None mk (Ended mk') \<Longrightarrow> settled b mk' out \<Longrightarrow> settled b mk out"
  by (cases "(b, mk, out)" rule: settled.cases) auto

lemma settles_append:
  assumes "settles clean d F pk rs a" "settles clean d F pk rs' b"
  shows "settles clean d F pk (rs @ rs') (firstOf [a, b])"
  unfolding settles_def
proof (intro allI impI)
  fix mk assume clean: "clean \<longrightarrow> \<not> fullMark mk"
  with assms(1) have a: "settled a mk (evalRules d F pk rs mk)" by (simp add: settles_def)
  show "settled (firstOf [a, b]) mk (evalRules d F pk (rs @ rs') mk)"
  proof (cases a)
    case None
    with a clean obtain mk' where mk': "evalRules d F pk rs mk = Ended mk'" "clean \<longrightarrow> \<not> fullMark mk'" by auto
    from assms(2) mk'(2) have "settled b mk' (evalRules d F pk rs' mk')" by (simp add: settles_def)
    from settled_trans [OF a [unfolded None mk'] this] show ?thesis
      using None mk' by (cases b) (simp_all add: evalRules_append)
  next
    case (Some x)
    with a show ?thesis by (cases x) (auto simp: evalRules_append)
  qed
qed

lemma settles_concat:
  assumes "\<And>x. x \<in> set xs \<Longrightarrow> settles clean d F pk (g x) (f x)"
  shows "settles clean d F pk (concat (map g xs)) (firstOf (map f xs))"
  using assms
proof (induction xs)
  case (Cons x xs)
  then have "settles clean d F pk (g x @ concat (map g xs)) (firstOf [f x, firstOf (map f xs)])" by (intro settles_append) auto
  then show ?case by (auto split: option.splits)
qed (simp add: settles_nil)

text \<open>One rule: reset the mark, try the ports and the peers, return when both left their bit.\<close>

definition ruleBody :: "nft_env \<Rightarrow> string \<Rightarrow> nat \<Rightarrow> nft_expr list list" where
  "ruleBody E chainName i =
     [resetExprs E, jumpTo (shortName (portsNameOf chainName i)), jumpTo (shortName (peersNameOf chainName i)), checkMarkExprs E]"

lemma reset_rule:
  "fwLittle F = envLittle E \<Longrightarrow> evalRules d F pk (resetExprs E # rs) mk = evalRules d F pk rs (mk AND NOT matchRuleMark)"
  by (simp add: resetExprs_def exec_reset)

lemma settles_rule:
  assumes "fwLittle F = envLittle E"
    and "holdsOps F {shortName (portsNameOf cn i)} (portChainOps E (portsNameOf cn i) (shortName (portsNameOf cn i)) (prPorts r))"
    and "holdsOps F {shortName (peersNameOf cn i)} (peerChainOps E D podInfo nets (peersNameOf cn i) (shortName (peersNameOf cn i)) (prPeers r))"
  shows "settles clean (Suc d) F pk (ruleBody E cn i) (ruleDecision D podInfo nets pk cn (i, r))"
  unfolding settles_def
proof (intro allI impI)
  fix mk
  let ?p = "portsMatch pk (prPorts r)" and ?dec = "peersDecision D podInfo nets pk (peersNameOf cn i) (prPeers r)"
  let ?mk = "\<lambda>q. markIf q peerRuleMark (markIf ?p portRuleMark (mk AND NOT matchRuleMark))"
  have check: "evalRules (Suc d) F pk [checkMarkExprs E] (?mk q) = (if ?p \<and> q then Returned (?mk q) else Ended (?mk q))" for q
    using full_both [of q ?p mk] by (simp add: exec_check [OF assms(1)])
  have "evalRules (Suc d) F pk (ruleBody E cn i) mk =
      (case ?dec of Some False \<Rightarrow> Dropped | dec \<Rightarrow> evalRules (Suc d) F pk [checkMarkExprs E] (?mk (dec = Some True)))"
    unfolding ruleBody_def reset_rule [OF assms(1)] jump_rule [of d F pk "shortName (portsNameOf cn i)"]
      eval_ports [OF assms(1,2)] outcome.case eval_peers [OF assms(1,3)] ..
  then show "settled (ruleDecision D podInfo nets pk cn (i, r)) mk (evalRules (Suc d) F pk (ruleBody E cn i) mk)"
    unfolding check using full_both [of True ?p mk] full_both [of False ?p mk]
    by (auto simp: ruleDecision_def split: option.splits bool.splits)
qed

text \<open>Which chains the operations of a policy write to.\<close>

lemma chains_rule:
  "chainsIn (portChainOps E pn c ports) \<subseteq> {c}" "chainsIn (peerChainOps E D podInfo nets cn c peers) \<subseteq> {c}"
proof -
  have "chainsIn (portSetOps E pn c proto els) \<subseteq> {c}" for proto els by (simp add: portSetOps_def)
  then show "chainsIn (portChainOps E pn c ports) \<subseteq> {c}" by (auto simp: portChainOps_def split: sum.splits)
  have p: "chainsIn (prefixOps E cn c i pre exc v6) \<subseteq> {c}" for i pre exc v6 by (simp add: prefixOps_def)
  have a: "chainsIn (addrOps E cn c i peer as) \<subseteq> {c}" for i peer as by (auto simp: addrOps_def Let_def split: list.splits)
  have "chainsIn (peerOps E D podInfo nets cn c ip) \<subseteq> {c}" for ip
    using p a by (fastforce simp: peerOps_def blockOps_def selectorOps_def split: prod.splits sum.splits option.splits)
  then show "chainsIn (peerChainOps E D podInfo nets cn c peers) \<subseteq> {c}" by (auto simp: peerChainOps_def)
qed

lemma adds_other:
  "x \<noteq> c \<Longrightarrow> addsOf x (portChainOps E pn c ports) = []" "x \<noteq> c \<Longrightarrow> addsOf x (peerChainOps E D podInfo nets cn c peers) = []"
  using chains_rule notin_ops by blast+

lemma chains_ruleOps: "chainsIn (ruleOps E D podInfo nets cn (i, r)) \<subseteq> set (shortName cn # ruleNames cn i)"
  unfolding ruleOps_def ruleNames_def Let_def by (auto dest: chains_rule [THEN subsetD])

lemma adds_ruleOps:
  assumes "distinct (shortName cn # ruleNames cn i)"
  shows "addsOf (shortName cn) (ruleOps E D podInfo nets cn (i, r)) = ruleBody E cn i"
    and "addsOf (shortName (portsNameOf cn i)) (ruleOps E D podInfo nets cn (i, r))
      = addsOf (shortName (portsNameOf cn i)) (portChainOps E (portsNameOf cn i) (shortName (portsNameOf cn i)) (prPorts r))"
    and "addsOf (shortName (peersNameOf cn i)) (ruleOps E D podInfo nets cn (i, r))
      = addsOf (shortName (peersNameOf cn i)) (peerChainOps E D podInfo nets (peersNameOf cn i) (shortName (peersNameOf cn i)) (prPeers r))"
  using assms by (auto simp: ruleOps_def Let_def ruleNames_def ruleBody_def adds_other)

definition policyChains :: "string \<Rightarrow> policy \<Rightarrow> string list" where
  "policyChains entry policy =
     (let cn = policyChainNameOf entry policy in
      shortName cn # concat (map (ruleNames cn) [0..<length (directionRules entry policy)]))"

lemma adds_map_AddR: "addsOf c (map (\<lambda>x. AddR c' (f x)) xs) = (if c' = c then map f xs else [])"
  by (induction xs) auto

lemma addsOf_enumerate:
  assumes "i < length xs" "\<And>j y. j < length xs \<Longrightarrow> j \<noteq> i \<Longrightarrow> c \<notin> chainsIn (f (j, y))"
  shows "addsOf c (concat (map f (enumerate 0 xs))) = addsOf c (f (i, xs ! i))"
proof (rule addsOf_part)
  show "(i, xs ! i) \<in> set (enumerate 0 xs)" using assms(1) by (simp add: in_set_enumerate_eq)
  show "distinct (enumerate 0 xs)" by (simp add: distinct_enumerate)
  show "c \<notin> chainsIn (f y)" if "y \<in> set (enumerate 0 xs)" "y \<noteq> (i, xs ! i)" for y
    using assms(2) [of "fst y" "snd y"] that by (cases y) (auto simp: in_set_enumerate_eq)
qed

lemma distinct_concat_disjoint:
  "distinct (concat (map f xs)) \<Longrightarrow> x \<in> set xs \<Longrightarrow> y \<in> set xs \<Longrightarrow> x \<noteq> y \<Longrightarrow> set (f x) \<inter> set (f y) = {}"
  by (induction xs) auto

lemma distinct_concat_arg: "distinct (concat (map f xs)) \<Longrightarrow> (\<And>x. f x \<noteq> []) \<Longrightarrow> distinct xs"
proof (induction xs)
  case (Cons x xs)
  have "x \<notin> set xs"
  proof
    assume "x \<in> set xs"
    then have "set (f x) \<subseteq> set (concat (map f xs))" by auto
    moreover have "last (f x) \<in> set (f x)" using Cons.prems(2) by simp
    ultimately show False using Cons.prems(1) by auto
  qed
  with Cons show ?case by simp
qed simp

lemma settles_policy:
  assumes "fwLittle F = envLittle E" "distinct (entry # policyChains entry (ipPolicy ip))"
    and "holdsOps F (set (policyChains entry (ipPolicy ip))) (policyOps E D podInfo entry ip)"
  shows "settles clean (Suc d) F pk (fwChain F (shortName (policyChainNameOf entry (ipPolicy ip))))
    (firstOf (map (ruleDecision D podInfo (ipNetworks ip) pk (policyChainNameOf entry (ipPolicy ip)))
       (enumerate 0 (directionRules entry (ipPolicy ip)))))"
proof -
  let ?cn = "policyChainNameOf entry (ipPolicy ip)" and ?rules = "directionRules entry (ipPolicy ip)"
  let ?ops = "ruleOps E D podInfo (ipNetworks ip) ?cn" and ?c = "shortName (policyChainNameOf entry (ipPolicy ip))"
  have d: "distinct (concat (map (ruleNames ?cn) [0..<length ?rules]))" "?c \<noteq> entry"
    "\<And>i. i < length ?rules \<Longrightarrow> ?c \<notin> set (ruleNames ?cn i) \<and> entry \<notin> set (ruleNames ?cn i)"
    using assms(2) by (auto simp: policyChains_def Let_def)
  have di: "distinct (?c # ruleNames ?cn i)" if "i < length ?rules" for i
    using d(1) d(3) [OF that] that by (auto simp: distinct_concat_iff) 
  have entryOps: "addsOf c (policyOps E D podInfo entry ip) = addsOf c (concat (map ?ops (enumerate 0 ?rules)))" if "c \<noteq> entry" for c
    using that by (simp add: policyOps_def adds_map_AddR)
  have other: "c \<notin> chainsIn (?ops (j, y))" if "i < length ?rules" "j < length ?rules" "j \<noteq> i" "c \<in> set (ruleNames ?cn i)" for c i j y
    using chains_ruleOps [of E D podInfo "ipNetworks ip" ?cn j y] distinct_concat_disjoint [OF d(1), of i j] that(1,2) d(3) [OF that(1)] that(3,4) by auto
  have inner: "addsOf c (policyOps E D podInfo entry ip) = addsOf c (?ops (i, ?rules ! i))" if "i < length ?rules" "c \<in> set (ruleNames ?cn i)" for c i
    using entryOps [of c] d(3) [OF that(1)] addsOf_enumerate [OF that(1), of c ?ops] other that by auto
  have rule: "settles clean (Suc d) F pk (ruleBody E ?cn i) (ruleDecision D podInfo (ipNetworks ip) pk ?cn (i, ?rules ! i))" if i: "i < length ?rules" for i
  proof (rule settles_rule [OF assms(1)])
    have sub: "set (?ops (i, ?rules ! i)) \<subseteq> set (policyOps E D podInfo entry ip)"
      using i by (force simp: policyOps_def in_set_enumerate_eq)
    have names: "set (ruleNames ?cn i) \<subseteq> set (policyChains entry (ipPolicy ip))" using i by (force simp: policyChains_def Let_def)
    show "holdsOps F {shortName (portsNameOf ?cn i)} (portChainOps E (portsNameOf ?cn i) (shortName (portsNameOf ?cn i)) (prPorts (?rules ! i)))"
      by (rule holdsOps_part [OF assms(3)])
        (use sub names inner [OF i] adds_ruleOps(2) [OF di [OF i]] in \<open>auto simp: ruleNames_def ruleOps_def Let_def\<close>)
    show "holdsOps F {shortName (peersNameOf ?cn i)} (peerChainOps E D podInfo (ipNetworks ip) (peersNameOf ?cn i) (shortName (peersNameOf ?cn i)) (prPeers (?rules ! i)))"
      by (rule holdsOps_part [OF assms(3)])
        (use sub names inner [OF i] adds_ruleOps(3) [OF di [OF i]] in \<open>auto simp: ruleNames_def ruleOps_def Let_def\<close>)
  qed
  have "fwChain F ?c = addsOf ?c (policyOps E D podInfo entry ip)" using assms(3) by (simp add: holdsOps_def policyChains_def Let_def)
  also have "\<dots> = concat (map (\<lambda>ir. ruleBody E ?cn (fst ir)) (enumerate 0 ?rules))"
  proof -
    have "addsOf ?c (?ops ir) = ruleBody E ?cn (fst ir)" if "ir \<in> set (enumerate 0 ?rules)" for ir
      by (cases ir rule: prod.exhaust) (use that adds_ruleOps(1) [OF di] in \<open>auto simp: in_set_enumerate_eq\<close>)
    then show ?thesis unfolding entryOps [OF d(2)] addsOf_concat map_map comp_def by (metis (no_types, lifting) map_cong)
  qed
  finally show ?thesis
    by (simp only:) (rule settles_concat, use rule in \<open>auto simp: in_set_enumerate_eq\<close>)
qed

section \<open>Evaluating the entry chain\<close>

lemma exec_ifaceRule:
  "execRule F pk (ifaceRule entry c intf) mk = (if onInterface entry pk intf then Some (VerdictJump, c) else None, mk)"
  unfolding ifaceRule_def exec_iface
  by (simp add: onInterface_def ifaceOf_def getMetaKeyInterface_def metaVal_def)

text \<open>The jumps to a policy chain: none or all of them decide, for the interfaces of one policy lead to the same chain.\<close>

lemma eval_ifaces:
  assumes "settles False d F pk (fwChain F c) dec"
  shows "\<exists>mk'. evalRules (Suc d) F pk (map (ifaceRule entry c) ifs @ rs) mk =
        (if (\<exists>intf \<in> set ifs. onInterface entry pk intf) \<and> dec = Some False then Dropped else evalRules (Suc d) F pk rs mk')
     \<and> ((\<exists>intf \<in> set ifs. onInterface entry pk intf) \<or> fullMark mk \<longrightarrow> dec = Some True \<longrightarrow> fullMark mk')
     \<and> (\<not> ((\<exists>intf \<in> set ifs. onInterface entry pk intf) \<and> dec = Some True) \<longrightarrow> \<not> fullMark mk \<longrightarrow> \<not> fullMark mk')"
proof (induction ifs arbitrary: mk)
  case Nil
  show ?case by (rule exI [of _ mk]) simp
next
  case (Cons x ifs)
  show ?case
  proof (cases "onInterface entry pk x")
    case False
    then show ?thesis using Cons.IH [of mk] by (simp add: exec_ifaceRule)
  next
    case True
    have step: "settled dec mk (evalRules d F pk (fwChain F c) mk)" using assms by (simp add: settles_def)
    have run: "evalRules (Suc d) F pk (map (ifaceRule entry c) (x # ifs) @ rs) mk =
        (case evalRules d F pk (fwChain F c) mk of
           Returned mk1 \<Rightarrow> evalRules (Suc d) F pk (map (ifaceRule entry c) ifs @ rs) mk1
         | Ended mk1 \<Rightarrow> evalRules (Suc d) F pk (map (ifaceRule entry c) ifs @ rs) mk1 | decided \<Rightarrow> decided)"
      by (simp add: exec_ifaceRule True split: outcome.splits)
    from step show ?thesis
    proof (cases rule: settledE)
      case dropped
      then show ?thesis unfolding run using True by (intro exI [of _ mk]) simp
    next
      case (returned mk1)
      then show ?thesis unfolding run using True Cons.IH [of mk1] by auto
    next
      case (ended mk1)
      then show ?thesis unfolding run using True Cons.IH [of mk1] by auto
    qed
  qed
qed

lemma settles_block:
  assumes "fwLittle F = envLittle E" "settles False d F pk (fwChain F c) dec"
  shows "settles True (Suc d) F pk (map (ifaceRule entry c) ifs @ [checkMarkExprs E])
    (if \<exists>intf \<in> set ifs. onInterface entry pk intf then dec else None)"
  unfolding settles_def
proof (intro allI impI)
  let ?on = "\<exists>intf \<in> set ifs. onInterface entry pk intf"
  fix mk assume "True \<longrightarrow> \<not> fullMark mk"
  moreover from eval_ifaces [OF assms(2), of entry ifs "[checkMarkExprs E]" mk] obtain mk' where
    "evalRules (Suc d) F pk (map (ifaceRule entry c) ifs @ [checkMarkExprs E]) mk =
        (if ?on \<and> dec = Some False then Dropped else evalRules (Suc d) F pk [checkMarkExprs E] mk')"
    "?on \<or> fullMark mk \<longrightarrow> dec = Some True \<longrightarrow> fullMark mk'" "\<not> (?on \<and> dec = Some True) \<longrightarrow> \<not> fullMark mk \<longrightarrow> \<not> fullMark mk'"
    by blast
  ultimately show "settled (if ?on then dec else None) mk (evalRules (Suc d) F pk (map (ifaceRule entry c) ifs @ [checkMarkExprs E]) mk)"
    by (cases dec; cases "the dec") (auto simp: exec_check [OF assms(1)])
qed

definition directionChains :: "string \<Rightarrow> internal_policy list \<Rightarrow> string list" where
  "directionChains entry ips = concat (map (\<lambda>ip. policyChains entry (ipPolicy ip)) ips)"

lemma chains_policyOps: "chainsIn (policyOps E D podInfo entry ip) \<subseteq> set (entry # policyChains entry (ipPolicy ip))"
proof -
  have "chainsIn (map (\<lambda>intf. AddR entry (f intf)) xs) \<subseteq> {entry}" for f :: "interface_info \<Rightarrow> nft_expr list" and xs
    by (induction xs) auto
  moreover have "chainsIn (ruleOps E D podInfo nets cn ir) \<subseteq> set (shortName cn # ruleNames cn (fst ir))" for nets cn ir
    using chains_ruleOps by (cases ir) simp
  ultimately show ?thesis
    by (fastforce simp: policyOps_def policyChains_def Let_def in_set_enumerate_eq)
qed

lemma adds_policyOps:
  assumes "entry \<notin> set (policyChains entry (ipPolicy ip))"
  shows "addsOf entry (policyOps E D podInfo entry ip) =
    map (ifaceRule entry (shortName (policyChainNameOf entry (ipPolicy ip))))
      (filter (\<lambda>intf. ifCheckPolicyNetwork intf (ipNetworks ip)) (piInterfaces podInfo))"
proof -
  let ?cn = "policyChainNameOf entry (ipPolicy ip)"
  have "chainsIn (ruleOps E D podInfo nets ?cn ir) \<subseteq> set (shortName ?cn # ruleNames ?cn (fst ir))" for nets ir
    using chains_ruleOps by (cases ir) simp
  then have "entry \<notin> chainsIn (concat (map (ruleOps E D podInfo (ipNetworks ip) ?cn) (enumerate 0 (directionRules entry (ipPolicy ip)))))"
    using assms by (fastforce simp: policyChains_def Let_def in_set_enumerate_eq)
  then show ?thesis by (simp add: policyOps_def adds_map_AddR notin_ops)
qed

lemma eval_direction:
  assumes "fwLittle F = envLittle E" "distinct (entry # directionChains entry ips)" "ips \<noteq> []"
    and "holdsOps F (set (directionChains entry ips)) (directionOps E D podInfo entry ips)" "\<not> fullMark mk"
  shows "evalRules (Suc (Suc d)) F pk (addsOf entry (directionOps E D podInfo entry ips)) mk \<noteq> Dropped
    \<longleftrightarrow> directionAllows D podInfo pk entry ips"
proof -
  let ?ops = "\<lambda>ip. policyOps E D podInfo entry ip @ [AddR entry (checkMarkExprs E)]"
  let ?ifs = "\<lambda>ip. filter (\<lambda>intf. ifCheckPolicyNetwork intf (ipNetworks ip)) (piInterfaces podInfo)"
  let ?c = "\<lambda>ip. shortName (policyChainNameOf entry (ipPolicy ip))"
  let ?block = "\<lambda>ip. map (ifaceRule entry (?c ip)) (?ifs ip) @ [checkMarkExprs E]"
  have d: "distinct (concat (map (\<lambda>ip. policyChains entry (ipPolicy ip)) ips))" using assms(2) by (simp add: directionChains_def)
  have notin: "entry \<notin> set (policyChains entry (ipPolicy ip))" if "ip \<in> set ips" for ip
    using assms(2) that by (auto simp: directionChains_def)
  have dip: "distinct (entry # policyChains entry (ipPolicy ip))" if "ip \<in> set ips" for ip
    using notin [OF that] d that by (auto simp: distinct_concat_iff)
  have ips: "distinct ips" by (rule distinct_concat_arg [OF d]) (simp add: policyChains_def Let_def)
  have block: "settles True (Suc (Suc d)) F pk (?block ip) (policyDecision D podInfo pk entry ip)" if ip: "ip \<in> set ips" for ip
  proof -
    have part: "addsOf c (directionOps E D podInfo entry ips) = addsOf c (policyOps E D podInfo entry ip)"
      if c: "c \<in> set (policyChains entry (ipPolicy ip))" for c
    proof -
      have ne: "c \<noteq> entry" using c notin [OF ip] by auto
      have other: "c \<notin> chainsIn (?ops y)" if "y \<in> set ips" "y \<noteq> ip" for y
        using chains_policyOps [of E D podInfo entry y] distinct_concat_disjoint [OF d ip that(1)] that(2) c ne by auto
      from addsOf_part [of ip ips c ?ops, OF ip ips other] show ?thesis using assms(3) ne by (simp add: directionOps_def)
    qed
    have "holdsOps F (set (policyChains entry (ipPolicy ip))) (policyOps E D podInfo entry ip)"
      by (rule holdsOps_part [OF assms(4)]) (use ip assms(3) part in \<open>auto simp: directionOps_def directionChains_def\<close>)
    moreover have on: "(\<exists>intf \<in> set (?ifs ip). onInterface entry pk intf) \<longleftrightarrow>
        (\<exists>intf \<in> set (piInterfaces podInfo). ifCheckPolicyNetwork intf (ipNetworks ip) \<and> onInterface entry pk intf)" by auto
    ultimately show ?thesis
      unfolding policyDecision_def on [symmetric] by (intro settles_block settles_policy dip ip) (simp_all add: assms(1))
  qed
  have rules: "addsOf entry (directionOps E D podInfo entry ips) = concat (map ?block ips) @ [[zeroCounter, Verdict VerdictDrop []]]"
  proof -
    have "addsOf entry (?ops ip) = ?block ip" if "ip \<in> set ips" for ip using adds_policyOps [OF notin [OF that]] by simp
    then have "map (\<lambda>ip. addsOf entry (?ops ip)) ips = map ?block ips" by (intro map_cong refl)
    then show ?thesis using assms(3) unfolding directionOps_def by (simp add: addsOf_concat comp_def cong: map_cong)
  qed
  have "settles True (Suc (Suc d)) F pk (concat (map ?block ips)) (firstOf (map (policyDecision D podInfo pk entry) ips))"
    by (rule settles_concat) (rule block)
  then have "settled (firstOf (map (policyDecision D podInfo pk entry) ips)) mk (evalRules (Suc (Suc d)) F pk (concat (map ?block ips)) mk)"
    using assms(5) unfolding settles_def by blast
  then show ?thesis
    unfolding rules evalRules_append directionAllows_def
    by (cases rule: settledE) (use assms(3) in \<open>auto simp: execRule_def\<close>)
qed

section \<open>Evaluating the common and the base chains\<close>

definition accepts :: "nat \<Rightarrow> fw \<Rightarrow> packet \<Rightarrow> nft_expr list list \<Rightarrow> bool \<Rightarrow> bool" where
  "accepts d F pk rules b \<longleftrightarrow> (\<forall>mk rs. evalRules d F pk (rules @ rs) mk = (if b then Accepted else evalRules d F pk rs mk))"

lemma accepts_nil: "accepts d F pk [] False"
  by (simp add: accepts_def)

lemma accepts_append: "accepts d F pk rs a \<Longrightarrow> accepts d F pk rs' b \<Longrightarrow> accepts d F pk (rs @ rs') (a \<or> b)"
  by (auto simp: accepts_def)

lemma accepts_if: "(c \<Longrightarrow> accepts d F pk rs b) \<Longrightarrow> accepts d F pk (if c then rs else []) (c \<and> b)"
  by (cases c) (simp_all add: accepts_nil)

lemma accepts_icmp: "accepts d F pk [icmpRule v6] (pkL4proto pk = (if v6 then IPPROTO_ICMPV6 else IPPROTO_ICMP))"
  by (simp add: accepts_def icmpRule_def execRule_def cmpEq_def cmpHolds_def metaVal_def)

lemma accepts_ndp:
  assumes "fwSet F ''ndp_set'' = memberOf False ndpElements"
  shows "accepts d F pk [ndpRule] (ndpPacket pk)"
  using assms
  by (auto simp: accepts_def ndpRule_def execRule_def matchProto_def cmpEq_def cmpHolds_def metaVal_def ndpPacket_def
      memberOf_def ndpElements_def split: option.splits)

lemma accepts_conntrack:
  assumes "fwLittle F = envLittle E"
  shows "accepts d F pk [conntrackRule E] (pkCt pk AND (CtStateBitESTABLISHED OR CtStateBitRELATED) \<noteq> 0)"
proof -
  let ?k = "CtStateBitESTABLISHED OR CtStateBitRELATED"
  have zero: "nativePutUint32 l (0 :: 32 word) = [0, 0, 0, 0]" for l using beBytes_4 [of 0] by (simp add: nativePutUint32_def)
  have len: "length (nativePutUint32 l w) = 4" for l and w :: "32 word" by (simp add: nativePutUint32_def beBytes_4)
  have "nativePutUint32 l w = [0, 0, 0, 0] \<longleftrightarrow> w = 0" for l w using nativePut_inj [of l w 0] by (simp add: zero)
  then have "cmpHolds CmpOpNeq (nativePutUint32 l w) [0, 0, 0, 0] \<longleftrightarrow> w \<noteq> 0" for l w by (simp add: cmpHolds_def len)
  then show ?thesis
    by (simp add: accepts_def conntrackRule_def execRule_def bytes_bitwise assms zeroRuleMark_def)
qed

lemma accepts_prefix:
  assumes "\<And>n iv es. SetE n iv es \<in> set (commonPrefixOps c v6 els) \<Longrightarrow> fwSet F n = memberOf iv es"
  shows "accepts d F pk (addsOf c (commonPrefixOps c v6 els)) (addrIn pk c v6 True els)"
proof (cases "els = []")
  case True
  then show ?thesis using addrIn_none [of pk c v6] by (simp add: commonPrefixOps_def accepts_nil)
next
  case False
  then have "fwSet F (commonSetName c v6) = memberOf True els" by (intro assms) (simp add: commonPrefixOps_def)
  then have "addrHit F pk c v6 (sName (setRef (commonSetName c v6))) = addrIn pk c v6 True els"
    by (simp add: addrHit_def addrIn_def split: option.splits)
  then show ?thesis using False by (simp add: accepts_def commonPrefixOps_def addrVerdictRule_def exec_addr)
qed

lemma accepts_prefixes:
  assumes "\<And>n iv es. SetE n iv es \<in> set (commonPrefixesOps c ps) \<Longrightarrow> fwSet F n = memberOf iv es"
  shows "accepts d F pk (addsOf c (commonPrefixesOps c ps)) (prefixesAllow pk c ps)"
proof (cases "ps = []")
  case True
  then show ?thesis
    using addrIn_none [of pk c] by (simp add: commonPrefixesOps_def prefixesAllow_def getPrefixesAsSetInterval_def accepts_nil)
next
  case ps: False
  show ?thesis
  proof (cases "getPrefixesAsSetInterval ps")
    case (Inr a)
    obtain v4 v6 where a: "a = (v4, v6)" by fastforce
    have "accepts d F pk (addsOf c (commonPrefixOps c False v4)) (addrIn pk c False True v4)"
      "accepts d F pk (addsOf c (commonPrefixOps c True v6)) (addrIn pk c True True v6)"
      using assms ps Inr a by (auto intro!: accepts_prefix simp: commonPrefixesOps_def)
    from accepts_append [OF this] Inr ps a show ?thesis by (simp add: commonPrefixesOps_def prefixesAllow_def)
  qed (simp add: ps commonPrefixesOps_def prefixesAllow_def accepts_nil)
qed

text \<open>The rules of a common chain, in their order in the kernel.\<close>

definition commonRules :: "nft_env \<Rightarrow> common_rule_config \<Rightarrow> string \<Rightarrow> string list \<Rightarrow> nft_expr list list" where
  "commonRules E cfg c prefixes =
     [if acceptICMPv6 cfg then icmpRule True else ndpRule] @ (if acceptICMP cfg then [icmpRule False] else [])
     @ addsOf c (commonPrefixesOps c prefixes) @ [conntrackRule E]"

lemma accepts_common:
  assumes "fwLittle F = envLittle E" "\<not> acceptICMPv6 cfg \<Longrightarrow> fwSet F ''ndp_set'' = memberOf False ndpElements"
    and "\<And>n iv es. SetE n iv es \<in> set (commonPrefixesOps c ps) \<Longrightarrow> fwSet F n = memberOf iv es"
  shows "accepts d F pk (commonRules E cfg c ps) (commonAllows cfg pk c ps)"
proof -
  have "accepts d F pk [if acceptICMPv6 cfg then icmpRule True else ndpRule]
      (if acceptICMPv6 cfg then pkL4proto pk = IPPROTO_ICMPV6 else ndpPacket pk)"
    using accepts_icmp [of d F pk True] accepts_ndp [OF assms(2)] by simp
  moreover have "accepts d F pk (if acceptICMP cfg then [icmpRule False] else []) (acceptICMP cfg \<and> pkL4proto pk = IPPROTO_ICMP)"
    using accepts_icmp [of d F pk False] by (intro accepts_if) simp
  ultimately show ?thesis
    unfolding commonRules_def commonAllows_def by (intro accepts_append accepts_prefixes accepts_conntrack assms)
qed

text \<open>A hook: the base chain sends what is on a pod interface to the entry chain, which asks the common chain first.\<close>

definition hookAllows ::
  "policy_deps \<Rightarrow> common_rule_config \<Rightarrow> pod_info \<Rightarrow> packet \<Rightarrow> string \<Rightarrow> string \<Rightarrow> string list \<Rightarrow> internal_policy list \<Rightarrow> bool" where
  "hookAllows D cfg podInfo pk entry common prefixes ips \<longleftrightarrow>
     (\<forall>intf \<in> set (piInterfaces podInfo). ifaceOf entry pk \<noteq> ifname (interfaceName intf))
     \<or> commonAllows cfg pk common prefixes
     \<or> directionAllows D podInfo pk entry ips"

lemma member_interfaces: "memberOf False (interfaceSetElements ifs) key \<longleftrightarrow> (\<exists>intf \<in> set ifs. key = ifname (interfaceName intf))"
proof -
  have "map eKey (interfaceSetElements ifs) = map (\<lambda>ip. ifname (interfaceName (snd ip))) (enumerate 0 ifs)"
    by (auto simp: interfaceSetElements_def split: prod.splits)
  then have "set (map eKey (interfaceSetElements ifs)) = set (map (\<lambda>x. ifname (interfaceName x)) ifs)"
    unfolding map_enumerate [of "\<lambda>x. ifname (interfaceName x)"] by simp
  then have "eKey ` set (interfaceSetElements ifs) = (\<lambda>x. ifname (interfaceName x)) ` set ifs" by simp
  then show ?thesis unfolding memberOf_def by (simp add: set_eq_iff image_iff) metis
qed

lemma eval_hook:
  assumes "fwLittle F = envLittle E" "\<not> fullMark mk"
    and base: "fwChain F base = [entryExprs (getMetaKeyInterface entry) (setRef podInterfacesName) (Verdict VerdictJump entry)]"
    and entry: "fwChain F entry = jumpTo common # addsOf entry (directionOps E D podInfo entry ips)"
    and common: "fwChain F common = commonRules E cfg common prefixes"
    and ifs: "fwSet F podInterfacesName = memberOf False (interfaceSetElements (piInterfaces podInfo))"
    and acc: "\<And>d. accepts d F pk (commonRules E cfg common prefixes) (commonAllows cfg pk common prefixes)"
    and names: "distinct (entry # directionChains entry ips)"
    and ops: "holdsOps F (set (directionChains entry ips)) (directionOps E D podInfo entry ips)"
  shows "hookVerdict F pk mk base \<longleftrightarrow> hookAllows D cfg podInfo pk entry common prefixes ips"
proof -
  let ?onPod = "\<exists>intf \<in> set (piInterfaces podInfo). ifaceOf entry pk = ifname (interfaceName intf)"
  have "evalRules 14 F pk (commonRules E cfg common prefixes @ []) mk = (if commonAllows cfg pk common prefixes then Accepted else Ended mk)"
    using acc [of 14] unfolding accepts_def by (simp del: append_Nil2)
  then have c: "evalRules 14 F pk (fwChain F common) mk = (if commonAllows cfg pk common prefixes then Accepted else Ended mk)"
    by (simp add: common)
  have e: "evalRules 15 F pk (fwChain F entry) mk =
      (if commonAllows cfg pk common prefixes then Accepted else evalRules 15 F pk (addsOf entry (directionOps E D podInfo entry ips)) mk)"
    using jump_rule [of 14 F pk common "addsOf entry (directionOps E D podInfo entry ips)" mk] unfolding entry by (simp add: c)
  have d: "evalRules 15 F pk (addsOf entry (directionOps E D podInfo entry ips)) mk \<noteq> Dropped \<longleftrightarrow> directionAllows D podInfo pk entry ips"
  proof (cases "ips = []")
    case False
    from eval_direction [OF assms(1) names this ops assms(2), of 13 pk] show ?thesis by simp
  qed (simp add: directionOps_def directionAllows_def)
  have "metaVal (fwLittle F) pk mk (getMetaKeyInterface entry) = ifaceOf entry pk"
    by (simp add: metaVal_def getMetaKeyInterface_def ifaceOf_def)
  then have hit: "fwSet F podInterfacesName (metaVal (fwLittle F) pk mk (getMetaKeyInterface entry)) \<longleftrightarrow> ?onPod"
    by (simp add: ifs member_interfaces)
  have "evalRules 16 F pk (fwChain F base) mk =
      (if ?onPod then (case evalRules 15 F pk (fwChain F entry) mk of Returned mk' \<Rightarrow> Ended mk' | Ended mk' \<Rightarrow> Ended mk' | decided \<Rightarrow> decided)
       else Ended mk)"
    unfolding base by (simp add: exec_entry hit split: outcome.splits nat.splits)
  then show ?thesis
    using d unfolding hookVerdict_def jumpStackSize_def hookAllows_def e
    by (auto split: outcome.splits if_splits)
qed

section \<open>The rules of a pod enforce its policies\<close>

lemma insOf_none: "(\<And>c' es. InsR c' es \<notin> set ops) \<Longrightarrow> insOf c ops = []"
proof (induction ops)
  case (Cons op ops)
  then have "insOf c ops = []" "\<And>c' es. op \<noteq> InsR c' es" by auto
  then show ?case by (cases op) auto
qed simp

lemma noIns_direction: "insOf c (directionOps E D podInfo entry ips) = []"
proof -
  have a: "InsR c' es \<notin> set (addrOps E cn x i peer as)" for c' es cn x i peer as
    by (auto simp: addrOps_def Let_def split: list.splits)
  have "InsR c' es \<notin> set (peerOps E D podInfo nets cn x ip)" for c' es nets cn x ip
    using a by (auto simp: peerOps_def blockOps_def prefixOps_def selectorOps_def split: prod.splits sum.splits option.splits)
  then have "InsR c' es \<notin> set (peerChainOps E D podInfo nets cn x peers)" for c' es nets cn x peers
    by (auto simp: peerChainOps_def)
  moreover have "InsR c' es \<notin> set (portChainOps E pn x ports)" for c' es pn x ports
    by (auto simp: portChainOps_def portSetOps_def split: sum.splits)
  ultimately have "InsR c' es \<notin> set (ruleOps E D podInfo nets cn ir)" for c' es nets cn ir
    by (auto simp: ruleOps_def Let_def split: prod.splits)
  then have "InsR c' es \<notin> set (policyOps E D podInfo entry ip)" for c' es ip by (auto simp: policyOps_def)
  then show ?thesis by (intro insOf_none) (auto simp: directionOps_def)
qed

lemma chains_direction: "chainsIn (directionOps E D podInfo entry ips) \<subseteq> set (entry # directionChains entry ips)"
  by (auto simp: directionOps_def directionChains_def dest!: chains_policyOps [THEN subsetD] split: if_splits)

lemma chains_common: "chainsIn (commonPrefixesOps c ps) \<subseteq> {c}"
  by (auto simp: commonPrefixesOps_def commonPrefixOps_def split: sum.splits prod.splits)

lemma commonPrefixes_local: "insOf x (commonPrefixesOps c ps) = []" "x \<noteq> c \<Longrightarrow> addsOf x (commonPrefixesOps c ps) = []"
  using chains_common [of c ps] notin_ops [of x "commonPrefixesOps c ps"]
  by (auto simp: commonPrefixesOps_def commonPrefixOps_def split: sum.splits prod.splits)

lemma chains_fixed:
  "chainsIn (bootOps ifs @ commonOps E cfg)
     \<subseteq> {''input'', ''output'', ingressChainName, egressChainName, commonIngressName, commonEgressName}"
  by (auto simp: bootOps_def commonOps_def Let_def dest!: chains_common [THEN subsetD])

definition chainNames :: "internal_policy list \<Rightarrow> internal_policy list \<Rightarrow> string list" where
  "chainNames ips eps =
     [''input'', ''output'', ingressChainName, egressChainName, commonIngressName, commonEgressName]
     @ directionChains ingressChainName ips @ directionChains egressChainName eps"

definition installedOps ::
  "nft_env \<Rightarrow> policy_deps \<Rightarrow> common_rule_config \<Rightarrow> pod_info \<Rightarrow> internal_policy list \<Rightarrow> internal_policy list \<Rightarrow> gop list" where
  "installedOps E D cfg podInfo ips eps =
     bootOps (piInterfaces podInfo) @ commonOps E cfg
     @ directionOps E D podInfo ingressChainName ips @ directionOps E D podInfo egressChainName eps"

lemma fixed_ne [simp]:
  "''input'' \<noteq> ingressChainName" "''input'' \<noteq> egressChainName" "''input'' \<noteq> commonIngressName" "''input'' \<noteq> commonEgressName"
  "''output'' \<noteq> ingressChainName" "''output'' \<noteq> egressChainName" "''output'' \<noteq> commonIngressName" "''output'' \<noteq> commonEgressName"
  "ingressChainName \<noteq> ''input''" "ingressChainName \<noteq> ''output''" "ingressChainName \<noteq> egressChainName" "ingressChainName \<noteq> commonIngressName"
  "ingressChainName \<noteq> commonEgressName" "egressChainName \<noteq> ''input''" "egressChainName \<noteq> ''output''" "egressChainName \<noteq> ingressChainName"
  "egressChainName \<noteq> commonIngressName" "egressChainName \<noteq> commonEgressName" "commonIngressName \<noteq> ''input''" "commonIngressName \<noteq> ''output''"
  "commonIngressName \<noteq> ingressChainName" "commonIngressName \<noteq> egressChainName" "commonIngressName \<noteq> commonEgressName" "commonEgressName \<noteq> ''input''"
  "commonEgressName \<noteq> ''output''" "commonEgressName \<noteq> ingressChainName" "commonEgressName \<noteq> egressChainName" "commonEgressName \<noteq> commonIngressName"
  by (simp_all add: ingressChainName_def egressChainName_def commonIngressName_def commonEgressName_def commonName_def)

lemma fixed_chains:
  fixes E :: nft_env and D cfg podInfo ips eps
  assumes "distinct (chainNames ips eps)"
  defines "ops \<equiv> installedOps E D cfg podInfo ips eps"
  shows "rev (insOf ''input'' ops) @ addsOf ''input'' ops
      = [entryExprs MetaKeyIIFNAME (setRef podInterfacesName) (Verdict VerdictJump ingressChainName)]"
    and "rev (insOf ''output'' ops) @ addsOf ''output'' ops
      = [entryExprs MetaKeyOIFNAME (setRef podInterfacesName) (Verdict VerdictJump egressChainName)]"
    and "rev (insOf ingressChainName ops) @ addsOf ingressChainName ops
      = jumpTo commonIngressName # addsOf ingressChainName (directionOps E D podInfo ingressChainName ips)"
    and "rev (insOf egressChainName ops) @ addsOf egressChainName ops
      = jumpTo commonEgressName # addsOf egressChainName (directionOps E D podInfo egressChainName eps)"
    and "rev (insOf commonIngressName ops) @ addsOf commonIngressName ops = commonRules E cfg commonIngressName (allowSrcPrefix cfg)"
    and "rev (insOf commonEgressName ops) @ addsOf commonEgressName ops = commonRules E cfg commonEgressName (allowDstPrefix cfg)"
proof -
  have dir: "addsOf c (directionOps E D podInfo entry xs) = []" if "c \<notin> set (entry # directionChains entry xs)" for c entry xs
    using chains_direction [of E D podInfo entry xs] notin_ops that by blast
  note names = assms(1) [unfolded chainNames_def, simplified]
  note defs = ops_def installedOps_def bootOps_def commonOps_def Let_def noIns_direction commonPrefixes_local commonRules_def
  show "rev (insOf ''input'' ops) @ addsOf ''input'' ops
      = [entryExprs MetaKeyIIFNAME (setRef podInterfacesName) (Verdict VerdictJump ingressChainName)]"
    using names by (simp add: defs dir)
  show "rev (insOf ''output'' ops) @ addsOf ''output'' ops
      = [entryExprs MetaKeyOIFNAME (setRef podInterfacesName) (Verdict VerdictJump egressChainName)]"
    using names by (simp add: defs dir)
  show "rev (insOf ingressChainName ops) @ addsOf ingressChainName ops
      = jumpTo commonIngressName # addsOf ingressChainName (directionOps E D podInfo ingressChainName ips)"
    using names by (simp add: defs dir)
  show "rev (insOf egressChainName ops) @ addsOf egressChainName ops
      = jumpTo commonEgressName # addsOf egressChainName (directionOps E D podInfo egressChainName eps)"
    using names by (simp add: defs dir)
  show "rev (insOf commonIngressName ops) @ addsOf commonIngressName ops = commonRules E cfg commonIngressName (allowSrcPrefix cfg)"
    using names by (simp add: defs dir)
  show "rev (insOf commonEgressName ops) @ addsOf commonEgressName ops = commonRules E cfg commonEgressName (allowDstPrefix cfg)"
    using names by (simp add: defs dir)
qed

text \<open>The firewall that a list of operations makes of an empty table.\<close>

lemma fw_chain: "fwChain (fwView l (applyOps ops emptyView)) c = rev (insOf c ops) @ addsOf c ops"
  by (simp add: fwView_def chain_ops emptyView_def)

lemma fw_set:
  assumes "setsAgree ops" "SetE n iv els \<in> set ops"
  shows "fwSet (fwView l (applyOps ops emptyView)) n = memberOf iv els"
proof -
  have "\<exists>els0. vSet (applyOps ops emptyView) n = Some (iv, els0) \<and> elemId ` set els0 = elemId ` set els"
  proof (rule set_ops)
    show "iv' = iv \<and> els' = els" if "SetE n iv' els' \<in> set ops" for iv' els' by (rule setsAgreeD [OF assms that])
  qed (simp add: assms(2) emptyView_def)
  then obtain els0 where v: "vSet (applyOps ops emptyView) n = Some (iv, els0)" and ids: "elemId ` set els0 = elemId ` set els"
    by blast
  from v memberOf_ids [OF ids] show ?thesis by (simp add: fwView_def fun_eq_iff)
qed

lemma fixed_prefix: "isIngressChain ingressChainName" "\<not> isIngressChain egressChainName"
  by (simp_all add: isIngressChain_def hasPrefix_def ingressChainName_def egressChainName_def)

lemma enforced:
  assumes "distinct (chainNames ips eps)" "setsAgree (installedOps E D cfg podInfo ips eps)" "\<not> fullMark mk"
  defines "F \<equiv> fwView (envLittle E) (applyOps (installedOps E D cfg podInfo ips eps) emptyView)"
  shows "hookVerdict F pk mk ''input'' \<longleftrightarrow> hookAllows D cfg podInfo pk ingressChainName commonIngressName (allowSrcPrefix cfg) ips"
    and "hookVerdict F pk mk ''output'' \<longleftrightarrow> hookAllows D cfg podInfo pk egressChainName commonEgressName (allowDstPrefix cfg) eps"
proof -
  let ?ops = "installedOps E D cfg podInfo ips eps"
  let ?in = "directionOps E D podInfo ingressChainName ips" and ?out = "directionOps E D podInfo egressChainName eps"
  have little: "fwLittle F = envLittle E" by (simp add: F_def fwView_def)
  have sets: "fwSet F n = memberOf iv els" if "SetE n iv els \<in> set ?ops" for n iv els
    unfolding F_def by (rule fw_set [OF assms(2) that])
  have ifs: "fwSet F podInterfacesName = memberOf False (interfaceSetElements (piInterfaces podInfo))"
    by (rule sets) (simp add: installedOps_def bootOps_def)
  have acc: "accepts d F pk (commonRules E cfg c ps) (commonAllows cfg pk c ps)"
    if "(c, ps) \<in> {(commonIngressName, allowSrcPrefix cfg), (commonEgressName, allowDstPrefix cfg)}" for d c ps
    by (rule accepts_common [OF little]) (use that in \<open>auto intro!: sets simp: installedOps_def commonOps_def Let_def\<close>)
  note chains = fixed_chains [OF assms(1), of E D cfg podInfo, folded fw_chain [of "envLittle E"], folded F_def]
  have distinct: "distinct (ingressChainName # directionChains ingressChainName ips)" "distinct (egressChainName # directionChains egressChainName eps)"
    using assms(1) by (auto simp: chainNames_def)
  have other: "rev (insOf c ?ops) @ addsOf c ?ops = addsOf c ?in @ addsOf c ?out"
    if "c \<in> set (directionChains ingressChainName ips) \<union> set (directionChains egressChainName eps)" for c
  proof -
    have "c \<notin> chainsIn (bootOps (piInterfaces podInfo) @ commonOps E cfg)"
      using assms(1) that chains_fixed [of "piInterfaces podInfo" E cfg] unfolding chainNames_def by auto
    from notin_ops [OF this] show ?thesis by (simp add: installedOps_def noIns_direction)
  qed
  have chain: "fwChain F c = addsOf c ?in @ addsOf c ?out"
    if "c \<in> set (directionChains ingressChainName ips) \<union> set (directionChains egressChainName eps)" for c
    unfolding F_def fw_chain by (rule other [OF that])
  have sub: "op \<in> set ?in \<Longrightarrow> op \<in> set ?ops" "op \<in> set ?out \<Longrightarrow> op \<in> set ?ops" for op by (simp_all add: installedOps_def)
  have no: "addsOf c ?out = []" if "c \<in> set (directionChains ingressChainName ips)" for c
    using assms(1) that chains_direction [of E D podInfo egressChainName eps] notin_ops [of c ?out] by (auto simp: chainNames_def)
  have ni: "addsOf c ?in = []" if "c \<in> set (directionChains egressChainName eps)" for c
    using assms(1) that chains_direction [of E D podInfo ingressChainName ips] notin_ops [of c ?in] by (auto simp: chainNames_def)
  have ops: "holdsOps F (set (directionChains ingressChainName ips)) ?in" "holdsOps F (set (directionChains egressChainName eps)) ?out"
    unfolding holdsOps_def by (intro conjI ballI allI impI sets; simp add: chain no ni sub)+
  show "hookVerdict F pk mk ''input'' \<longleftrightarrow> hookAllows D cfg podInfo pk ingressChainName commonIngressName (allowSrcPrefix cfg) ips"
    by (rule eval_hook [OF little assms(3) _ chains(3,5) ifs acc distinct(1) ops(1)])
      (simp_all add: chains(1) getMetaKeyInterface_def fixed_prefix)
  show "hookVerdict F pk mk ''output'' \<longleftrightarrow> hookAllows D cfg podInfo pk egressChainName commonEgressName (allowDstPrefix cfg) eps"
    by (rule eval_hook [OF little assms(3) _ chains(4,6) ifs acc distinct(2) ops(2)])
      (simp_all add: chains(2) getMetaKeyInterface_def fixed_prefix)
qed

lemma renderOps_installed:
  "collectPolicies pod podInfo ps ([], []) = (ips, eps) \<Longrightarrow>
   bootOps (piInterfaces podInfo) @ renderOps E D cfg ps pod podInfo = installedOps E D cfg podInfo (sortPolicies ips) (sortPolicies eps)"
  by (simp add: renderOps_def installedOps_def)

text \<open>
  The kernel's decision about a packet at a base chain of the filter table, with the packet's mark, is a
  parameter; it is the one of the documented semantics of the rules.
\<close>

definition nftVerdicts :: "bool \<Rightarrow> (ruleset \<Rightarrow> string \<Rightarrow> packet \<Rightarrow> 32 word \<Rightarrow> bool) \<Rightarrow> bool" where
  "nftVerdicts little passes \<longleftrightarrow>
     (\<forall>rs base pk mk. passes rs base pk mk = hookVerdict (fwOf little filterTable rs) pk mk base)"

lemma installed_verdicts:
  assumes "kernelOK E" "wfRules (kernel c)" "messages c = []" "freshK (kernel c)"
    and "installRules E D cfg ps pod p c = (Inr (podInfo, n), c')"
    and "collectPolicies pod podInfo ps ([], []) = (ips, eps)"
    and "distinct (chainNames (sortPolicies ips) (sortPolicies eps))"
    and "setsAgree (installedOps E D cfg podInfo (sortPolicies ips) (sortPolicies eps))"
    and "nftVerdicts (envLittle E) passes" "\<not> fullMark mk"
  shows "passes (kernel c') ''input'' pk mk \<longleftrightarrow>
      hookAllows D cfg podInfo pk ingressChainName commonIngressName (allowSrcPrefix cfg) (sortPolicies ips)"
    and "passes (kernel c') ''output'' pk mk \<longleftrightarrow>
      hookAllows D cfg podInfo pk egressChainName commonEgressName (allowDstPrefix cfg) (sortPolicies eps)"
proof -
  from install_view [OF assms(1-5)]
  have "viewOf filterTable (kernel c') = applyOps (installedOps E D cfg podInfo (sortPolicies ips) (sortPolicies eps)) emptyView"
    unfolding renderOps_installed [OF assms(6)] by blast
  then show "passes (kernel c') ''input'' pk mk \<longleftrightarrow>
      hookAllows D cfg podInfo pk ingressChainName commonIngressName (allowSrcPrefix cfg) (sortPolicies ips)"
    "passes (kernel c') ''output'' pk mk \<longleftrightarrow>
      hookAllows D cfg podInfo pk egressChainName commonEgressName (allowDstPrefix cfg) (sortPolicies eps)"
    using enforced [OF assms(7,8,10)] assms(9) by (simp_all add: fwOf_view nftVerdicts_def)
qed

text \<open>(C1)
  The rules of a pod enforce its policies.  In a network namespace without managed rules, when the
  chain names and set names of the pod's policies do not clash, the ruleset that a successful run
  flushes to the kernel decides every packet that does not carry the internal mark as the policies
  say: incoming and outgoing packets pass exactly when they are not on a secondary interface of the
  pod, or the operator's common rules allow them, or no policy selects the pod in that direction, or
  the first policy that decides about the packet allows it.
\<close>

theorem policies_enforced:
  assumes "kernelOK E" "wfRules (kernel c)" "messages c = []" "freshK (kernel c)"
    and "installRules E D cfg ps pod p c = (Inr (podInfo, n), c')"
    and "collectPolicies pod podInfo ps ([], []) = (ips, eps)"
    and "distinct (chainNames (sortPolicies ips) (sortPolicies eps))"
    and "setsAgree (installedOps E D cfg podInfo (sortPolicies ips) (sortPolicies eps))"
    and "nftVerdicts (envLittle E) passes" "\<not> fullMark mk"
  shows "(passes (kernel c') ''input'' pk mk \<longleftrightarrow>
        hookAllows D cfg podInfo pk ingressChainName commonIngressName (allowSrcPrefix cfg) (sortPolicies ips))
   \<and> (passes (kernel c') ''output'' pk mk \<longleftrightarrow>
        hookAllows D cfg podInfo pk egressChainName commonEgressName (allowDstPrefix cfg) (sortPolicies eps))"
  using installed_verdicts [OF assms] by blast

section \<open>Policies without exceptions are additive\<close>

definition exceptFree :: "policy_rule list \<Rightarrow> bool" where
  "exceptFree rules \<longleftrightarrow> (\<forall>r \<in> set rules. \<forall>peer \<in> set (prPeers r).
     case peerIPBlock peer of Some block \<Rightarrow> ibExcept block = [] | None \<Rightarrow> True)"

lemma firstOf_true: "Some False \<notin> set ds \<Longrightarrow> firstOf ds = Some True \<longleftrightarrow> Some True \<in> set ds"
  by (induction ds) (auto split: option.splits)

lemma firstOf_mem: "firstOf ds = Some b \<Longrightarrow> Some b \<in> set ds"
  by (induction ds) (auto split: option.splits)

lemma firstOf_never: "(\<And>x. x \<in> set xs \<Longrightarrow> f x \<noteq> Some False) \<Longrightarrow> firstOf (map f xs) \<noteq> Some False"
  using firstOf_mem [of "map f xs" False] by force

lemma peer_never_denies:
  assumes "case peerIPBlock peer of Some block \<Rightarrow> ibExcept block = [] | None \<Rightarrow> True"
  shows "peerDecision D podInfo nets pk cn peer \<noteq> Some False"
proof -
  have a: "addrsDecision pk cn as \<noteq> Some False" for as by (auto simp: addrsDecision_def split: list.splits)
  have p: "prefixDecision pk cn v6 pre [] \<noteq> Some False" for v6 pre using addrIn_none by (simp add: prefixDecision_def)
  have none: "getPrefixesAsSetInterval [] = Inr ([], [])" by (simp add: getPrefixesAsSetInterval_def)
  have two: "firstOf [x, y] \<noteq> Some False" if "x \<noteq> Some False" "y \<noteq> Some False" for x y
    using firstOf_mem [of "[x, y]" False] that by (auto simp del: firstOf.simps)
  show ?thesis
  proof (cases "peerIPBlock peer")
    case None
    show ?thesis
      unfolding peerDecision_def selectorDecision_def None option.case by (simp add: two [OF a a] del: firstOf.simps split: sum.splits prod.splits)
  next
    case (Some block)
    with assms have "ibExcept block = []" by simp
    then show ?thesis
      unfolding peerDecision_def blockDecision_def Some option.case by (simp add: none two [OF p p] del: firstOf.simps split: sum.splits prod.splits)
  qed
qed

lemma policy_never_denies:
  assumes "exceptFree (directionRules entry (ipPolicy ip))"
  shows "policyDecision D podInfo pk entry ip \<noteq> Some False"
proof -
  let ?cn = "policyChainNameOf entry (ipPolicy ip)"
  have "ruleDecision D podInfo (ipNetworks ip) pk ?cn ir \<noteq> Some False" if "ir \<in> set (enumerate 0 (directionRules entry (ipPolicy ip)))" for ir
  proof -
    have "peerDecision D podInfo (ipNetworks ip) pk cn peer \<noteq> Some False" if "peer \<in> set (prPeers (snd ir))" for cn peer
      using assms snd_enumerate [OF \<open>ir \<in> _\<close>] that by (intro peer_never_denies) (auto simp: exceptFree_def)
    then have "peersDecision D podInfo (ipNetworks ip) pk cn (prPeers (snd ir)) \<noteq> Some False" for cn
      unfolding peersDecision_def using firstOf_never [of "prPeers (snd ir)"] by simp
    then show ?thesis by (cases ir rule: prod.exhaust) (auto simp: ruleDecision_def split: option.splits bool.splits)
  qed
  then have "firstOf (map (ruleDecision D podInfo (ipNetworks ip) pk ?cn) (enumerate 0 (directionRules entry (ipPolicy ip)))) \<noteq> Some False"
    by (rule firstOf_never)
  then show ?thesis unfolding policyDecision_def by simp
qed

text \<open>(C4)
  Policies without exceptions are additive, as the API promises: with the rules of a successful run,
  an incoming packet on a secondary interface of the pod passes exactly when the common rules allow it,
  no policy selects the pod, or some policy allows it on its own.  The order of the policies plays no
  role, and no policy can take away what another one allows.
\<close>

theorem except_free_additive:
  assumes "kernelOK E" "wfRules (kernel c)" "messages c = []" "freshK (kernel c)"
    and "installRules E D cfg ps pod p c = (Inr (podInfo, n), c')"
    and "collectPolicies pod podInfo ps ([], []) = (ips, eps)"
    and "distinct (chainNames (sortPolicies ips) (sortPolicies eps))"
    and "setsAgree (installedOps E D cfg podInfo (sortPolicies ips) (sortPolicies eps))"
    and "nftVerdicts (envLittle E) passes" "\<not> fullMark mk"
    and "\<forall>ip \<in> set ips. exceptFree (directionRules ingressChainName (ipPolicy ip))"
    and "intf \<in> set (piInterfaces podInfo)" "pkIif pk = ifname (interfaceName intf)"
  shows "passes (kernel c') ''input'' pk mk \<longleftrightarrow>
     commonAllows cfg pk commonIngressName (allowSrcPrefix cfg) \<or> ips = []
     \<or> (\<exists>ip \<in> set ips. directionAllows D podInfo pk ingressChainName [ip])"
proof -
  have ips: "set (sortPolicies ips) = set ips" "sortPolicies ips = [] \<longleftrightarrow> ips = []"
    using length_sort [of policyKey ips] by (auto simp: sortPolicies_def simp del: length_sort)
  have "Some False \<notin> set (map (policyDecision D podInfo pk ingressChainName) (sortPolicies ips))"
    using policy_never_denies assms(11) by (fastforce simp: ips)
  then have "directionAllows D podInfo pk ingressChainName (sortPolicies ips)
      \<longleftrightarrow> ips = [] \<or> (\<exists>ip \<in> set ips. policyDecision D podInfo pk ingressChainName ip = Some True)"
    unfolding directionAllows_def firstOf_true [OF \<open>_ \<notin> _\<close>] ips(2) using ips(1) by force
  moreover have "directionAllows D podInfo pk ingressChainName [ip] \<longleftrightarrow> policyDecision D podInfo pk ingressChainName ip = Some True" for ip
    by (auto simp: directionAllows_def split: option.splits)
  moreover have "ifaceOf ingressChainName pk = ifname (interfaceName intf)" using assms(13) by (simp add: ifaceOf_def fixed_prefix)
  ultimately show ?thesis
    unfolding installed_verdicts(1) [OF assms(1-10)] hookAllows_def using assms(12) by blast
qed

end
