(* ===== verification/Admission.thy ===== *)
theory Admission
  imports Enforcement
begin

text \<open>
  What an allowed packet has in common with the text of a policy: its interface is on a network of the
  policy, its protocol and destination port are in a port range of a rule, and its remote address is in a
  block or one of the selected addresses of the same rule.
\<close>

section \<open>The direction of a chain name\<close>

lemma stringsMap_prefix:
  assumes "\<forall>c \<in> set p. byteOf c < 128" "\<forall>c \<in> set p. f (byteOf c) = byteOf c"
  shows "stringsMap f (p @ s) = p @ stringsMap f s"
  using assms by (induction p) (simp_all add: stringsMap_def decodeRune_ascii encodeRune_ascii)

lemma truncate_prefix:
  assumes "\<forall>c \<in> set p. byteOf c < 128" "\<forall>c \<in> set p. sanitizeNftChar (byteOf c) = byteOf c" "int (length p) + 10 \<le> maxLen"
  shows "take (length p) (truncateNftName (p @ s) maxLen) = p"
proof -
  have san: "stringsMap sanitizeNftChar (p @ s) = p @ stringsMap sanitizeNftChar s" by (rule stringsMap_prefix [OF assms(1,2)])
  let ?suffix = "''-'' @ hex08 (unat (fnv32a (bytesOf (p @ s))))"
  have len: "length ?suffix = 9" by simp
  have "length p \<le> nat (maxLen - int (length ?suffix))" using assms(3) len by linarith
  then show ?thesis
    using assms(3) len unfolding truncateNftName_def san Let_def by (auto simp: min_def)
qed

lemma itoa_length: "n < 10 ^ Suc k \<Longrightarrow> length (itoa n) \<le> Suc k"
proof (induction k arbitrary: n)
  case 0
  then show ?case by (subst itoa.simps) simp
next
  case (Suc k)
  show ?case
  proof (cases "n < 10")
    case False
    have "n div 10 < 10 ^ Suc k" using Suc.prems by (simp add: less_mult_imp_div_less mult.commute)
    with Suc.IH False show ?thesis by (subst itoa.simps) simp
  qed (subst itoa.simps, simp)
qed

lemma length_sanitized: "length (stringsMap sanitizeNftChar s) \<le> length s"
proof -
  have "sanitizeNftChar r < 128" for r by (auto simp: sanitizeNftChar_def validNftRune_def)
  from stringsMap_total_ascii [of sanitizeNftChar, OF this] show ?thesis using length_runes [of s] by simp
qed

lemma take_prefix_append: "take (length p) t = p \<Longrightarrow> take (length p) (t @ r) = p"
  by (metis append.assoc append_eq_conv_conj append_take_drop_id)

text \<open>The number of rules of a policy fits a Go integer, so the index in a chain name is short.\<close>

lemma peers_direction:
  assumes "entry = ingressChainName \<or> entry = egressChainName" "i < 2 ^ 63"
  shows "isIngressChain (peersNameOf (policyChainNameOf entry policy) i) = isIngressChain entry"
    and "isIngressChain (policyChainNameOf entry policy) = isIngressChain entry"
proof -
  have chars: "\<forall>c \<in> set entry. byteOf c < 128" "\<forall>c \<in> set entry. sanitizeNftChar (byteOf c) = byteOf c"
    and short: "length entry \<le> 13"
    using assms(1) by (auto simp: ingressChainName_def egressChainName_def sanitizeNftChar_def validNftRune_def)
  let ?sep = "stringsMap sanitizeNftChar ''-''" and ?suf = "stringsMap sanitizeNftChar (peersChainSuffix @ ''-'' @ itoa i)"
  have "i < 10 ^ Suc 18" using assms(2) by simp
  from itoa_length [OF this] have len: "length ?suf \<le> 30" "length ?sep \<le> 1"
    using length_sanitized [of "peersChainSuffix @ ''-'' @ itoa i"] length_sanitized [of "''-''"] by (simp_all add: peersChainSuffix_def)
  have "?suf \<noteq> []"
    using stringsMap_prefix [of "''p''" sanitizeNftChar] by (simp add: peersChainSuffix_def sanitizeNftChar_def validNftRune_def)
  then have "length ?sep + length ?suf \<noteq> 0" unfolding add_is_0 length_0_conv by blast
  then have nz: "int (length ?sep + length ?suf) \<noteq> 0" unfolding of_nat_eq_0_iff .
  have fits: "\<not> nftNameMaxLen \<le> int (length ?sep + length ?suf)" and room: "int (length entry) + 10 \<le> nftNameMaxLen - int (length ?sep + length ?suf)"
    using len short unfolding nftNameMaxLen_def by linarith+
  have name: "peersNameOf (policyChainNameOf entry policy) i
      = truncateNftName (policyChainNameOf entry policy) (nftNameMaxLen - int (length ?sep + length ?suf)) @ ?sep @ ?suf"
    using nz fits unfolding peersNameOf_def nftNameWithSuffix_def Let_def by (simp only: if_False)
  let ?t = "truncateNftName (policyChainNameOf entry policy) (nftNameMaxLen - int (length ?sep + length ?suf))"
  have tr: "take (length entry) ?t = entry" unfolding policyChainNameOf_def by (rule truncate_prefix [OF chars room])
  have pre: "take (length entry) (peersNameOf (policyChainNameOf entry policy) i) = entry"
    unfolding name by (rule take_prefix_append [OF tr])
  have dir: "isIngressChain x = isIngressChain entry" if "take (length entry) x = entry" for x
  proof -
    from that obtain y where x: "x = entry @ y" by (metis append_take_drop_id)
    from assms(1) show ?thesis by (auto simp: x isIngressChain_def hasPrefix_def ingressChainName_def egressChainName_def)
  qed
  from dir [OF pre] show "isIngressChain (peersNameOf (policyChainNameOf entry policy) i) = isIngressChain entry" .
  show "isIngressChain (policyChainNameOf entry policy) = isIngressChain entry" by (rule dir) (simp add: policyChainNameOf_def)
qed

section \<open>The remote address of a packet\<close>

text \<open>
  The bytes of the source address of incoming packets and of the destination address of outgoing ones:
  bytes 12 to 15 and 16 to 19 of an IPv4 header, 8 to 23 and 24 to 39 of an IPv6 header.
\<close>

definition remoteBytes :: "packet \<Rightarrow> string \<Rightarrow> bool \<Rightarrow> byte list option" where
  "remoteBytes pk entry isV6 =
     (let from = (if isV6 then (if isIngressChain entry then 8 else 24) else (if isIngressChain entry then 12 else 16));
          size = (if isV6 then 16 else 4) in
      if pkNfproto pk = (if isV6 then 10 else 2) \<and> from + size \<le> length (pkNet pk)
      then Some (take size (drop from (pkNet pk))) else None)"

lemma remoteBytes_payload: "remoteBytes pk entry isV6 =
    (if pkNfproto pk = nfProtocolOf isV6
     then payloadAt pk PayloadBaseNetworkHeader (addrOffset entry isV6) (addrLen isV6) else None)"
  by (simp add: remoteBytes_def payloadAt_def headerOf_def addrOffset_def addrLen_def nfProtocolOf_def
      NFPROTO_IPV4_def NFPROTO_IPV6_def IPv4OffSet_def IPv6OffSet_def IPv4len_def IPv6len_def Let_def)

definition remoteAddr :: "packet \<Rightarrow> string \<Rightarrow> addr option" where
  "remoteAddr pk entry =
     (case remoteBytes pk entry False of
        Some bs \<Rightarrow> Some (Addr4 (of_nat (beVal bs)))
      | None \<Rightarrow> map_option (\<lambda>bs. Addr6 (of_nat (beVal bs)) []) (remoteBytes pk entry True))"

lemma beVal_bound: "beVal bs < 256 ^ length bs"
proof (induction bs rule: rev_induct)
  case (snoc b bs)
  have "unat b < 256" using unsigned_less [of b, where 'a = nat] by simp
  moreover have "Suc (beVal bs) * 256 \<le> 256 ^ length bs * 256" by (rule mult_right_mono) (use snoc in simp_all)
  ultimately show ?case by (simp add: beVal_snoc)
qed (simp add: beVal_def)

lemma addrIn_remote: "addrIn pk cn v6 iv els \<longleftrightarrow> (\<exists>bs. remoteBytes pk cn v6 = Some bs \<and> memberOf iv els bs)"
  by (auto simp: addrIn_def remoteBytes_payload split: option.splits)

lemma remote_direction: "isIngressChain a = isIngressChain b \<Longrightarrow> remoteBytes pk a v6 = remoteBytes pk b v6"
  by (simp add: remoteBytes_payload addrOffset_def)

lemma remoteBytes_length:
  assumes "remoteBytes pk entry v6 = Some bs"
  shows "length bs = (if v6 then 16 else 4)"
proof -
  have "unat (addrLen v6) = (if v6 then 16 else 4)" by (simp add: addrLen_def IPv4len_def IPv6len_def)
  with assms show ?thesis by (auto simp: remoteBytes_payload payloadAt_def Let_def split: if_splits)
qed

lemma remoteBytes_family: "remoteBytes pk entry True = Some bs \<Longrightarrow> remoteBytes pk entry False = None"
  by (auto simp: remoteBytes_payload nfProtocolOf_def NFPROTO_IPV4_def NFPROTO_IPV6_def split: if_splits)

lemma covers_remote:
  "addrIn pk entry False True els \<longleftrightarrow> (\<exists>x :: 32 word. remoteAddr pk entry = Some (Addr4 x) \<and> covers els (unat x))"
  "addrIn pk entry True True els \<longleftrightarrow> (\<exists>x :: 128 word. remoteAddr pk entry = Some (Addr6 x []) \<and> covers els (unat x))"
proof -
  have v4: "unat (of_nat (beVal bs) :: 32 word) = beVal bs" if "remoteBytes pk entry False = Some bs" for bs
    using beVal_bound [of bs] remoteBytes_length [OF that] by (simp add: unat_of_nat)
  have v6: "unat (of_nat (beVal bs) :: 128 word) = beVal bs" if "remoteBytes pk entry True = Some bs" for bs
    using beVal_bound [of bs] remoteBytes_length [OF that] by (simp add: unat_of_nat)
  show "addrIn pk entry False True els \<longleftrightarrow> (\<exists>x :: 32 word. remoteAddr pk entry = Some (Addr4 x) \<and> covers els (unat x))"
    by (cases "remoteBytes pk entry False") (simp_all add: addrIn_remote memberOf_def remoteAddr_def v4)
  show "addrIn pk entry True True els \<longleftrightarrow> (\<exists>x :: 128 word. remoteAddr pk entry = Some (Addr6 x []) \<and> covers els (unat x))"
    by (cases "remoteBytes pk entry True"; cases "remoteBytes pk entry False")
      (simp_all add: addrIn_remote memberOf_def remoteAddr_def v6 remoteBytes_family)
qed

lemma addrIn_direction: "isIngressChain a = isIngressChain b \<Longrightarrow> addrIn pk a v6 iv els = addrIn pk b v6 iv els"
  by (simp add: addrIn_def addrOffset_def)

section \<open>Addresses of selected pods\<close>

text \<open>
  An address a selector stands for: of an interface on a network of the policy, of a listed pod whose
  namespace matches, or of the pod itself, whose addresses are collected along with those of each peer.
\<close>

definition selectedAddr :: "policy_deps \<Rightarrow> pod_info \<Rightarrow> string list \<Rightarrow> selector \<Rightarrow> selector option \<Rightarrow> string \<Rightarrow> bool" where
  "selectedAddr D podInfo nets podSel nsSel x \<longleftrightarrow>
     (\<exists>pods sPod nsLabels sInfo. depListPods D podSel = Inr pods \<and> sPod \<in> set pods
        \<and> depGetNamespaceInfo D (podNamespace sPod) = Inr nsLabels
        \<and> (case nsSel of None \<Rightarrow> True | Some s \<Rightarrow> selMatches s nsLabels)
        \<and> depGetPodInfo D sPod = Inr sInfo
        \<and> (\<exists>intf \<in> set (piInterfaces sInfo) \<union> set (piInterfaces podInfo). ifCheckPolicyNetwork intf nets \<and> x \<in> set (ifIPs intf)))"

definition peerSelectors :: "policy_peer \<Rightarrow> selector \<Rightarrow> selector option \<Rightarrow> bool" where
  "peerSelectors peer podSel nsSel \<longleftrightarrow>
     (case peerPodSelector peer of None \<Rightarrow> podSel = SelAll [] | Some ls \<Rightarrow> LabelSelectorAsSelector ls = Inr podSel)
     \<and> (case peerNamespaceSelector peer of None \<Rightarrow> nsSel = None | Some ls \<Rightarrow> map_option Inr nsSel = Some (LabelSelectorAsSelector ls))"

definition orderKeeps :: "policy_deps \<Rightarrow> bool" where
  "orderKeeps D \<longleftrightarrow> (\<forall>n ks. set (depMapOrder D n ks) = set ks)"

lemma set_addKeys: "set (addKeys ks new) = set ks \<union> set new"
  unfolding addKeys_def by (induction new arbitrary: ks) auto

lemma foldl_keeps: "P a \<Longrightarrow> (\<And>a x. x \<in> set xs \<Longrightarrow> P a \<Longrightarrow> P (f a x)) \<Longrightarrow> P (foldl f a xs)"
  by (induction xs arbitrary: a) auto

lemma collectPair_sound:
  assumes "orderKeeps D" "\<forall>x \<in> set (fst acc) \<union> set (snd acc). Q x" "\<forall>x \<in> set (ifIPs i) \<union> set (ifIPs j). Q x"
  shows "\<forall>x \<in> set (fst (collectPair D acc i j)) \<union> set (snd (collectPair D acc i j)). Q x"
  using assms unfolding orderKeeps_def by (auto simp: collectPair_def Let_def set_addKeys)

lemma collectPod_sound:
  assumes "orderKeeps D" "depListPods D podSel = Inr pods" "sPod \<in> set pods"
    and "\<forall>x \<in> set (fst acc) \<union> set (snd acc). selectedAddr D podInfo nets podSel nsSel x"
  shows "\<forall>x \<in> set (fst (collectPod D podInfo nets nsSel acc sPod)) \<union> set (snd (collectPod D podInfo nets nsSel acc sPod)).
    selectedAddr D podInfo nets podSel nsSel x" (is "?P (collectPod D podInfo nets nsSel acc sPod)")
proof (cases "\<exists>nsLabels sInfo. depGetNamespaceInfo D (podNamespace sPod) = Inr nsLabels
    \<and> (case nsSel of None \<Rightarrow> True | Some s \<Rightarrow> selMatches s nsLabels) \<and> depGetPodInfo D sPod = Inr sInfo")
  case True
  then obtain nsLabels sInfo where hit: "depGetNamespaceInfo D (podNamespace sPod) = Inr nsLabels"
    "case nsSel of None \<Rightarrow> True | Some s \<Rightarrow> selMatches s nsLabels" "depGetPodInfo D sPod = Inr sInfo" by blast
  have pair: "?P (collectPair D b i j)"
    if "?P b" "i \<in> set (piInterfaces podInfo)" "j \<in> set (piInterfaces sInfo)" "ifCheckPolicyNetwork i nets" "ifCheckPolicyNetwork j nets" for b i j
    by (rule collectPair_sound [OF assms(1) that(1)]) (use that hit assms(2,3) in \<open>auto simp: selectedAddr_def\<close>)
  have "?P (foldl (\<lambda>a i. if \<not> ifCheckPolicyNetwork i nets then a
      else foldl (\<lambda>b j. if \<not> ifCheckPolicyNetwork j nets then b else collectPair D b i j) a (piInterfaces sInfo)) acc (piInterfaces podInfo))"
  proof (rule foldl_keeps [where P = ?P])
    fix a i assume a: "i \<in> set (piInterfaces podInfo)" "?P a"
    have "?P (foldl (\<lambda>b j. if \<not> ifCheckPolicyNetwork j nets then b else collectPair D b i j) a (piInterfaces sInfo))" if "ifCheckPolicyNetwork i nets"
      by (rule foldl_keeps [where P = ?P, OF a(2)]) (use pair a(1) that in simp)
    then show "?P (if \<not> ifCheckPolicyNetwork i nets then a
        else foldl (\<lambda>b j. if \<not> ifCheckPolicyNetwork j nets then b else collectPair D b i j) a (piInterfaces sInfo))"
      using a(2) by simp
  qed (rule assms(4))
  then show ?thesis using hit by (simp add: collectPod_def split: option.splits)
next
  case False
  then have "collectPod D podInfo nets nsSel acc sPod = acc"
    by (auto simp: collectPod_def split: sum.splits option.splits)
  then show ?thesis using assms(4) by simp
qed

lemma selectorAddrs_sound:
  assumes "orderKeeps D" "selectorAddrs D podInfo nets peer = Inr addrs" "x \<in> set addrs"
  shows "\<exists>podSel nsSel. peerSelectors peer podSel nsSel \<and> selectedAddr D podInfo nets podSel nsSel x"
proof -
  from assms(2) obtain podSel nsSel pods where s: "peerSelectors peer podSel nsSel" "depListPods D podSel = Inr pods"
    and addrs: "addrs = fst (foldl (collectPod D podInfo nets nsSel) ([], []) pods)"
    by (auto simp: selectorAddrs_def peerSelectors_def bindR_Inr_iff wrapR_Inr_iff split: option.splits)
  have "\<forall>x \<in> set (fst (foldl (collectPod D podInfo nets nsSel) ([], []) pods)) \<union> set (snd (foldl (collectPod D podInfo nets nsSel) ([], []) pods)).
      selectedAddr D podInfo nets podSel nsSel x"
    by (rule foldl_keeps [where P = "\<lambda>acc. \<forall>x \<in> set (fst acc) \<union> set (snd acc). selectedAddr D podInfo nets podSel nsSel x"])
      (use collectPod_sound [OF assms(1) s(2)] in simp_all)
  with s(1) addrs assms(3) show ?thesis by blast
qed

section \<open>Blocks and selectors\<close>

text \<open>
  A block admits the addresses of its range, without its exceptions when no exception lies inside another
  one; a selector admits the addresses of the selected pods.
\<close>

definition peerAdmits :: "policy_deps \<Rightarrow> pod_info \<Rightarrow> string list \<Rightarrow> packet \<Rightarrow> string \<Rightarrow> policy_peer \<Rightarrow> bool" where
  "peerAdmits D podInfo nets pk entry peer \<longleftrightarrow>
     (case peerIPBlock peer of
        Some block \<Rightarrow> (\<exists>a. remoteAddr pk entry = Some a \<and> listedBy [ibCIDR block] a
          \<and> (separatedPrefixes (ibExcept block) \<longrightarrow> \<not> listedBy (ibExcept block) a))
      | None \<Rightarrow> (\<exists>podSel nsSel x v6. peerSelectors peer podSel nsSel \<and> selectedAddr D podInfo nets podSel nsSel x
          \<and> remoteBytes pk entry v6 = Some (addrKey x)))"

lemma listed_covers:
  assumes "getPrefixesAsSetInterval ss = Inr (v4, v6)"
  shows "addrIn pk entry False True v4 \<Longrightarrow> \<exists>x. remoteAddr pk entry = Some (Addr4 x) \<and> listedBy ss (Addr4 x)"
    and "addrIn pk entry True True v6 \<Longrightarrow> \<exists>x. remoteAddr pk entry = Some (Addr6 x []) \<and> listedBy ss (Addr6 x [])"
    and "separatedPrefixes ss \<Longrightarrow> listedBy ss (Addr4 x) \<Longrightarrow> remoteAddr pk entry = Some (Addr4 x) \<Longrightarrow> addrIn pk entry False True v4"
    and "separatedPrefixes ss \<Longrightarrow> listedBy ss (Addr6 y []) \<Longrightarrow> remoteAddr pk entry = Some (Addr6 y []) \<Longrightarrow> addrIn pk entry True True v6"
  using getPrefixes_listed [OF assms] unfolding covers_remote by blast+

lemma block_admits:
  assumes "blockDecision pk entry block = Some True"
  shows "\<exists>a. remoteAddr pk entry = Some a \<and> listedBy [ibCIDR block] a
    \<and> (separatedPrefixes (ibExcept block) \<longrightarrow> \<not> listedBy (ibExcept block) a)"
proof -
  from assms obtain e4 e6 v4 v6 where e: "getPrefixesAsSetInterval (ibExcept block) = Inr (e4, e6)"
    and v: "getPrefixesAsSetInterval [ibCIDR block] = Inr (v4, v6)"
    and dec: "prefixDecision pk entry False v4 e4 = Some True \<or> prefixDecision pk entry True v6 e6 = Some True"
    unfolding blockDecision_def by (auto split: sum.splits prod.splits option.splits)
  from dec show ?thesis
  proof
    assume "prefixDecision pk entry False v4 e4 = Some True"
    then have "addrIn pk entry False True v4" "\<not> addrIn pk entry False True e4" by (auto simp: prefixDecision_def split: if_splits)
    then show ?thesis using listed_covers(1) [OF v] listed_covers(3) [OF e] by blast
  next
    assume "prefixDecision pk entry True v6 e6 = Some True"
    then have "addrIn pk entry True True v6" "\<not> addrIn pk entry True True e6" by (auto simp: prefixDecision_def split: if_splits)
    then show ?thesis using listed_covers(2) [OF v] listed_covers(4) [OF e] by blast
  qed
qed

lemma splitFamilies_sub: "splitFamilies as v4 v6 = Inr (a, b) \<Longrightarrow> set a \<union> set b \<subseteq> set as \<union> set v4 \<union> set v6"
  by (induction as arbitrary: v4 v6) (auto split: sum.splits if_splits, fastforce+)

lemma selector_admits:
  assumes "orderKeeps D" "selectorDecision D podInfo nets pk entry peer = Some True"
  shows "\<exists>podSel nsSel x v6. peerSelectors peer podSel nsSel \<and> selectedAddr D podInfo nets podSel nsSel x
    \<and> remoteBytes pk entry v6 = Some (addrKey x)"
proof -
  have one: "\<exists>x \<in> set as. \<exists>v6. remoteBytes pk entry v6 = Some (addrKey x)" if "addrsDecision pk entry as = Some True" for as
    using that by (fastforce simp: addrsDecision_def addrIn_remote memberOf_def split: list.splits if_splits)
  from assms(2) obtain addrs a b where r: "selectorAddrs D podInfo nets peer = Inr addrs" and s: "splitFamilies addrs [] [] = Inr (a, b)"
    and dec: "addrsDecision pk entry a = Some True \<or> addrsDecision pk entry b = Some True"
    unfolding selectorDecision_def by (cases "selectorAddrs D podInfo nets peer") (auto split: sum.splits prod.splits option.splits)
  from splitFamilies_sub [OF s] dec one have "\<exists>x \<in> set addrs. \<exists>v6. remoteBytes pk entry v6 = Some (addrKey x)" by fastforce
  with selectorAddrs_sound [OF assms(1) r] show ?thesis by blast
qed

lemma peer_admits: "orderKeeps D \<Longrightarrow> peerDecision D podInfo nets pk entry peer = Some True \<Longrightarrow> peerAdmits D podInfo nets pk entry peer"
  using block_admits selector_admits by (auto simp: peerDecision_def peerAdmits_def split: option.splits)

section \<open>Ports\<close>

definition portProtocol :: "policy_port \<Rightarrow> string" where
  "portProtocol p =
     (case ppProtocol p of
        Some proto \<Rightarrow> if proto = ''UDP'' \<or> proto = ''SCTP'' then proto else ''TCP''
      | None \<Rightarrow> ''TCP'')"

definition protocolNumber :: "string \<Rightarrow> byte" where
  "protocolNumber proto = (if proto = ''UDP'' then 17 else if proto = ''SCTP'' then 132 else 6)"

text \<open>An entry with a protocol and no port is about every port of the protocol.\<close>

definition portAdmits :: "packet \<Rightarrow> policy_port \<Rightarrow> bool" where
  "portAdmits pk p \<longleftrightarrow> pkL4proto pk = protocolNumber (portProtocol p)
     \<and> (\<exists>bs. payloadAt pk PayloadBaseTransportHeader 2 2 = Some bs
          \<and> (ppPort p = None \<and> ppProtocol p \<noteq> None
             \<or> (\<exists>lo hi. portRange p = Some (lo, hi) \<and> lo \<le> int (beVal bs) \<and> int (beVal bs) \<le> hi)))"

lemma portAdmitsI:
  assumes "[pkL4proto pk] = snd (getProtocolInfo (portProtocol p))" "portRange (defaultPort p) = Some (lo, hi)"
    and "payloadAt pk PayloadBaseTransportHeader 2 2 = Some bs" "lo \<le> int (beVal bs)" "int (beVal bs) \<le> hi"
  shows "portAdmits pk p"
proof -
  have "pkL4proto pk = protocolNumber (portProtocol p)"
    using assms(1) by (simp add: getProtocolInfo_def protocolNumber_def split: if_splits)
  moreover have "ppPort p = None \<and> ppProtocol p \<noteq> None \<or> portRange p = Some (lo, hi)"
    using assms(2) by (simp add: defaultPort_def split: if_splits)
  ultimately show ?thesis using assms(3-5) unfolding portAdmits_def by blast
qed

text \<open>Without ports, and when no entry says anything, a rule is about all ports.\<close>

definition portsAdmit :: "packet \<Rightarrow> policy_port list \<Rightarrow> bool" where
  "portsAdmit pk ports \<longleftrightarrow>
     (\<forall>p \<in> set ports. ppPort p = None \<and> ppProtocol p = None) \<or> (\<exists>p \<in> set ports. portAdmits pk p)"

lemma validate_range:
  assumes "validatePortSpec port = Inr els"
  shows "ppPort port = None \<and> els = []
    \<or> (\<exists>lo hi. els = k16.rangeElems (lo, hi) \<and> lo \<le> hi \<and> portRange port = Some (uint lo, uint hi))"
proof (cases "ppPort port")
  case (Some p)
  then obtain n where n: "numericPort p = Inr n" "portInRange n"
    using assms unfolding validatePortSpec_cases by (auto split: sum.splits if_splits)
  have el: "[startAt (bigEndianPutUint16 (word_of_int n)), endAt (bigEndianPutUint16 (h + 1))] = k16.rangeElems (word_of_int n, h)" for h :: "16 word"
    by (simp add: k16.rangeElems_def)
  have "\<exists>hi. els = k16.rangeElems (word_of_int n, hi) \<and> n \<le> uint hi \<and> portRange port = Some (n, uint hi)"
  proof (cases "case ppEndPort port of None \<Rightarrow> False | Some e \<Rightarrow> n < sint e")
    case True
    then obtain e where e: "ppEndPort port = Some e" "n < sint e" by (auto split: option.splits)
    with assms Some n have r: "portInRange (sint e)" and els: "els = k16.rangeElems (word_of_int n, ucast e)"
      unfolding validatePortSpec_cases by (auto simp: Let_def el split: if_splits)
    show ?thesis
      by (rule exI [of _ "ucast e"]) (use els e n Some uint16_ucast [OF r] in \<open>simp add: portRange_def max_def\<close>)
  next
    case False
    with assms Some n have els: "els = k16.rangeElems (word_of_int n, word_of_int n)"
      unfolding validatePortSpec_cases by (auto simp: Let_def el split: if_splits option.splits)
    show ?thesis
      by (rule exI [of _ "word_of_int n"])
        (use els False n Some uint16_of_int [OF n(2)] in \<open>auto simp: portRange_def max_def split: option.splits\<close>)
  qed
  then show ?thesis using uint16_of_int [OF n(2)] by (metis word_le_def)
qed (use assms in \<open>auto simp: validatePortSpec_cases\<close>)

text \<open>The elements collected for a protocol are ranges of its entries.\<close>

definition rangesOf :: "policy_port set \<Rightarrow> string \<Rightarrow> set_element list \<Rightarrow> bool" where
  "rangesOf ps proto els \<longleftrightarrow> (\<exists>rs :: (16 word \<times> 16 word) list. els = concat (map k16.rangeElems rs)
     \<and> (\<forall>r \<in> set rs. fst r \<le> snd r \<and> (\<exists>p \<in> ps. portProtocol p = proto \<and> portRange (defaultPort p) = Some (uint (fst r), uint (snd r)))))"

lemma rangesOf_nil: "rangesOf ps proto []"
  unfolding rangesOf_def by (rule exI [of _ "[]"]) simp

lemma rangesOf_append: "rangesOf ps proto a \<Longrightarrow> rangesOf ps proto b \<Longrightarrow> rangesOf ps proto (a @ b)"
  unfolding rangesOf_def by (elim exE, rename_tac rs rs', rule_tac x = "rs @ rs'" in exI) auto

lemma portProtocol_default: "portProtocol (defaultPort p) = portProtocol p" "ppProtocol (defaultPort p) = ppProtocol p"
  by (simp_all add: defaultPort_def portProtocol_def)

definition addPorts :: "policy_port \<Rightarrow> set_element list \<Rightarrow> port_acc \<Rightarrow> port_acc" where
  "addPorts p els acc =
     (if portProtocol p = ''UDP'' then acc\<lparr>portsUDP := portsUDP acc @ els\<rparr>
      else if portProtocol p = ''SCTP'' then acc\<lparr>portsSCTP := portsSCTP acc @ els\<rparr>
      else acc\<lparr>portsTCP := portsTCP acc @ els\<rparr>)"

lemma collectPorts_ConsE:
  assumes "collectPorts (p # ps) acc = Inr acc'"
  obtains els where "validatePortSpec (defaultPort p) = Inr els" "collectPorts ps (addPorts p els acc) = Inr acc'"
proof (cases "validatePortSpec (defaultPort p)")
  case (Inr els)
  with assms that show ?thesis
    by (auto simp: Let_def addPorts_def portProtocol_def portProtocol_default split: option.splits if_splits)
qed (use assms in \<open>simp add: Let_def\<close>)

lemma collectPorts_ranges:
  assumes "collectPorts ps acc = Inr acc'" "set ps \<subseteq> S"
    and "rangesOf S ''TCP'' (portsTCP acc)" "rangesOf S ''UDP'' (portsUDP acc)" "rangesOf S ''SCTP'' (portsSCTP acc)"
  shows "rangesOf S ''TCP'' (portsTCP acc') \<and> rangesOf S ''UDP'' (portsUDP acc') \<and> rangesOf S ''SCTP'' (portsSCTP acc')"
  using assms
proof (induction ps arbitrary: acc)
  case (Cons p ps)
  from Cons.prems(1) obtain els where els: "validatePortSpec (defaultPort p) = Inr els"
    and rest: "collectPorts ps (addPorts p els acc) = Inr acc'" by (rule collectPorts_ConsE)
  have ranges: "rangesOf S (portProtocol p) els"
    using validate_range [OF els]
  proof
    assume "\<exists>lo hi. els = k16.rangeElems (lo, hi) \<and> lo \<le> hi \<and> portRange (defaultPort p) = Some (uint lo, uint hi)"
    then obtain lo hi where "els = k16.rangeElems (lo, hi)" "lo \<le> hi" "portRange (defaultPort p) = Some (uint lo, uint hi)" by blast
    then show ?thesis unfolding rangesOf_def using Cons.prems(2) by (intro exI [of _ "[(lo, hi)]"]) auto
  qed (simp add: rangesOf_nil)
  have "portProtocol p \<in> {''TCP'', ''UDP'', ''SCTP''}" by (auto simp: portProtocol_def split: option.splits)
  then show ?case
    using Cons.prems(2-5) ranges by (intro Cons.IH [OF rest]) (auto simp: addPorts_def rangesOf_append)
qed simp

lemma collectPorts_empty:
  "collectPorts ps acc = Inr acc' \<Longrightarrow> portsTCP acc' = [] \<and> portsUDP acc' = [] \<and> portsSCTP acc' = [] \<Longrightarrow>
   portsTCP acc = [] \<and> portsUDP acc = [] \<and> portsSCTP acc = [] \<and> (\<forall>p \<in> set ps. ppPort p = None \<and> ppProtocol p = None)"
proof (induction ps arbitrary: acc)
  case (Cons p ps)
  from Cons.prems(1) obtain els where els: "validatePortSpec (defaultPort p) = Inr els"
    and rest: "collectPorts ps (addPorts p els acc) = Inr acc'" by (rule collectPorts_ConsE)
  from Cons.IH [OF rest Cons.prems(2)] have "els = []" "portsTCP acc = [] \<and> portsUDP acc = [] \<and> portsSCTP acc = []"
    "\<forall>q \<in> set ps. ppPort q = None \<and> ppProtocol q = None"
    by (auto simp: addPorts_def split: if_splits)
  moreover from this(1) validate_range [OF els] have "ppPort (defaultPort p) = None" by (auto simp: k16.rangeElems_def)
  ultimately show ?case by (auto simp: defaultPort_def split: if_splits)
qed simp

lemma port_admits:
  assumes "portIn pk proto els" "rangesOf S proto els"
  shows "\<exists>p \<in> S. portAdmits pk p"
proof -
  from assms(1) obtain bs where proto: "[pkL4proto pk] = snd (getProtocolInfo proto)"
    and bs: "payloadAt pk PayloadBaseTransportHeader 2 2 = Some bs" and cov: "covers els (beVal bs)"
    by (auto simp: portIn_def memberOf_def split: option.splits)
  from bs have "length bs = 2" by (auto simp: payloadAt_def Let_def split: if_splits)
  then have val: "unat (of_nat (beVal bs) :: 16 word) = beVal bs" using beVal_bound [of bs] by (simp add: unat_of_nat)
  from assms(2) obtain rs :: "(16 word \<times> 16 word) list" where els: "els = concat (map k16.rangeElems rs)"
    and rs: "\<forall>r \<in> set rs. fst r \<le> snd r \<and> (\<exists>p \<in> S. portProtocol p = proto \<and> portRange (defaultPort p) = Some (uint (fst r), uint (snd r)))"
    unfolding rangesOf_def by blast
  from k16.covers_sound [of rs "of_nat (beVal bs)"] cov rs obtain r where r: "r \<in> set rs" "fst r \<le> of_nat (beVal bs)" "of_nat (beVal bs) \<le> snd r"
    unfolding els val by blast
  with rs obtain p where p: "p \<in> S" "portProtocol p = proto" "portRange (defaultPort p) = Some (uint (fst r), uint (snd r))" by blast
  have "uint (of_nat (beVal bs) :: 16 word) = int (beVal bs)" using arg_cong [OF val, of int] by simp
  with r(2,3) have "uint (fst r) \<le> int (beVal bs)" "int (beVal bs) \<le> uint (snd r)" by (simp_all add: word_le_def)
  with p proto bs show ?thesis using portAdmitsI by blast
qed

lemma ports_admit: "portsMatch pk ports \<Longrightarrow> portsAdmit pk ports"
proof -
  assume m: "portsMatch pk ports"
  then obtain acc where acc: "collectPorts ports noPorts = Inr acc"
    and hit: "(portsTCP acc = [] \<and> portsUDP acc = [] \<and> portsSCTP acc = [])
      \<or> portIn pk ''TCP'' (portsTCP acc) \<or> portIn pk ''UDP'' (portsUDP acc) \<or> portIn pk ''SCTP'' (portsSCTP acc)"
    unfolding portsMatch_def by (auto split: sum.splits)
  have "rangesOf (set ports) ''TCP'' (portsTCP acc) \<and> rangesOf (set ports) ''UDP'' (portsUDP acc) \<and> rangesOf (set ports) ''SCTP'' (portsSCTP acc)"
    by (rule collectPorts_ranges [OF acc]) (simp_all add: noPorts_def rangesOf_nil)
  with hit collectPorts_empty [OF acc] port_admits show ?thesis unfolding portsAdmit_def by blast
qed

section \<open>Allowed packets are admitted by a rule\<close>

lemma peerDecision_direction:
  assumes "isIngressChain a = isIngressChain b"
  shows "peerDecision D podInfo nets pk a peer = peerDecision D podInfo nets pk b peer"
  unfolding peerDecision_def blockDecision_def prefixDecision_def selectorDecision_def addrsDecision_def
    addrIn_direction [OF assms] ..

definition ruleAdmits :: "policy_deps \<Rightarrow> pod_info \<Rightarrow> string list \<Rightarrow> packet \<Rightarrow> string \<Rightarrow> policy_rule \<Rightarrow> bool" where
  "ruleAdmits D podInfo nets pk entry r \<longleftrightarrow>
     portsAdmit pk (prPorts r) \<and> (prPeers r = [] \<or> (\<exists>peer \<in> set (prPeers r). peerAdmits D podInfo nets pk entry peer))"

definition policyAdmits :: "policy_deps \<Rightarrow> pod_info \<Rightarrow> packet \<Rightarrow> string \<Rightarrow> policy_rule list \<Rightarrow> internal_policy \<Rightarrow> bool" where
  "policyAdmits D podInfo pk entry rules ip \<longleftrightarrow>
     (\<exists>intf \<in> set (piInterfaces podInfo). ifCheckPolicyNetwork intf (ipNetworks ip) \<and> onInterface entry pk intf)
     \<and> (\<exists>r \<in> set rules. ruleAdmits D podInfo (ipNetworks ip) pk entry r)"

lemma direction_admits:
  assumes order: "orderKeeps D" and entry: "entry = ingressChainName \<or> entry = egressChainName"
    and "directionAllows D podInfo pk entry ips" "ips \<noteq> []"
    and small: "\<forall>ip \<in> set ips. length (directionRules entry (ipPolicy ip)) < 2 ^ 63"
  shows "\<exists>ip \<in> set ips. policyAdmits D podInfo pk entry (directionRules entry (ipPolicy ip)) ip"
proof -
  from assms(3,4) have "firstOf (map (policyDecision D podInfo pk entry) ips) = Some True" by (simp add: directionAllows_def)
  from firstOf_mem [OF this] obtain ip where ip: "ip \<in> set ips" "policyDecision D podInfo pk entry ip = Some True" by auto
  let ?cn = "policyChainNameOf entry (ipPolicy ip)" and ?rules = "directionRules entry (ipPolicy ip)"
  from ip(2) have on: "\<exists>intf \<in> set (piInterfaces podInfo). ifCheckPolicyNetwork intf (ipNetworks ip) \<and> onInterface entry pk intf"
    and "firstOf (map (ruleDecision D podInfo (ipNetworks ip) pk ?cn) (enumerate 0 ?rules)) = Some True"
    by (auto simp: policyDecision_def split: if_splits)
  from firstOf_mem [OF this(2)] obtain i where i: "i < length ?rules" "ruleDecision D podInfo (ipNetworks ip) pk ?cn (i, ?rules ! i) = Some True"
    by (auto simp: in_set_enumerate_eq)
  let ?r = "?rules ! i"
  have dir: "isIngressChain (peersNameOf ?cn i) = isIngressChain entry"
    by (rule peers_direction [OF entry]) (use small ip(1) i(1) in auto)
  from i(2) have ports: "portsMatch pk (prPorts ?r)" and peers: "peersDecision D podInfo (ipNetworks ip) pk (peersNameOf ?cn i) (prPeers ?r) = Some True"
    by (auto simp: ruleDecision_def split: option.splits bool.splits if_splits)
  have "\<exists>peer \<in> set (prPeers ?r). peerAdmits D podInfo (ipNetworks ip) pk entry peer" if "prPeers ?r \<noteq> []"
  proof -
    from peers that firstOf_mem obtain peer where "peer \<in> set (prPeers ?r)" "peerDecision D podInfo (ipNetworks ip) pk (peersNameOf ?cn i) peer = Some True"
      unfolding peersDecision_def by fastforce
    then show ?thesis unfolding peerDecision_direction [OF dir] using peer_admits [OF order] by blast
  qed
  with ports_admit [OF ports] have "ruleAdmits D podInfo (ipNetworks ip) pk entry ?r" unfolding ruleAdmits_def by blast
  with on i(1) ip(1) show ?thesis unfolding policyAdmits_def by (metis nth_mem)
qed

lemma sortPolicies_set: "set (sortPolicies ips) = set ips" "sortPolicies ips = [] \<longleftrightarrow> ips = []"
  using length_sort [of policyKey ips] by (auto simp: sortPolicies_def simp del: length_sort)

lemma direction_rules:
  "directionRules ingressChainName policy = rulesOf (polIngress policy)" "directionRules egressChainName policy = rulesOf (polEgress policy)"
  using peers_direction(2) [of ingressChainName 0 policy] peers_direction(2) [of egressChainName 0 policy]
  by (simp_all add: directionRules_def fixed_prefix)

lemma hook_admits:
  assumes "orderKeeps D" "entry = ingressChainName \<or> entry = egressChainName"
    and "hookAllows D cfg podInfo pk entry common prefixes (sortPolicies ps)"
    and "intf \<in> set (piInterfaces podInfo)" "ifaceOf entry pk = ifname (interfaceName intf)"
    and "\<forall>ip \<in> set ps. length (directionRules entry (ipPolicy ip)) < 2 ^ 63"
  shows "commonAllows cfg pk common prefixes \<or> ps = []
    \<or> (\<exists>ip \<in> set ps. policyAdmits D podInfo pk entry (directionRules entry (ipPolicy ip)) ip)"
proof -
  have "commonAllows cfg pk common prefixes \<or> directionAllows D podInfo pk entry (sortPolicies ps)"
    using assms(3-5) by (auto simp: hookAllows_def)
  then show ?thesis
    using direction_admits [OF assms(1,2), where ips = "sortPolicies ps" and podInfo = podInfo and pk = pk] assms(6)
    by (auto simp: sortPolicies_set)
qed

text \<open>(C2)
  Default deny.  With the rules that a successful run installs for a pod in a network namespace without
  managed rules, an incoming packet on a secondary interface of the pod passes only if the operator's
  common rules allow it, or no policy selects the pod for ingress, or a rule of a policy that selects
  the pod admits it: the interface is on a network of the policy, protocol and destination port are in
  the ports of the rule, and the source address is in one of its blocks (and in no exception of it) or
  is an address of a pod it selects.  The same holds for outgoing packets, with the egress rules and
  the destination address.
\<close>

theorem passed_packets_admitted:
  assumes "kernelOK E" "wfRules (kernel c)" "messages c = []" "freshK (kernel c)"
    and "installRules E D cfg ps pod p c = (Inr (podInfo, n), c')"
    and "collectPolicies pod podInfo ps ([], []) = (ips, eps)"
    and "distinct (chainNames (sortPolicies ips) (sortPolicies eps))"
    and "setsAgree (installedOps E D cfg podInfo (sortPolicies ips) (sortPolicies eps))"
    and "nftVerdicts (envLittle E) passes" "\<not> fullMark mk"
    and "orderKeeps D" "\<forall>ip \<in> set ips. length (rulesOf (polIngress (ipPolicy ip))) < 2 ^ 63"
    and "\<forall>ip \<in> set eps. length (rulesOf (polEgress (ipPolicy ip))) < 2 ^ 63"
    and "intf \<in> set (piInterfaces podInfo)"
  shows "(pkIif pk = ifname (interfaceName intf) \<and> passes (kernel c') ''input'' pk mk \<longrightarrow>
        commonAllows cfg pk commonIngressName (allowSrcPrefix cfg) \<or> ips = []
        \<or> (\<exists>ip \<in> set ips. policyAdmits D podInfo pk ingressChainName (rulesOf (polIngress (ipPolicy ip))) ip))
   \<and> (pkOif pk = ifname (interfaceName intf) \<and> passes (kernel c') ''output'' pk mk \<longrightarrow>
        commonAllows cfg pk commonEgressName (allowDstPrefix cfg) \<or> eps = []
        \<or> (\<exists>ip \<in> set eps. policyAdmits D podInfo pk egressChainName (rulesOf (polEgress (ipPolicy ip))) ip))"
proof -
  note passes = installed_verdicts [OF assms(1-10)]
  have iface: "ifaceOf ingressChainName pk = pkIif pk" "ifaceOf egressChainName pk = pkOif pk"
    by (simp_all add: ifaceOf_def fixed_prefix)
  show ?thesis
    using hook_admits [OF assms(11) _ _ assms(14), of ingressChainName cfg pk commonIngressName "allowSrcPrefix cfg" ips]
      hook_admits [OF assms(11) _ _ assms(14), of egressChainName cfg pk commonEgressName "allowDstPrefix cfg" eps] assms(12,13)
    unfolding passes iface direction_rules by blast
qed

end
