(* ===== verification/Validity.thy ===== *)
theory Validity
  imports Admission
begin

text \<open>
  Valid policies, read off the policy alone: ports are numbers from 1 to 65535, blocks and the operator's
  prefixes are prefixes, selectors are label selectors and the addresses of the selected pods are
  addresses.  For valid policies the run for a pod reaches its one transaction with the intended rules,
  and nothing but the kernel's answer to it decides about the result.
\<close>

section \<open>Valid specifications\<close>

definition prefixesOK :: "string list \<Rightarrow> bool" where
  "prefixesOK ss \<longleftrightarrow> (\<forall>s \<in> set ss. \<exists>p. ParsePrefix s = Inr p)"

definition portOK :: "policy_port \<Rightarrow> bool" where
  "portOK p \<longleftrightarrow> ppPort p = None \<or> (\<exists>lo hi. portRange p = Some (lo, hi) \<and> portInRange lo \<and> portInRange hi)"

definition peerOK :: "policy_deps \<Rightarrow> pod_info \<Rightarrow> string list \<Rightarrow> policy_peer \<Rightarrow> bool" where
  "peerOK D podInfo nets peer \<longleftrightarrow>
     (case peerIPBlock peer of
        Some block \<Rightarrow> prefixesOK (ibCIDR block # ibExcept block)
      | None \<Rightarrow>
          (peerPodSelector peer \<noteq> None \<or> peerNamespaceSelector peer \<noteq> None)
          \<and> (\<exists>podSel nsSel pods. peerSelectors peer podSel nsSel \<and> depListPods D podSel = Inr pods
               \<and> (\<forall>x. selectedAddr D podInfo nets podSel nsSel x \<longrightarrow> (\<exists>a. ParseAddr x = Inr a))))"

definition policyOK :: "policy_deps \<Rightarrow> pod_info \<Rightarrow> string list \<Rightarrow> policy_rule list \<Rightarrow> bool" where
  "policyOK D podInfo nets rules \<longleftrightarrow>
     (\<forall>r \<in> set rules. (\<forall>p \<in> set (prPorts r). portOK p) \<and> (\<forall>peer \<in> set (prPeers r). peerOK D podInfo nets peer))"

section \<open>Valid specifications are accepted\<close>

lemma prefixLoop_accepts: "prefixesOK ss \<Longrightarrow> \<not> is_err (prefixLoop i ss v4 v6)"
proof (induction ss arbitrary: i v4 v6)
  case (Cons s ss)
  then obtain p where "ParsePrefix s = Inr p" "prefixesOK ss" by (auto simp: prefixesOK_def)
  then show ?case using Cons.IH by (simp add: Let_def)
qed simp

lemma getPrefixes_accepts: "prefixesOK ss \<Longrightarrow> \<not> is_err (getPrefixesAsSetInterval ss)"
  by (simp add: getPrefixesAsSetInterval_def prefixLoop_accepts)

lemma validatePortSpec_accepts:
  assumes "portOK p"
  shows "\<not> is_err (validatePortSpec (defaultPort p))"
proof -
  have "portOK (defaultPort p)"
    using assms by (auto simp: portOK_def defaultPort_def portRange_def numericPort_def portInRange_def maxUint16_def)
  then have "\<nexists>e. validatePortSpec (defaultPort p) = Inl e"
    unfolding validatePortSpec_refuses portOK_def by auto
  then show ?thesis by (cases "validatePortSpec (defaultPort p)") auto
qed

lemma collectPorts_accepts: "\<forall>p \<in> set ps. portOK p \<Longrightarrow> \<not> is_err (collectPorts ps acc)"
proof (induction ps arbitrary: acc)
  case (Cons p ps)
  then have "\<not> is_err (validatePortSpec (defaultPort p))" using validatePortSpec_accepts by simp
  then show ?case using Cons by (cases "validatePortSpec (defaultPort p)") (simp_all add: Let_def)
qed simp

lemma splitFamilies_accepts: "\<forall>x \<in> set as. \<exists>a. ParseAddr x = Inr a \<Longrightarrow> \<not> is_err (splitFamilies as v4 v6)"
proof (induction as arbitrary: v4 v6)
  case (Cons x as)
  then obtain a where "ParseAddr x = Inr a" by auto
  then show ?case using Cons by (simp add: Let_def)
qed simp

lemma peerSelectors_unique: "peerSelectors peer s n \<Longrightarrow> peerSelectors peer s' n' \<Longrightarrow> s = s' \<and> n = n'"
  unfolding peerSelectors_def by (auto split: option.splits dest!: sym [of "Inr _"])

lemma peer_valid:
  assumes "orderKeeps D" "peerOK D podInfo nets peer"
  shows "validPeer D podInfo nets peer"
proof (cases "peerIPBlock peer")
  case (Some block)
  then have "prefixesOK (ibExcept block)" "prefixesOK [ibCIDR block]" using assms(2) by (auto simp: peerOK_def prefixesOK_def)
  then show ?thesis using Some getPrefixes_accepts by (simp add: validPeer_def validBlock_def)
next
  case None
  with assms(2) obtain podSel nsSel pods where sel: "peerPodSelector peer \<noteq> None \<or> peerNamespaceSelector peer \<noteq> None"
    and s: "peerSelectors peer podSel nsSel" "depListPods D podSel = Inr pods"
    and addr: "\<And>x. selectedAddr D podInfo nets podSel nsSel x \<Longrightarrow> \<exists>a. ParseAddr x = Inr a" unfolding peerOK_def by auto
  obtain addrs where addrs: "selectorAddrs D podInfo nets peer = Inr addrs"
    using s by (auto simp: selectorAddrs_def peerSelectors_def split: option.splits dest!: sym [of "Inr _"])
  have "\<exists>a. ParseAddr x = Inr a" if "x \<in> set addrs" for x
    using selectorAddrs_sound [OF assms(1) addrs that] peerSelectors_unique [OF s(1)] addr by blast
  then show ?thesis using None sel addrs splitFamilies_accepts by (simp add: validPeer_def)
qed

lemma policy_valid:
  assumes "orderKeeps D" "policyOK D podInfo (ipNetworks ip) (directionRules entry (ipPolicy ip))"
  shows "validPolicy D podInfo entry ip"
  using assms collectPorts_accepts peer_valid by (auto simp: validPolicy_def validRule_def policyOK_def)

section \<open>The one transaction\<close>

lemma applyOps_keeps_sets: "vSet v n \<noteq> None \<Longrightarrow> vSet (applyOps ops v) n \<noteq> None"
proof (induction ops arbitrary: v)
  case (Cons op ops)
  then show ?case by (cases op) auto
qed simp

text \<open>(C3)
  Valid policies reach the kernel in one transaction.  With a kernel that answers its reads, in a network
  namespace that has no managed rules and no legacy tables, the run for a pod with secondary interfaces
  sends exactly one transaction, whose documented effect is the intended ruleset, when the operator's
  prefixes are prefixes and every rule of every policy that selects the pod has valid ports, blocks and
  selectors.  When the kernel commits it and the answer arrives the run succeeds up to and including its
  flush; when the kernel refuses it (overlapping ranges, for example) the run fails with the kernel's
  error and nothing has changed; the run cannot fail for another reason.
\<close>

theorem valid_policies_installed:
  assumes "answers E" "kernelOK E" "wfRules (kernel c)" "messages c = []" "connErr c = None" "freshK (kernel c)"
    and "\<forall>t \<in> set (ksTables (kernel c)). \<not> legacyTable t" "piInterfaces p \<noteq> []"
    and "podInfo = p\<lparr>piInterfaces := sortInterfaces (piInterfaces p)\<rparr>" "orderKeeps D"
    and "prefixesOK (allowSrcPrefix cfg)" "prefixesOK (allowDstPrefix cfg)"
    and "collectPolicies pod podInfo ps ([], []) = (ips, eps)"
    and "\<forall>ip \<in> set ips. policyOK D podInfo (ipNetworks ip) (rulesOf (polIngress (ipPolicy ip)))"
    and "\<forall>ip \<in> set eps. policyOK D podInfo (ipNetworks ip) (rulesOf (polEgress (ipPolicy ip)))"
  shows "\<exists>ms c'. ms \<noteq> []
    \<and> viewOf filterTable (applyMsgs (kernel c) ms) = applyOps (installedOps E D cfg podInfo (sortPolicies ips) (sortPolicies eps)) emptyView
    \<and> (case envCommit E (kernel c) ms of
         Inl e \<Rightarrow> installRules E D cfg ps pod (Some p) c = (Inl (ErrWrap ''nft flush failed'' e), c') \<and> kernel c' = kernel c
       | Inr rs \<Rightarrow> kernel c' = rs \<and> (case envLate E (kernel c) ms of
             None \<Rightarrow> \<exists>n. installRules E D cfg ps pod (Some p) c = (Inr (podInfo, n), c')
           | Some e \<Rightarrow> installRules E D cfg ps pod (Some p) c = (Inl (ErrWrap ''nft flush failed'' e), c')))"
proof -
  have cfg: "validConfig cfg" using assms(11,12) getPrefixes_accepts by (simp add: validConfig_def)
  have pol: "\<forall>ip \<in> set ips. validPolicy D podInfo ingressChainName ip" "\<forall>ip \<in> set eps. validPolicy D podInfo egressChainName ip"
    using policy_valid [OF assms(10)] assms(14,15) by (simp_all add: direction_rules)
  have "ready c" using assms(5,6) by (simp add: ready_def)
  from assms(1) this assms(7-9) cfg assms(13) pol obtain n0 n1 where boot: "bootstrapNetfilterRules E (Some p) c = (Inr (podInfo, n0), nft n0)"
    and render: "renderPolicies E D cfg ps pod podInfo n0 = (Inr (), n1)" and k: "kernel (nft n1) = kernel c" "connErr (nft n1) = None"
    and run: "installRules E D cfg ps pod (Some p) c =
      (case connFlush E (nft n1) of (r, c') \<Rightarrow> (case r of Inl e \<Rightarrow> Inl (ErrWrap ''nft flush failed'' e) | Inr _ \<Rightarrow> Inr (podInfo, n1\<lparr>nft := c'\<rparr>), c'))"
    by (rule install_rendered)
  let ?ms = "messages (nft n1)"
  have view: "viewOf filterTable (applyMsgs (kernel c) ?ms) = applyOps (installedOps E D cfg podInfo (sortPolicies ips) (sortPolicies eps)) emptyView"
    using rendered_view [OF assms(2-4,6) boot render] k(1) unfolding renderOps_installed [OF assms(13)] pend_def by simp
  have "vSet (viewOf filterTable (applyMsgs (kernel c) ?ms)) podInterfacesName \<noteq> None"
    unfolding view installedOps_def bootOps_def by (simp add: applyOps_keeps_sets)
  then have ms: "?ms \<noteq> []" using fresh_view [OF assms(6)] by (auto simp: applyMsgs_def emptyView_def)
  show ?thesis
    using ms view run k
    by (intro exI [of _ ?ms] exI [of _ "snd (connFlush E (nft n1))"])
      (auto simp: connFlush_def Let_def split: sum.splits option.splits)
qed

end
