(* ===== verification/Enforcement_Runs.thy ===== *)
theory Enforcement_Runs
  imports Validity "HOL-Library.Code_Target_Numeral"
begin

text \<open>
  Runs of the whole pipeline on small policies: a policy is installed in an empty network namespace and
  packets are sent through the rules.  The runs show that the theorems apply, and three behaviours that may
  surprise: an exception of one policy denies what another one allows, a pod selector reaches into other
  namespaces, and names of policies make their chains clash.
\<close>

section \<open>A pod, its policies and its packets\<close>

definition exAllow :: "string \<Rightarrow> policy_peer list \<Rightarrow> policy" where
  "exAllow name peers =
     \<lparr>polName = name, polNamespace = ''ns'', polAnnotations = [(PolicyNetworkAnnotation, ''net1'')],
      polPodSelector = \<lparr>matchLabels = [], matchExpressions = []\<rparr>,
      polIngress = Some [\<lparr>prPorts = [\<lparr>ppProtocol = Some ''TCP'', ppPort = Some (IntVal 80), ppEndPort = None\<rparr>], prPeers = peers\<rparr>],
      polEgress = None, polPolicyTypes = []\<rparr>"

definition exTarget :: pod where
  "exTarget = \<lparr>podName = ''p'', podNamespace = ''ns'', podLabels = [], podAnnotations = [], podUID = ''u'', podNodeName = ''n1'',
    podHostNetwork = False, podPhase = ''Running'', podContainerStatuses = []\<rparr>"

definition exDeps :: policy_deps where
  "exDeps = \<lparr>depListPods = (\<lambda>_. Inr []), depGetNamespaceInfo = (\<lambda>_. Inr []), depGetPodInfo = (\<lambda>_. Inl ErrNotExist),
    depMapOrder = (\<lambda>_ ks. ks)\<rparr>"

definition exCfg :: common_rule_config where
  "exCfg = \<lparr>acceptICMPv6 = False, acceptICMP = False, allowSrcPrefix = [], allowDstPrefix = []\<rparr>"

definition exEnv :: nft_env where
  "exEnv = idealEnv (\<lambda>_. [])"

definition exIP :: "policy \<Rightarrow> internal_policy" where
  "exIP p = \<lparr>ipPolicy = p, ipNetworks = [''ns/net1'']\<rparr>"

text \<open>A TCP packet from 10.1.2.3 to a port of the pod.\<close>

definition exPacket :: "byte \<Rightarrow> packet" where
  "exPacket port = \<lparr>pkIif = ifname ''net1'', pkOif = [], pkNfproto = 2, pkL4proto = 6,
     pkNet = replicate 12 0 @ [10, 1, 2, 3] @ [10, 1, 1, 2], pkTrans = [4, 0, 0, port], pkCt = 8\<rparr>"

definition exPasses :: "ruleset \<Rightarrow> string \<Rightarrow> packet \<Rightarrow> 32 word \<Rightarrow> bool" where
  "exPasses rs base pk mk = hookVerdict (fwOf True filterTable rs) pk mk base"

lemma exEnv_facts [simp]: "kernelOK exEnv" "healthy exEnv" "answers exEnv" "envLittle exEnv = True"
  by (simp_all add: exEnv_def healthy_def answers_def)

lemma exEnv_commits [simp]: "envCommit exEnv rs ms = Inr (applyMsgs rs ms)" "envLate exEnv rs ms = None"
  by (simp_all add: exEnv_def idealEnv_def)

lemma exPasses_verdicts [simp]: "nftVerdicts (envLittle exEnv) exPasses"
  by (simp add: nftVerdicts_def exPasses_def)

definition exNet :: conn where
  "exNet = newConn emptyRuleset"

lemma exNet_facts: "kernelOK exEnv" "wfRules (kernel exNet)" "messages exNet = []" "freshK (kernel exNet)"
  by (simp_all add: exNet_def newConn_def emptyRuleset_def freshK_def wfRules_def)

lemma exNet_ready: "healthy exEnv" "ready exNet" "\<forall>t \<in> set (ksTables (kernel exNet)). \<not> legacyTable t"
  by (simp_all add: exNet_def newConn_def emptyRuleset_def ready_def freshK_def)

lemma exPodInfo_sorted: "piInterfaces exPodInfo \<noteq> []" "exPodInfo = exPodInfo\<lparr>piInterfaces := sortInterfaces (piInterfaces exPodInfo)\<rparr>"
  by (simp_all add: exPodInfo_def sortInterfaces_def)

lemma exCfg_valid: "validConfig exCfg"
  by (simp add: validConfig_def exCfg_def getPrefixesAsSetInterval_def)

lemma exCfg_prefixes: "allowSrcPrefix exCfg = []" "allowDstPrefix exCfg = []"
  by (simp_all add: exCfg_def)

lemma exMark: "\<not> fullMark 0"
  by (simp add: fullMark_def matchRuleMark_def)

section \<open>One policy that opens a port\<close>

definition exOpen :: policy where
  "exOpen = exAllow ''b'' []"

lemma exOpen_selected: "collectPolicies exTarget exPodInfo [exOpen] ([], []) = ([exIP exOpen], [])"
  by code_simp

lemma exOpen_sorted: "sortPolicies [exIP exOpen] = [exIP exOpen]" "sortPolicies [] = []"
  by (simp_all add: sortPolicies_def)

lemma exOpen_names: "distinct (chainNames [exIP exOpen] [])"
  by code_simp

lemma exOpen_sets: "setsAgree (installedOps exEnv exDeps exCfg exPodInfo [exIP exOpen] [])"
  by code_simp

lemma exOpen_valid: "validPolicy exDeps exPodInfo ingressChainName (exIP exOpen)"
  by code_simp

lemma exOpen_allows:
  "directionAllows exDeps exPodInfo (exPacket 80) ingressChainName [exIP exOpen]"
  "\<not> directionAllows exDeps exPodInfo (exPacket 81) ingressChainName [exIP exOpen]"
  by code_simp+

lemma ex_common: "\<not> commonAllows exCfg (exPacket port) c []"
  by (simp add: commonAllows_def exCfg_def exPacket_def ndpPacket_def NFPROTO_IPV6_def prefixesAllow_def getPrefixesAsSetInterval_def
      addrIn_none CtStateBitESTABLISHED_def CtStateBitRELATED_def)

lemma exPacket_iface: "ifaceOf ingressChainName (exPacket port) = ifname ''net1''" "pkIif (exPacket port) = ifname ''net1''"
  by (simp_all add: ifaceOf_def fixed_prefix exPacket_def)

lemma exOpen_valid_all:
  "\<forall>ip \<in> set [exIP exOpen]. validPolicy exDeps exPodInfo ingressChainName ip"
  "\<forall>ip \<in> set []. validPolicy exDeps exPodInfo egressChainName ip"
  by (simp_all add: exOpen_valid)

lemmas exOpen_runs = exNet_ready exPodInfo_sorted exCfg_valid exOpen_selected exOpen_valid_all

lemma exOpen_run:
  "\<exists>n c'. installRules exEnv exDeps exCfg [exOpen] exTarget (Some exPodInfo) exNet = (Inr (exPodInfo, n), c')"
  by (rule install_total [OF exOpen_runs])

lemma exOpen_clear:
  "distinct (chainNames (sortPolicies [exIP exOpen]) (sortPolicies []))"
  "setsAgree (installedOps exEnv exDeps exCfg exPodInfo (sortPolicies [exIP exOpen]) (sortPolicies []))"
  by (simp_all add: exOpen_sorted exOpen_names exOpen_sets)

lemmas exOpen_hyps = exOpen_selected exOpen_clear exPasses_verdicts exMark

lemma ex_interface: "hd (piInterfaces exPodInfo) \<in> set (piInterfaces exPodInfo)"
  "pkIif (exPacket port) = ifname (interfaceName (hd (piInterfaces exPodInfo)))"
  by (simp_all add: exPodInfo_def exPacket_def)

lemma exOpen_hook: "hookAllows exDeps exCfg exPodInfo (exPacket port) ingressChainName commonIngressName [] [exIP exOpen]
    \<longleftrightarrow> directionAllows exDeps exPodInfo (exPacket port) ingressChainName [exIP exOpen]"
  using ex_interface(1) ex_interface(2) [of port] by (auto simp: hookAllows_def ex_common exPacket_iface)

theorem valid_policies_installed_witness:
  "\<exists>n c'. installRules exEnv exDeps exCfg [exOpen] exTarget (Some exPodInfo) exNet = (Inr (exPodInfo, n), c')
     \<and> viewOf filterTable (kernel c') = applyOps (installedOps exEnv exDeps exCfg exPodInfo [exIP exOpen] []) emptyView"
proof -
  have "connErr exNet = None" "prefixesOK (allowSrcPrefix exCfg)" "prefixesOK (allowDstPrefix exCfg)" "orderKeeps exDeps"
    by (simp_all add: exNet_def newConn_def prefixesOK_def exCfg_def orderKeeps_def exDeps_def)
  moreover have "\<forall>ip \<in> set [exIP exOpen]. policyOK exDeps exPodInfo (ipNetworks ip) (rulesOf (polIngress (ipPolicy ip)))"
    "\<forall>ip \<in> set []. policyOK exDeps exPodInfo (ipNetworks ip) (rulesOf (polEgress (ipPolicy ip)))"
    by (simp_all add: policyOK_def exIP_def exOpen_def exAllow_def rulesOf_def portOK_def portRange_def numericPort_def portInRange_def maxUint16_def)
  ultimately show ?thesis
    using valid_policies_installed [OF exEnv_facts(3) exNet_facts(1-3) _ exNet_facts(4) exNet_ready(3) exPodInfo_sorted, of exDeps exCfg exTarget "[exOpen]"]
      exOpen_selected by (auto simp: exOpen_sorted)
qed

theorem policies_enforced_witness:
  "\<exists>n c'. installRules exEnv exDeps exCfg [exOpen] exTarget (Some exPodInfo) exNet = (Inr (exPodInfo, n), c')
     \<and> exPasses (kernel c') ''input'' (exPacket 80) 0 \<and> \<not> exPasses (kernel c') ''input'' (exPacket 81) 0"
proof -
  from exOpen_run obtain n c' where r: "installRules exEnv exDeps exCfg [exOpen] exTarget (Some exPodInfo) exNet = (Inr (exPodInfo, n), c')"
    by blast
  have "exPasses (kernel c') ''input'' (exPacket port) 0
      \<longleftrightarrow> directionAllows exDeps exPodInfo (exPacket port) ingressChainName [exIP exOpen]" for port
    using policies_enforced [OF exNet_facts r exOpen_hyps, where pk = "exPacket port"] exOpen_hook
    by (simp add: exOpen_sorted exCfg_prefixes)
  with r exOpen_allows show ?thesis by blast
qed

theorem except_free_additive_witness:
  "\<exists>n c'. installRules exEnv exDeps exCfg [exOpen] exTarget (Some exPodInfo) exNet = (Inr (exPodInfo, n), c')
     \<and> exPasses (kernel c') ''input'' (exPacket 80) 0"
proof -
  from exOpen_run obtain n c' where r: "installRules exEnv exDeps exCfg [exOpen] exTarget (Some exPodInfo) exNet = (Inr (exPodInfo, n), c')"
    by blast
  have "\<forall>ip \<in> set [exIP exOpen]. exceptFree (directionRules ingressChainName (ipPolicy ip))" by code_simp
  from except_free_additive [OF exNet_facts r exOpen_hyps this ex_interface(1) ex_interface(2) [of 80]]
  show ?thesis using r exOpen_allows by auto
qed

lemma exOpen_passes:
  assumes "installRules exEnv exDeps exCfg [exOpen] exTarget (Some exPodInfo) exNet = (Inr (exPodInfo, n), c')"
  shows "exPasses (kernel c') ''input'' (exPacket 80) 0"
  using installed_verdicts(1) [OF exNet_facts assms exOpen_hyps, where pk = "exPacket 80"] exOpen_hook exOpen_allows
  by (simp add: exOpen_sorted exCfg_prefixes)

theorem passed_packets_admitted_witness:
  "policyAdmits exDeps exPodInfo (exPacket 80) ingressChainName (rulesOf (polIngress exOpen)) (exIP exOpen)"
proof -
  from exOpen_run obtain n c' where r: "installRules exEnv exDeps exCfg [exOpen] exTarget (Some exPodInfo) exNet = (Inr (exPodInfo, n), c')"
    by blast
  have l: "orderKeeps exDeps" "\<forall>ip \<in> set [exIP exOpen]. length (rulesOf (polIngress (ipPolicy ip))) < 2 ^ 63"
    "\<forall>ip \<in> set []. length (rulesOf (polEgress (ipPolicy ip))) < 2 ^ 63"
    by (simp_all add: orderKeeps_def exDeps_def exIP_def exOpen_def exAllow_def rulesOf_def)
  from passed_packets_admitted [OF exNet_facts r exOpen_hyps l ex_interface(1), where pk = "exPacket 80"] exOpen_passes [OF r]
  show ?thesis using ex_interface(2) [of 80] by (simp add: ex_common exIP_def exCfg_prefixes)
qed

section \<open>An exception that takes away what another policy allows\<close>

definition exBlock :: ip_block where
  "exBlock = \<lparr>ibCIDR = ''10.0.0.0/8'', ibExcept = [''10.1.0.0/16'']\<rparr>"

definition exGuarded :: policy where
  "exGuarded = exAllow ''a'' [\<lparr>peerPodSelector = None, peerNamespaceSelector = None, peerIPBlock = Some exBlock\<rparr>]"

lemma exBlock_parse:
  "ParsePrefix ''10.0.0.0/8'' = Inr \<lparr>pfAddr = Addr4 0x0A000000, pfBits = 8\<rparr>"
  "ParsePrefix ''10.1.0.0/16'' = Inr \<lparr>pfAddr = Addr4 0x0A010000, pfBits = 16\<rparr>"
  by (simp_all add: parse_run)

lemmas exBlock_run = getPrefixesAsSetInterval_def exBlock_parse is4_def convertPrefixToSet_def maskedAddr_def PrefixLastIP_def setBitsFrom_def

lemma exBlock_prefixes:
  "getPrefixesAsSetInterval [''10.0.0.0/8''] = Inr ([endAt [0, 0, 0, 0], startAt [10, 0, 0, 0], endAt [11, 0, 0, 0]], [])"
  "getPrefixesAsSetInterval [''10.1.0.0/16''] = Inr ([endAt [0, 0, 0, 0], startAt [10, 1, 0, 0], endAt [10, 2, 0, 0]], [])"
  by (simp add: exBlock_run, code_simp)+

lemma exGuarded_rules:
  "directionRules ingressChainName (ipPolicy (exIP exGuarded)) = [\<lparr>prPorts = [\<lparr>ppProtocol = Some ''TCP'', ppPort = Some (IntVal 80), ppEndPort = None\<rparr>],
     prPeers = [\<lparr>peerPodSelector = None, peerNamespaceSelector = None, peerIPBlock = Some exBlock\<rparr>]\<rparr>]"
  by (simp add: direction_rules exIP_def exGuarded_def exAllow_def rulesOf_def)

lemma exPacket_excepted:
  assumes "isIngressChain cn"
  shows "blockDecision (exPacket 80) cn exBlock = Some False"
proof -
  have "addrIn (exPacket 80) cn False True [endAt [0, 0, 0, 0], startAt [10, 1, 0, 0], endAt [10, 2, 0, 0]]
      \<longleftrightarrow> addrIn (exPacket 80) ingressChainName False True [endAt [0, 0, 0, 0], startAt [10, 1, 0, 0], endAt [10, 2, 0, 0]]"
    using assms by (simp add: addrIn_def addrOffset_def fixed_prefix)
  also have "\<dots>" by code_simp
  finally show ?thesis
    by (simp add: blockDecision_def exBlock_def exBlock_prefixes prefixDecision_def)
qed

lemma exGuarded_on: "\<exists>intf \<in> set (piInterfaces exPodInfo). ifCheckPolicyNetwork intf (ipNetworks (exIP exGuarded)) \<and> onInterface ingressChainName (exPacket 80) intf"
  by code_simp

lemma exGuarded_denies: "policyDecision exDeps exPodInfo (exPacket 80) ingressChainName (exIP exGuarded) = Some False"
proof -
  have "isIngressChain (peersNameOf (policyChainNameOf ingressChainName policy) 0)" for policy
    by (simp add: peers_direction fixed_prefix)
  with exGuarded_on show ?thesis
    by (simp add: policyDecision_def exGuarded_rules ruleDecision_def peersDecision_def peerDecision_def exPacket_excepted)
qed

lemma exGuarded_ports: "collectPorts [\<lparr>ppProtocol = Some ''TCP'', ppPort = Some (IntVal 80), ppEndPort = None\<rparr>] noPorts
    = Inr (noPorts\<lparr>portsTCP := [startAt [0, 80], endAt [0, 81]]\<rparr>)"
  by code_simp

lemma exGuarded_valid: "validPolicy exDeps exPodInfo ingressChainName (exIP exGuarded)"
  using exGuarded_ports by (simp add: validPolicy_def exGuarded_rules validRule_def validPeer_def validBlock_def exBlock_def exBlock_prefixes)

lemma exGuarded_selected: "collectPolicies exTarget exPodInfo [exGuarded, exOpen] ([], []) = ([exIP exGuarded, exIP exOpen], [])"
  by code_simp

lemma exGuarded_sorted: "sortPolicies [exIP exGuarded, exIP exOpen] = [exIP exGuarded, exIP exOpen]"
  by code_simp

lemma exGuarded_names: "distinct (chainNames [exIP exGuarded, exIP exOpen] [])"
  by code_simp

definition setOpsOf :: "gop list \<Rightarrow> gop list" where
  "setOpsOf ops = filter (\<lambda>op. case op of SetE _ _ _ \<Rightarrow> True | _ \<Rightarrow> False) ops"

lemma setOpsOf_simps [simp]:
  "setOpsOf [] = []" "setOpsOf (ops @ ops') = setOpsOf ops @ setOpsOf ops'" "setOpsOf (AddR c es # ops) = setOpsOf ops"
  "setOpsOf (InsR c es # ops) = setOpsOf ops" "setOpsOf (SetE n iv els # ops) = SetE n iv els # setOpsOf ops"
  "setOpsOf (map (\<lambda>x. AddR c (f x)) xs) = []"
  by (simp_all add: setOpsOf_def filter_map comp_def)

lemma setsAgree_table:
  assumes "\<forall>op \<in> set (setOpsOf ops). case op of SetE n iv els \<Rightarrow> t n = (iv, els) | _ \<Rightarrow> True"
  shows "setsAgree ops"
proof -
  have "t n = (iv, els)" if "SetE n iv els \<in> set ops" for n iv els
    using bspec [OF assms, of "SetE n iv els"] that by (simp add: setOpsOf_def)
  then have "iv = iv' \<and> els = els'" if "SetE n iv els \<in> set ops" "SetE n iv' els' \<in> set ops" for n iv els iv' els'
    using that by (metis prod.inject)
  then show ?thesis unfolding setsAgree_def by (simp split: gop.split) blast
qed

lemma exSets_names:
  "portSetName (portsNameOf (policyChainNameOf ingressChainName exGuarded) 0) ''TCP'' = ''multi_ingress_ns_a_ports_0_tcp''"
  "portSetName (portsNameOf (policyChainNameOf ingressChainName exOpen) 0) ''TCP'' = ''multi_ingress_ns_b_ports_0_tcp''"
  "shortName (ipBlockSetName (peersNameOf (policyChainNameOf ingressChainName exGuarded) 0) peerIPBlockPrefix False 0) = ''61b1de03''"
  "shortName (ipBlockSetName (peersNameOf (policyChainNameOf ingressChainName exGuarded) 0) peerIPBlockExceptPrefix False 0) = ''50706c4b''"
  by code_simp+

lemma ex_commonSets: "setOpsOf (commonOps exEnv exCfg) = [SetE ''ndp_set'' False ndpElements, SetE ''ndp_set'' False ndpElements]"
  by (simp add: commonOps_def exCfg_def commonPrefixesOps_def)

lemma exPort_sets: "setOpsOf (portChainOps exEnv pn c [\<lparr>ppProtocol = Some ''TCP'', ppPort = Some (IntVal 80), ppEndPort = None\<rparr>])
    = [SetE (portSetName pn ''TCP'') True [startAt [0, 80], endAt [0, 81]]]"
  unfolding portChainOps_def exGuarded_ports by (simp add: portSetOps_def noPorts_def)

lemma exBlock_sets: "setOpsOf (blockOps exEnv pn c i exBlock)
    = [SetE (shortName (ipBlockSetName pn peerIPBlockExceptPrefix False i)) True [endAt [0, 0, 0, 0], startAt [10, 1, 0, 0], endAt [10, 2, 0, 0]],
       SetE (shortName (ipBlockSetName pn peerIPBlockPrefix False i)) True [endAt [0, 0, 0, 0], startAt [10, 0, 0, 0], endAt [11, 0, 0, 0]]]"
  by (simp add: blockOps_def exBlock_def exBlock_prefixes prefixOps_def)

lemma exOpen_rules:
  "directionRules ingressChainName (ipPolicy (exIP exOpen)) =
     [\<lparr>prPorts = [\<lparr>ppProtocol = Some ''TCP'', ppPort = Some (IntVal 80), ppEndPort = None\<rparr>], prPeers = []\<rparr>]"
  by (simp add: direction_rules exIP_def exOpen_def exAllow_def rulesOf_def)

lemma exIP_policy [simp]: "ipPolicy (exIP p) = p"
  by (simp add: exIP_def)

lemma exGuarded_setOps: "setOpsOf (installedOps exEnv exDeps exCfg exPodInfo [exIP exGuarded, exIP exOpen] [])
  = [SetE podInterfacesName False (interfaceSetElements (piInterfaces exPodInfo)), SetE ''ndp_set'' False ndpElements, SetE ''ndp_set'' False ndpElements,
     SetE ''multi_ingress_ns_a_ports_0_tcp'' True [startAt [0, 80], endAt [0, 81]],
     SetE ''50706c4b'' True [endAt [0, 0, 0, 0], startAt [10, 1, 0, 0], endAt [10, 2, 0, 0]],
     SetE ''61b1de03'' True [endAt [0, 0, 0, 0], startAt [10, 0, 0, 0], endAt [11, 0, 0, 0]],
     SetE ''multi_ingress_ns_b_ports_0_tcp'' True [startAt [0, 80], endAt [0, 81]]]"
  using exGuarded_rules exOpen_rules
  by (simp add: installedOps_def bootOps_def ex_commonSets directionOps_def policyOps_def ruleOps_def Let_def exPort_sets
      peerChainOps_def peerOps_def exBlock_sets exSets_names)

lemma exGuarded_sets: "setsAgree (installedOps exEnv exDeps exCfg exPodInfo [exIP exGuarded, exIP exOpen] [])"
proof (rule setsAgree_table)
  show "\<forall>op \<in> set (setOpsOf (installedOps exEnv exDeps exCfg exPodInfo [exIP exGuarded, exIP exOpen] [])).
     case op of SetE n iv els \<Rightarrow>
       (if n = podInterfacesName then (False, interfaceSetElements (piInterfaces exPodInfo))
        else if n = ''ndp_set'' then (False, ndpElements)
        else if n = ''50706c4b'' then (True, [endAt [0, 0, 0, 0], startAt [10, 1, 0, 0], endAt [10, 2, 0, 0]])
        else if n = ''61b1de03'' then (True, [endAt [0, 0, 0, 0], startAt [10, 0, 0, 0], endAt [11, 0, 0, 0]])
        else (True, [startAt [0, 80], endAt [0, 81]])) = (iv, els)
     | _ \<Rightarrow> True"
    unfolding exGuarded_setOps by (simp add: podInterfacesName_def)
qed

lemma exGuarded_valid_all:
  "\<forall>ip \<in> set [exIP exGuarded, exIP exOpen]. validPolicy exDeps exPodInfo ingressChainName ip"
  "\<forall>ip \<in> set []. validPolicy exDeps exPodInfo egressChainName ip"
  by (simp_all add: exGuarded_valid exOpen_valid)

lemma exGuarded_run:
  "\<exists>n c'. installRules exEnv exDeps exCfg [exGuarded, exOpen] exTarget (Some exPodInfo) exNet = (Inr (exPodInfo, n), c')"
  by (rule install_total [OF exNet_ready exPodInfo_sorted exCfg_valid exGuarded_selected exGuarded_valid_all])

lemma exGuarded_clear:
  "distinct (chainNames (sortPolicies [exIP exGuarded, exIP exOpen]) (sortPolicies []))"
  "setsAgree (installedOps exEnv exDeps exCfg exPodInfo (sortPolicies [exIP exGuarded, exIP exOpen]) (sortPolicies []))"
  by (simp_all only: exGuarded_sorted exOpen_sorted exGuarded_names exGuarded_sets)

lemmas exGuarded_hyps = exGuarded_selected exGuarded_clear exPasses_verdicts exMark

lemma exGuarded_hook: "\<not> hookAllows exDeps exCfg exPodInfo (exPacket 80) ingressChainName commonIngressName [] [exIP exGuarded, exIP exOpen]"
  using ex_interface(1) ex_interface(2) [of 80] by (auto simp: hookAllows_def ex_common exPacket_iface directionAllows_def exGuarded_denies)

text \<open>(C38)
  An exception takes away what another policy allows.  The policy \<^verbatim>\<open>b\<close> of the pod opens port 80 to everyone;
  with it alone a packet from 10.1.2.3 passes.  When the policy \<^verbatim>\<open>a\<close>, which opens the port to 10.0.0.0/8
  except 10.1.0.0/16, is added, the same packet is dropped: the rule of the exception drops at once,
  before the rules of the other policies are reached, although policies are documented to be additive.
\<close>

theorem except_overrides:
  "(\<exists>n c'. installRules exEnv exDeps exCfg [exOpen] exTarget (Some exPodInfo) exNet = (Inr (exPodInfo, n), c')
      \<and> exPasses (kernel c') ''input'' (exPacket 80) 0)
   \<and> (\<exists>n c'. installRules exEnv exDeps exCfg [exGuarded, exOpen] exTarget (Some exPodInfo) exNet = (Inr (exPodInfo, n), c')
      \<and> \<not> exPasses (kernel c') ''input'' (exPacket 80) 0)"
proof -
  from exOpen_run obtain n c' where r: "installRules exEnv exDeps exCfg [exOpen] exTarget (Some exPodInfo) exNet = (Inr (exPodInfo, n), c')"
    by blast
  from exGuarded_run obtain m d where s: "installRules exEnv exDeps exCfg [exGuarded, exOpen] exTarget (Some exPodInfo) exNet = (Inr (exPodInfo, m), d)"
    by blast
  have "\<not> exPasses (kernel d) ''input'' (exPacket 80) 0"
    using installed_verdicts(1) [OF exNet_facts s exGuarded_hyps, where pk = "exPacket 80"] exGuarded_hook
    unfolding exGuarded_sorted exCfg_prefixes by blast
  with exOpen_passes [OF r] r s show ?thesis by blast
qed

section \<open>A selector that reaches other namespaces\<close>

definition exWeb :: label_selector where
  "exWeb = \<lparr>matchLabels = [(''app'', ''web'')], matchExpressions = []\<rparr>"

definition exStranger :: pod where
  "exStranger = exTarget\<lparr>podName := ''q'', podNamespace := ''other'', podLabels := [(''app'', ''web'')]\<rparr>"

definition exStrangerInfo :: pod_info where
  "exStrangerInfo = exPodInfo\<lparr>piName := ''q'', piNamespace := ''other'', piInterfaces :=
     [\<lparr>netattachName = ''ns/net1'', interfaceName = ''net1'', interfaceType = ''macvlan'', ifIPs = [''10.1.2.3'']\<rparr>]\<rparr>"

definition exCluster :: policy_deps where
  "exCluster = \<lparr>depListPods = (\<lambda>sel. Inr (filter (\<lambda>p. selMatches sel (podLabels p)) [exStranger])),
     depGetNamespaceInfo = (\<lambda>_. Inr []), depGetPodInfo = (\<lambda>_. Inr exStrangerInfo), depMapOrder = (\<lambda>_ ks. ks)\<rparr>"

definition exPeer :: policy_peer where
  "exPeer = \<lparr>peerPodSelector = Some exWeb, peerNamespaceSelector = None, peerIPBlock = None\<rparr>"

definition exFriends :: policy where
  "exFriends = exAllow ''c'' [exPeer]"

lemma exFriends_addrs: "selectorAddrs exCluster exPodInfo [''ns/net1''] exPeer = Inr [''10.1.1.2'', ''10.1.2.3'']"
  by code_simp

lemma exFriends_parse: "ParseAddr ''10.1.1.2'' = Inr (Addr4 0x0A010102)" "ParseAddr ''10.1.2.3'' = Inr (Addr4 0x0A010203)"
  by (simp_all add: parse_run)

lemma exFriends_ip: "netParseIP ''10.1.1.2'' = Some 0xFFFF0A010102" "netParseIP ''10.1.2.3'' = Some 0xFFFF0A010203"
  by (simp_all add: netParseIP_def exFriends_parse v4InV6Prefix_def)

lemma exFriends_to4: "to4 (netParseIP ''10.1.1.2'') = Some [10, 1, 1, 2]" "to4 (netParseIP ''10.1.2.3'') = Some [10, 1, 2, 3]"
  unfolding exFriends_ip by code_simp+

lemma exFriends_split: "splitFamilies [''10.1.1.2'', ''10.1.2.3''] [] [] = Inr ([''10.1.1.2'', ''10.1.2.3''], [])"
  by (simp add: exFriends_parse is6_def)

lemma exFriends_keys: "addrKey ''10.1.1.2'' = [10, 1, 1, 2]" "addrKey ''10.1.2.3'' = [10, 1, 2, 3]"
  by (simp_all add: addrKey_def exFriends_to4)

lemma exFriends_rules:
  "directionRules ingressChainName exFriends =
     [\<lparr>prPorts = [\<lparr>ppProtocol = Some ''TCP'', ppPort = Some (IntVal 80), ppEndPort = None\<rparr>], prPeers = [exPeer]\<rparr>]"
  by (simp add: direction_rules exFriends_def exAllow_def rulesOf_def)

lemma exPacket_friend:
  assumes "isIngressChain cn"
  shows "selectorDecision exCluster exPodInfo [''ns/net1''] (exPacket 80) cn exPeer = Some True"
proof -
  have "addrIn (exPacket 80) cn False False [startAt [10, 1, 1, 2], startAt [10, 1, 2, 3]]
      \<longleftrightarrow> addrIn (exPacket 80) ingressChainName False False [startAt [10, 1, 1, 2], startAt [10, 1, 2, 3]]"
    using assms by (simp add: addrIn_def addrOffset_def fixed_prefix)
  also have "\<dots>" by code_simp
  finally show ?thesis
    unfolding selectorDecision_def exFriends_addrs bindR_simps exFriends_split by (simp add: addrsDecision_def exFriends_keys exFriends_to4)
qed

lemma exFriends_on:
  "\<exists>intf \<in> set (piInterfaces exPodInfo). ifCheckPolicyNetwork intf (ipNetworks (exIP exFriends)) \<and> onInterface ingressChainName (exPacket 80) intf"
  "portsMatch (exPacket 80) [\<lparr>ppProtocol = Some ''TCP'', ppPort = Some (IntVal 80), ppEndPort = None\<rparr>]"
  by code_simp+

lemma exFriends_allows: "policyDecision exCluster exPodInfo (exPacket 80) ingressChainName (exIP exFriends) = Some True"
proof -
  have dir: "isIngressChain (peersNameOf (policyChainNameOf ingressChainName policy) 0)" for policy
    by (simp add: peers_direction fixed_prefix)
  have "peersDecision exCluster exPodInfo (ipNetworks (exIP exFriends)) (exPacket 80)
      (peersNameOf (policyChainNameOf ingressChainName (ipPolicy (exIP exFriends))) 0) [exPeer] = Some True"
    by (simp add: peersDecision_def peerDecision_def exPeer_def exPacket_friend [unfolded exPeer_def] dir exIP_def)
  then show ?thesis
    using exFriends_on by (simp add: policyDecision_def exFriends_rules ruleDecision_def)
qed

lemma exFriends_valid: "validPolicy exCluster exPodInfo ingressChainName (exIP exFriends)"
proof -
  have "validPeer exCluster exPodInfo [''ns/net1''] exPeer"
    unfolding validPeer_def exFriends_addrs bindR_simps exFriends_split by (simp add: exPeer_def)
  then show ?thesis
    by (simp add: validPolicy_def exFriends_rules validRule_def exGuarded_ports exIP_def del: collectPorts.simps)
qed

lemma exFriends_sorted: "sortPolicies [exIP exFriends] = [exIP exFriends]"
  by (simp add: sortPolicies_def)

lemma exFriends_selected: "collectPolicies exTarget exPodInfo [exFriends] ([], []) = ([exIP exFriends], [])"
  by code_simp

lemma exFriends_names: "distinct (chainNames [exIP exFriends] [])"
  by code_simp

lemma exFriends_set: "selectorSetName (peersNameOf (policyChainNameOf ingressChainName exFriends) 0) 0 exPeer False = ''b49dd267''"
  by code_simp

lemma exFriends_ports: "portSetName (portsNameOf (policyChainNameOf ingressChainName exFriends) 0) ''TCP'' = ''multi_ingress_ns_c_ports_0_tcp''"
  by code_simp

lemma exFriends_peerSets: "setOpsOf (peerChainOps exEnv exCluster exPodInfo [''ns/net1''] pn c [exPeer])
    = [SetE (selectorSetName pn 0 exPeer False) False [startAt [10, 1, 1, 2], startAt [10, 1, 2, 3]]]"
proof -
  have "setOpsOf (selectorOps exEnv exCluster exPodInfo [''ns/net1''] pn c 0 exPeer)
      = [SetE (selectorSetName pn 0 exPeer False) False [startAt [10, 1, 1, 2], startAt [10, 1, 2, 3]]]"
    unfolding selectorOps_def exFriends_addrs bindR_simps exFriends_split by (simp add: addrOps_def exFriends_keys exFriends_to4)
  then show ?thesis by (simp add: peerChainOps_def peerOps_def exPeer_def)
qed

lemma exFriends_setOps: "setOpsOf (installedOps exEnv exCluster exCfg exPodInfo [exIP exFriends] [])
  = [SetE podInterfacesName False (interfaceSetElements (piInterfaces exPodInfo)), SetE ''ndp_set'' False ndpElements, SetE ''ndp_set'' False ndpElements,
     SetE ''multi_ingress_ns_c_ports_0_tcp'' True [startAt [0, 80], endAt [0, 81]],
     SetE ''b49dd267'' False [startAt [10, 1, 1, 2], startAt [10, 1, 2, 3]]]"
proof -
  have nets: "ipNetworks (exIP exFriends) = [''ns/net1'']" by (simp add: exIP_def)
  show ?thesis
    using exFriends_rules
    by (simp add: installedOps_def bootOps_def ex_commonSets directionOps_def policyOps_def ruleOps_def Let_def exPort_sets
        exFriends_peerSets nets exFriends_ports exFriends_set)
qed

lemma exFriends_sets: "setsAgree (installedOps exEnv exCluster exCfg exPodInfo [exIP exFriends] [])"
proof (rule setsAgree_table)
  show "\<forall>op \<in> set (setOpsOf (installedOps exEnv exCluster exCfg exPodInfo [exIP exFriends] [])).
     case op of SetE n iv els \<Rightarrow>
       (if n = podInterfacesName then (False, interfaceSetElements (piInterfaces exPodInfo))
        else if n = ''ndp_set'' then (False, ndpElements)
        else if n = ''b49dd267'' then (False, [startAt [10, 1, 1, 2], startAt [10, 1, 2, 3]])
        else (True, [startAt [0, 80], endAt [0, 81]])) = (iv, els)
     | _ \<Rightarrow> True"
    unfolding exFriends_setOps by (simp add: podInterfacesName_def)
qed

lemma exFriends_valid_all:
  "\<forall>ip \<in> set [exIP exFriends]. validPolicy exCluster exPodInfo ingressChainName ip"
  "\<forall>ip \<in> set []. validPolicy exCluster exPodInfo egressChainName ip"
  by (simp_all add: exFriends_valid)

lemma exFriends_run:
  "\<exists>n c'. installRules exEnv exCluster exCfg [exFriends] exTarget (Some exPodInfo) exNet = (Inr (exPodInfo, n), c')"
  by (rule install_total [OF exNet_ready exPodInfo_sorted exCfg_valid exFriends_selected exFriends_valid_all])

lemma exFriends_clear:
  "distinct (chainNames (sortPolicies [exIP exFriends]) (sortPolicies []))"
  "setsAgree (installedOps exEnv exCluster exCfg exPodInfo (sortPolicies [exIP exFriends]) (sortPolicies []))"
  by (simp_all only: exFriends_sorted exOpen_sorted exFriends_names exFriends_sets)

lemma exFriends_hook: "hookAllows exCluster exCfg exPodInfo (exPacket 80) ingressChainName commonIngressName [] [exIP exFriends]"
  by (simp add: hookAllows_def directionAllows_def exFriends_allows)

text \<open>(C39)
  A pod selector reaches into other namespaces.  The policy \<^verbatim>\<open>c\<close> of namespace \<^verbatim>\<open>ns\<close> opens port 80 to the
  pods with the label app=web and gives no namespace selector.  The API documentation of the peer says that
  this selects pods of the policy's own namespace; the end-to-end test
  \<^verbatim>\<open>e2e/tests/multi-namespace-multinet.bats\<close> expects that it selects pods of every namespace, and the code
  does what the test expects.  The only such pod of the cluster is in the namespace \<^verbatim>\<open>other\<close>, and its packet passes: the list of pods is
  taken from all namespaces and is filtered by namespace only when there is a namespace selector.
\<close>

theorem selector_crosses_namespaces:
  "podNamespace exStranger \<noteq> polNamespace exFriends \<and> peerNamespaceSelector exPeer = None
   \<and> (\<exists>n c'. installRules exEnv exCluster exCfg [exFriends] exTarget (Some exPodInfo) exNet = (Inr (exPodInfo, n), c')
      \<and> exPasses (kernel c') ''input'' (exPacket 80) 0)"
proof -
  from exFriends_run obtain n c' where r: "installRules exEnv exCluster exCfg [exFriends] exTarget (Some exPodInfo) exNet = (Inr (exPodInfo, n), c')"
    by blast
  have "exPasses (kernel c') ''input'' (exPacket 80) 0"
    using installed_verdicts(1) [OF exNet_facts r exFriends_selected exFriends_clear exPasses_verdicts exMark, where pk = "exPacket 80"] exFriends_hook
    unfolding exFriends_sorted exCfg_prefixes by blast
  moreover have "podNamespace exStranger \<noteq> polNamespace exFriends" "peerNamespaceSelector exPeer = None"
    by (simp_all add: exStranger_def exFriends_def exAllow_def exPeer_def)
  ultimately show ?thesis using r by blast
qed

section \<open>Names of policies that clash\<close>

text \<open>
  The chain for the ports of the first rule of the policy \<^verbatim>\<open>a\<close> has the name of the chain of a policy
  \<^verbatim>\<open>a-ports-0\<close>, so the hypothesis on the chain names does not hold for this pair.
\<close>

lemma chain_names_clash: "\<not> distinct (chainNames [exIP (exAllow ''a'' []), exIP (exAllow ''a-ports-0'' [])] [])"
  by code_simp

end
